(* ===== verification/Prelude.thy ===== *)
theory Prelude
  imports Complex_Main "HOL-Library.Multiset" "HOL-Library.Sublist"
    "HOL-Library.Char_ord" "HOL-Library.List_Lexorder"
begin

text \<open>
  Prelude of the development: the types that stand for Go's basic types, the collections of
  facts that the component proofs share, and generic lemmas on lists, options and association
  lists.

  \<^item> A Go \<^verbatim>\<open>string\<close> and a Go \<^verbatim>\<open>[]byte\<close> are both sequences of bytes. HOL's type \<open>char\<close> has
    exactly 256 values, so both are \<open>char list\<close> and Go's conversions between them are the
    identity.
  \<^item> A Go map is the list of its entries, without duplicate keys, in the order in which a
    \<^verbatim>\<open>range\<close> loop happens to visit them. Go leaves that order open; a statement about every
    such list is a statement about every order.
  \<^item> A nil slice and an empty slice are the same list wherever the program does not
    distinguish them.
\<close>

type_synonym bytes = "char list"

type_synonym ('k, 'v) gomap = "('k \<times> 'v) list"

named_theorems go_eval
  \<open>defining equations unfolded when a model function is evaluated on a concrete input\<close>

section \<open>Association lists as Go maps\<close>

definition go_map :: "('k, 'v) gomap \<Rightarrow> bool" where
  "go_map m \<longleftrightarrow> distinct (map fst m)"

lemma go_map_Nil [simp]: "go_map []"
  by (simp add: go_map_def)

lemma go_map_Cons [simp]: "go_map ((k, v) # m) \<longleftrightarrow> k \<notin> fst ` set m \<and> go_map m"
  by (auto simp: go_map_def)

lemma map_of_in_set: "map_of m k = Some v \<Longrightarrow> (k, v) \<in> set m"
  by (rule map_of_SomeD)

lemma map_of_go_map: "go_map m \<Longrightarrow> (k, v) \<in> set m \<Longrightarrow> map_of m k = Some v"
  by (simp add: go_map_def)

lemma map_of_None_keys: "map_of m k = None \<longleftrightarrow> k \<notin> fst ` set m"
  by (rule map_of_eq_None_iff)

lemma go_map_mset_map_of:
  assumes "go_map m" and "mset m = mset m'"
  shows "map_of m = map_of m'"
proof -
  from assms have "set m = set m'" by (metis set_mset_mset)
  moreover from assms have "go_map m'"
    unfolding go_map_def by (metis mset_map distinct_count_atmost_1 set_mset_mset)
  ultimately show ?thesis using assms(1)
    by (intro map_of_eqI) (auto simp: go_map_def)
qed

text \<open>The assignment \<^verbatim>\<open>m[k] = v\<close>; a new key goes to the end, which is one of the possible orders.\<close>

fun put :: "'k \<Rightarrow> 'v \<Rightarrow> ('k, 'v) gomap \<Rightarrow> ('k, 'v) gomap" where
  "put k v [] = [(k, v)]"
| "put k v ((k', v') # m) = (if k = k' then (k, v) # m else (k', v') # put k v m)"

lemma map_of_put [simp]: "map_of (put k v m) k' = (if k' = k then Some v else map_of m k')"
  by (induction k v m rule: put.induct) auto

lemma fst_set_put: "fst ` set (put k v m) = insert k (fst ` set m)"
  by (induction k v m rule: put.induct) auto

lemma go_map_put [simp]: "go_map m \<Longrightarrow> go_map (put k v m)"
  by (induction k v m rule: put.induct) (auto simp: fst_set_put)

section \<open>Lists\<close>

lemma concat_map_eq_Nil: "concat (map f xs) = [] \<longleftrightarrow> (\<forall>x\<in>set xs. f x = [])"
  by auto

lemma concat_map_cong_mset:
  "mset xs = mset ys \<Longrightarrow> mset (concat (map f xs)) = mset (concat (map f ys))"
  by (simp add: mset_concat flip: sum_mset_sum_list)

lemma map_snd_zip_id: "length xs = length ys \<Longrightarrow> map snd (zip xs ys) = ys"
  by simp

lemma list_all2_self: "(\<And>x. x \<in> set xs \<Longrightarrow> P x x) \<Longrightarrow> list_all2 P xs xs"
  by (simp add: list_all2_same)

lemma prefix_append_drop: "prefix p s \<Longrightarrow> s = p @ drop (length p) s"
  by (auto simp: prefix_def)

lemma drop_shorter: "s \<noteq> [] \<Longrightarrow> 0 < n \<Longrightarrow> length (drop n s) < length s"
  by (cases s) auto

lemma takeWhile_dropWhile_length: "length (dropWhile P s) \<le> length s"
  by (simp add: length_dropWhile_le)

end
