(* ===== verification/Go_Float.thy ===== *)
theory Go_Float
  imports Prelude
begin

text \<open>
  Finite \<^verbatim>\<open>float64\<close> values as the rational numbers they denote. An operation computes the exact
  result and rounds it to the nearest value of the format, ties to even. Infinities and NaN do
  not occur: every number the program compares comes from JSON, which has neither, and rounding
  here has no upper limit, so an overflowing result is a number larger than every finite one.
\<close>

fun bits :: "nat \<Rightarrow> nat" where
  "bits n = (if n = 0 then 0 else Suc (bits (n div 2)))"

declare bits.simps [simp del]

definition pow2 :: "int \<Rightarrow> rat" where
  "pow2 e = (if 0 \<le> e then 2 ^ nat e else 1 / 2 ^ nat (- e))"

text \<open>The exponent of a positive rational: \<open>pow2 e \<le> x < pow2 (e + 1)\<close>.\<close>

definition exponent :: "rat \<Rightarrow> int" where
  "exponent x =
     (let (n, d) = quotient_of x; k = int (bits (nat n)) - int (bits (nat d))
      in if pow2 k \<le> x then k else k - 1)"

definition round_even :: "rat \<Rightarrow> int" where
  "round_even x =
     (let f = \<lfloor>x\<rfloor>; r = x - of_int f
      in if r < 1 / 2 then f else if 1 / 2 < r then f + 1 else if even f then f else f + 1)"

definition f64_round :: "rat \<Rightarrow> rat" where
  "f64_round x =
     (if x = 0 then 0
      else let e = max (- 1074) (exponent \<bar>x\<bar> - 52)
           in of_int (round_even (x / pow2 e)) * pow2 e)"

definition f64_sub :: "rat \<Rightarrow> rat \<Rightarrow> rat" where
  "f64_sub x y = f64_round (x - y)"

definition f64_div :: "rat \<Rightarrow> rat \<Rightarrow> rat" where
  "f64_div x y = f64_round (x / y)"

definition f64_of_int :: "int \<Rightarrow> rat" where
  "f64_of_int i = f64_round (of_int i)"

lemma pow2_pos [simp]: "0 < pow2 e"
  by (simp add: pow2_def)

lemma pow2_neg_int: "e \<le> 0 \<Longrightarrow> 1 / pow2 e = of_int (2 ^ nat (- e))"
  by (auto simp: pow2_def)

lemma pow2_add: "pow2 (a + b) = pow2 a * pow2 b"
proof -
  have "pow2 e = 2 powi e" for e
    by (simp add: pow2_def power_int_def inverse_eq_divide power_one_over)
  then show ?thesis by (simp add: power_int_add)
qed

lemma pow2_mono: "a \<le> b \<Longrightarrow> pow2 a \<le> pow2 b"
proof -
  assume "a \<le> b"
  have "pow2 (a + (b - a)) = pow2 a * pow2 (b - a)" by (rule pow2_add)
  moreover have "1 \<le> pow2 (b - a)" using \<open>a \<le> b\<close> by (simp add: pow2_def)
  ultimately show ?thesis by simp
qed

lemma pow2_0 [simp]: "pow2 0 = 1"
  by (simp add: pow2_def)

lemma round_even_le: "x \<le> of_int n \<Longrightarrow> round_even x \<le> n"
  unfolding round_even_def Let_def by (auto split: if_splits; linarith)

lemma round_even_ge: "of_int n \<le> x \<Longrightarrow> n \<le> round_even x"
  unfolding round_even_def Let_def by (auto split: if_splits; linarith)

lemma round_even_int [simp]: "round_even (of_int n) = n"
  by (simp add: round_even_def)

lemma round_even_minus: "round_even (- x) = - round_even x"
proof (cases "x = of_int \<lfloor>x\<rfloor>")
  case True
  then have "round_even (- x) = round_even (of_int (- \<lfloor>x\<rfloor>))" by simp
  with True show ?thesis by (metis round_even_int)
next
  case False
  then have "\<lfloor>- x\<rfloor> = - \<lfloor>x\<rfloor> - 1" by linarith
  then show ?thesis by (auto simp: round_even_def Let_def)
qed

lemma f64_round_minus: "f64_round (- x) = - f64_round x"
  by (simp add: f64_round_def Let_def round_even_minus)

lemma f64_sub_swap: "f64_sub x y = - f64_sub y x"
  by (metis f64_sub_def f64_round_minus minus_diff_eq)

lemma f64_round_0 [simp]: "f64_round 0 = 0"
  by (simp add: f64_round_def)

lemma f64_round_nonneg: "0 \<le> x \<Longrightarrow> 0 \<le> f64_round x"
  using round_even_ge [of 0] by (auto simp: f64_round_def Let_def less_imp_le [OF pow2_pos])

section \<open>Rounding and one\<close>

lemma bits_bounds: "n \<noteq> 0 \<Longrightarrow> 2 ^ (bits n - 1) \<le> n \<and> n < 2 ^ bits n \<and> 0 < bits n"
proof (induction n rule: bits.induct)
  case (1 n)
  show ?case
  proof (cases "n div 2 = 0")
    case True
    with 1(2) have "n = 1" by auto
    moreover have "bits (Suc 0) = 1" by (simp add: bits.simps)
    ultimately show ?thesis by simp
  next
    case False
    with 1 have ih: "2 ^ (bits (n div 2) - 1) \<le> n div 2" "n div 2 < 2 ^ bits (n div 2)" "0 < bits (n div 2)" by auto
    then have "2 * 2 ^ (bits (n div 2) - 1) \<le> n" "n < 2 * 2 ^ bits (n div 2)" by linarith+
    moreover have "2 * 2 ^ (bits (n div 2) - 1) = (2 :: nat) ^ bits (n div 2)"
      using ih(3) by (cases "bits (n div 2)") auto
    ultimately show ?thesis using 1(2) by (simp add: bits.simps [of n])
  qed
qed

lemma pow2_minus: "pow2 (a - b) = pow2 a / pow2 b"
proof -
  have "pow2 b \<noteq> 0" using pow2_pos [of b] by linarith
  then show ?thesis using pow2_add [of "a - b" b] by (simp add: field_simps)
qed

lemma pow2_of_nat: "pow2 (int n) = 2 ^ n"
  by (simp add: pow2_def)

lemma exponent_le: "0 < x \<Longrightarrow> pow2 (exponent x) \<le> x"
proof -
  assume "0 < x"
  obtain n d where q: "quotient_of x = (n, d)" by fastforce
  then have d: "0 < d" and x: "x = of_int n / of_int d"
    using quotient_of_denom_pos quotient_of_div by blast+
  with \<open>0 < x\<close> have n: "0 < n" by (simp add: zero_less_divide_iff)
  define N D where "N = nat n" and "D = nat d"
  have nd: "N \<noteq> 0" "D \<noteq> 0" "x = of_nat N / of_nat D" using n d x by (simp_all add: N_def D_def)
  note bN = bits_bounds [OF nd(1)] and bD = bits_bounds [OF nd(2)]
  have "pow2 (int (bits N) - int (bits D) - 1) = pow2 (int (bits N - 1)) / pow2 (int (bits D))"
    using bN by (simp add: of_nat_diff algebra_simps flip: pow2_minus)
  also have "\<dots> = 2 ^ (bits N - 1) / 2 ^ bits D" by (simp only: pow2_of_nat)
  also have "\<dots> \<le> of_nat N / of_nat D"
  proof (rule frac_le)
    show "(2 :: rat) ^ (bits N - 1) \<le> of_nat N"
      using bN by (metis of_nat_le_iff of_nat_numeral of_nat_power)
    show "(of_nat D :: rat) \<le> 2 ^ bits D"
      using bD by (metis less_imp_le of_nat_le_iff of_nat_numeral of_nat_power)
  qed (use nd in simp_all)
  finally show ?thesis using q by (simp add: exponent_def Let_def nd(3) N_def D_def)
qed

lemma exponent_less: "0 < x \<Longrightarrow> x < pow2 k \<Longrightarrow> exponent x < k"
  using exponent_le [of x] pow2_mono [of k "exponent x"] by linarith

text \<open>
  A value is not rounded beyond an upper bound that the format holds with the exponent in use.
\<close>

lemma f64_round_le:
  assumes "0 < x" "x \<le> of_int m * pow2 k" and "k \<ge> max (- 1074) (exponent x - 52)"
  shows "f64_round x \<le> of_int m * pow2 k"
proof -
  define e where "e = max (- 1074) (exponent x - 52)"
  have "pow2 (k - e) = of_int (2 ^ nat (k - e))" using assms(3) by (simp add: pow2_def e_def)
  then have q: "of_int m * pow2 k / pow2 e = of_int (m * 2 ^ nat (k - e))"
    by (simp add: pow2_minus flip: times_divide_eq_right)
  have "x / pow2 e \<le> of_int (m * 2 ^ nat (k - e))"
    using assms(2) unfolding q [symmetric] by (simp add: divide_right_mono less_imp_le)
  then have "round_even (x / pow2 e) \<le> m * 2 ^ nat (k - e)" by (rule round_even_le)
  then have "(of_int (round_even (x / pow2 e)) :: rat) \<le> of_int (m * 2 ^ nat (k - e))" by (simp only: of_int_le_iff)
  then have "of_int (round_even (x / pow2 e)) * pow2 e \<le> of_int m * pow2 k"
    unfolding q [symmetric] by (simp add: pos_le_divide_eq)
  then show ?thesis using assms(1) by (simp add: f64_round_def Let_def e_def)
qed

lemma exponent_1: "exponent 1 = 0"
  by (simp add: exponent_def bits.simps)

lemma f64_round_le_1: "0 \<le> x \<Longrightarrow> x \<le> 1 \<Longrightarrow> f64_round x \<le> 1"
proof (cases "x = 0 \<or> x = 1")
  case True
  have "f64_round 1 \<le> of_int 1 * pow2 0" by (rule f64_round_le) (simp_all add: exponent_1)
  with True show ?thesis by auto
next
  case False
  assume "0 \<le> x" "x \<le> 1"
  with False exponent_less [of x 0] have "exponent x < 0" by simp
  with False f64_round_le [of x 1 0] \<open>0 \<le> x\<close> \<open>x \<le> 1\<close> show ?thesis by simp
qed

lemma f64_round_int: "\<bar>i\<bar> < 2 ^ 53 \<Longrightarrow> f64_round (of_int i) = of_int i"
proof -
  assume i: "\<bar>i\<bar> < 2 ^ 53"
  show ?thesis
  proof (cases "i = 0")
    case False
    have "\<bar>of_int i :: rat\<bar> < pow2 53"
      using i by (simp add: pow2_def flip: of_int_abs)
    with False exponent_less [of "\<bar>of_int i\<bar>" 53] have e: "exponent \<bar>of_int i\<bar> - 52 \<le> 0" by simp
    define e where "e = max (- 1074) (exponent \<bar>of_int i :: rat\<bar> - 52)"
    have "e \<le> 0" using e by (simp add: e_def)
    then have "(of_int i :: rat) / pow2 e = of_int (i * 2 ^ nat (- e))"
      using pow2_neg_int [of e] by (metis of_int_mult times_divide_eq_right mult.right_neutral)
    then have "round_even (of_int i / pow2 e) = i * 2 ^ nat (- e)" by (simp only: round_even_int)
    then have "(of_int (round_even (of_int i / pow2 e)) :: rat) = of_int i / pow2 e"
      using \<open>(of_int i :: rat) / pow2 e = of_int (i * 2 ^ nat (- e))\<close> by simp
    moreover have "pow2 e \<noteq> 0" using pow2_pos [of e] by linarith
    ultimately have "of_int (round_even (of_int i / pow2 e)) * pow2 e = of_int i" by simp
    with False show ?thesis by (simp add: f64_round_def Let_def e_def)
  qed simp
qed

lemma f64_round_1 [simp]: "f64_round 1 = 1"
  using f64_round_int [of 1] by simp

lemma f64_round_ratio_less_1:
  fixes m t :: nat
  assumes "m < t" "t < 2 ^ 53"
  shows "f64_round (of_nat m / of_nat t) < 1"
proof (cases "m = 0")
  case False
  let ?x = "of_nat m / of_nat t :: rat"
  have t: "0 < (of_nat t :: rat)" "of_nat m + 1 \<le> (of_nat t :: rat)" "(of_nat t :: rat) \<le> 2 ^ 53"
  proof -
    have "of_nat (m + 1) \<le> (of_nat t :: rat)" "of_nat t \<le> (of_nat (2 ^ 53) :: rat)"
      using assms by (intro of_nat_mono; simp)+
    then show "of_nat m + 1 \<le> (of_nat t :: rat)" "(of_nat t :: rat) \<le> 2 ^ 53" by simp_all
  qed (use assms in simp)
  have pos: "0 < ?x" using False t by simp
  have "?x \<le> 1 - 1 / of_nat t" using t by (simp add: field_simps)
  also have "\<dots> \<le> 1 - 1 / 2 ^ 53" using t by (intro diff_left_mono divide_left_mono) simp_all
  also have "\<dots> = of_int (2 ^ 53 - 1) * pow2 (- 53)" by (simp add: pow2_def)
  finally have le: "?x \<le> of_int (2 ^ 53 - 1) * pow2 (- 53)" .
  have "?x < pow2 0" using t by simp
  then have "exponent ?x < 0" by (rule exponent_less [OF pos])
  then have "f64_round ?x \<le> of_int (2 ^ 53 - 1) * pow2 (- 53)"
    by (intro f64_round_le [OF pos le]) simp
  also have "\<dots> < 1" by (simp add: pow2_def)
  finally show ?thesis .
qed simp

end
