(* ===== verification/Model.thy ===== *)
theory Model
  imports Go_Float
begin

text \<open>
  The data model of \<^verbatim>\<open>internal/model\<close> and the database type registry of \<^verbatim>\<open>internal/dbtype\<close>:
  sessions, records, requests and responses, side effects, differences and their summary. A Go
  struct is a record with the same fields in the same order, a pointer that may be nil an
  \<open>option\<close>, a string type with named constants a datatype with one constructor per constant
  and one for any other string. \<^verbatim>\<open>int\<close> and \<^verbatim>\<open>int64\<close> counters and Unix times are \<open>int\<close>.
\<close>

section \<open>Dynamic values\<close>

text \<open>
  The values of type \<^verbatim>\<open>any\<close> that the program builds or inspects, one constructor per dynamic
  type. A \<^verbatim>\<open>json.Number\<close> carries its text and what its method \<^verbatim>\<open>Float64\<close> returns.
\<close>

datatype any =
    AnyNil
  | AnyBool bool
  | AnyFloat64 rat
  | AnyFloat32 rat
  | AnyInt int
  | AnyInt64 int
  | AnyNumber string "rat option"
  | AnyString string
  | AnyStrings "string list"
  | AnySlice "any list"
  | AnyMap "(string \<times> any) list"

datatype gotype =
    TNil | TBool | TFloat64 | TFloat32 | TInt | TInt64 | TNumber | TString | TStrings | TSlice | TMap

text \<open>\<^verbatim>\<open>reflect.TypeOf\<close>.\<close>

fun TypeOf :: "any \<Rightarrow> gotype" where
  "TypeOf AnyNil = TNil"
| "TypeOf (AnyBool _) = TBool"
| "TypeOf (AnyFloat64 _) = TFloat64"
| "TypeOf (AnyFloat32 _) = TFloat32"
| "TypeOf (AnyInt _) = TInt"
| "TypeOf (AnyInt64 _) = TInt64"
| "TypeOf (AnyNumber _ _) = TNumber"
| "TypeOf (AnyString _) = TString"
| "TypeOf (AnyStrings _) = TStrings"
| "TypeOf (AnySlice _) = TSlice"
| "TypeOf (AnyMap _) = TMap"

text \<open>
  A human-readable message: the format string and its arguments, as the code passes them to
  \<^verbatim>\<open>fmt.Sprintf\<close>. No part of the program inspects the rendered text.
\<close>

datatype message = Sprintf string "any list"

section \<open>Database types\<close>

definition MySQL :: string where
  "MySQL = ''mysql''"

definition Postgres :: string where
  "Postgres = ''postgres''"

definition Mongo :: string where
  "Mongo = ''mongo''"

definition Redis :: string where
  "Redis = ''redis''"

lemmas dbtype_defs [simp] = MySQL_def Postgres_def Mongo_def Redis_def

definition Supported :: "string list" where
  "Supported = [MySQL, Postgres, Mongo, Redis]"

fun IsSupported_loop :: "string list \<Rightarrow> string \<Rightarrow> bool" where
  "IsSupported_loop [] dbType = False"
| "IsSupported_loop (t # ts) dbType = (if dbType = t then True else IsSupported_loop ts dbType)"

definition IsSupported :: "string \<Rightarrow> bool" where
  "IsSupported dbType = IsSupported_loop Supported dbType"

section \<open>Requests and responses\<close>

type_synonym headers = "(string, string list) gomap"

record HTTPRequest =
  req_Method :: string
  req_Path :: string
  req_Query :: string
  req_Headers :: headers
  req_Body :: bytes
  req_BodyRef :: string
  req_BodyLen :: int

record HTTPResponse =
  resp_StatusCode :: int
  resp_Headers :: headers
  resp_Body :: bytes
  resp_BodyLen :: int

section \<open>Side effects\<close>

datatype SideEffectType = SideEffectDB | SideEffectHTTP | SideEffectOther string

record SQLSideEffect =
  sql_Query :: string
  sql_Args :: "any list"
  sql_RowCount :: int

record MongoSideEffect =
  mg_Database :: string
  mg_Collection :: string
  mg_Operation :: string
  mg_Filter :: any
  mg_Update :: any
  mg_Documents :: any
  mg_DocCount :: int

record RedisSideEffect =
  rd_Command :: string
  rd_Key :: string
  rd_Args :: "string list"

record DatabaseSideEffect =
  db_Type :: string
  db_SQL :: "SQLSideEffect option"
  db_Mongo :: "MongoSideEffect option"
  db_Redis :: "RedisSideEffect option"

record HTTPSideEffect =
  he_Request :: "HTTPRequest option"
  he_Response :: "HTTPResponse option"

record SideEffect =
  se_Type :: SideEffectType
  se_Timestamp :: int
  se_Duration :: int
  se_Database :: "DatabaseSideEffect option"
  se_HTTP :: "HTTPSideEffect option"

definition NewSQLSideEffect :: "string \<Rightarrow> string \<Rightarrow> int \<Rightarrow> SideEffect" where
  "NewSQLSideEffect dbType query timestamp =
     \<lparr>se_Type = SideEffectDB, se_Timestamp = timestamp, se_Duration = 0,
      se_Database = Some \<lparr>db_Type = dbType,
        db_SQL = Some \<lparr>sql_Query = query, sql_Args = [], sql_RowCount = 0\<rparr>,
        db_Mongo = None, db_Redis = None\<rparr>,
      se_HTTP = None\<rparr>"

definition NewMongoSideEffect :: "MongoSideEffect \<Rightarrow> int \<Rightarrow> SideEffect" where
  "NewMongoSideEffect payload timestamp =
     \<lparr>se_Type = SideEffectDB, se_Timestamp = timestamp, se_Duration = 0,
      se_Database = Some \<lparr>db_Type = Mongo, db_SQL = None, db_Mongo = Some payload, db_Redis = None\<rparr>,
      se_HTTP = None\<rparr>"

definition NewRedisSideEffect :: "string \<Rightarrow> string \<Rightarrow> string list \<Rightarrow> int \<Rightarrow> SideEffect" where
  "NewRedisSideEffect command key args timestamp =
     \<lparr>se_Type = SideEffectDB, se_Timestamp = timestamp, se_Duration = 0,
      se_Database = Some \<lparr>db_Type = Redis, db_SQL = None, db_Mongo = None,
        db_Redis = Some \<lparr>rd_Command = command, rd_Key = key, rd_Args = args\<rparr>\<rparr>,
      se_HTTP = None\<rparr>"

definition DatabaseType :: "SideEffect \<Rightarrow> string" where
  "DatabaseType e = (case se_Database e of None \<Rightarrow> '''' | Some d \<Rightarrow> db_Type d)"

definition SQL :: "SideEffect \<Rightarrow> SQLSideEffect option" where
  "SQL e = (case se_Database e of None \<Rightarrow> None | Some d \<Rightarrow> db_SQL d)"

definition MongoPayload :: "SideEffect \<Rightarrow> MongoSideEffect option" where
  "MongoPayload e = (case se_Database e of None \<Rightarrow> None | Some d \<Rightarrow> db_Mongo d)"

definition RedisPayload :: "SideEffect \<Rightarrow> RedisSideEffect option" where
  "RedisPayload e = (case se_Database e of None \<Rightarrow> None | Some d \<Rightarrow> db_Redis d)"

lemmas side_effect_defs =
  NewSQLSideEffect_def NewMongoSideEffect_def NewRedisSideEffect_def
  DatabaseType_def SQL_def MongoPayload_def RedisPayload_def

section \<open>Records and sessions\<close>

record Record =
  rec_ID :: string
  rec_SessionID :: string
  rec_Sequence :: int
  rec_Request :: HTTPRequest
  rec_Response :: HTTPResponse
  rec_SideEffects :: "SideEffect list"
  rec_Duration :: int
  rec_RecordedAt :: int
  rec_Error :: string

datatype SessionStatus = SessionRecording | SessionCompleted | SessionReplayed | SessionOther string

fun status_string :: "SessionStatus \<Rightarrow> string" where
  "status_string SessionRecording = ''recording''"
| "status_string SessionCompleted = ''completed''"
| "status_string SessionReplayed = ''replayed''"
| "status_string (SessionOther s) = s"

record EndpointConfig =
  ep_BaseURL :: string
  ep_Headers :: "(string, string) gomap"

record Session =
  sess_ID :: string
  sess_Name :: string
  sess_Description :: string
  sess_Source :: EndpointConfig
  sess_Target :: EndpointConfig
  sess_Tags :: "string list"
  sess_RecordCount :: int
  sess_CreatedAt :: int
  sess_UpdatedAt :: int
  sess_Status :: SessionStatus
  sess_Metadata :: "(string, string) gomap"
  sess_PID :: int
  sess_DaemonMode :: bool

record SessionFilter =
  flt_Name :: string
  flt_Status :: string
  flt_Tags :: "string list"

section \<open>Differences\<close>

datatype DifferenceKind =
    DiffStatusCode | DiffHeader | DiffBody | DiffBodyField | DiffDBQuery | DiffDBQueryCount
  | DiffMongoOp | DiffRedisCommand | DiffRedisCount | DiffExternalCall | DiffOther string

datatype Severity = SeverityError | SeverityWarning | SeverityInfo | SeverityOther string

record Difference =
  df_Kind :: DifferenceKind
  df_Path :: string
  df_Expected :: any
  df_Actual :: any
  df_Message :: message
  df_Severity :: Severity
  df_Ignored :: bool
  df_Rule :: string

text \<open>A struct literal that leaves \<^verbatim>\<open>Ignored\<close> and \<^verbatim>\<open>Rule\<close> at their zero values.\<close>

abbreviation difference ::
  "DifferenceKind \<Rightarrow> string \<Rightarrow> any \<Rightarrow> any \<Rightarrow> message \<Rightarrow> Severity \<Rightarrow> Difference" where
  "difference k p e a m s \<equiv>
     \<lparr>df_Kind = k, df_Path = p, df_Expected = e, df_Actual = a, df_Message = m, df_Severity = s,
      df_Ignored = False, df_Rule = ''''\<rparr>"

record DiffResult =
  res_RecordID :: string
  res_Sequence :: int
  res_Request :: HTTPRequest
  res_Match :: bool
  res_Differences :: "Difference list"

record DiffSummary =
  sum_SessionID :: string
  sum_TotalCount :: nat
  sum_MatchCount :: nat
  sum_DiffCount :: nat
  sum_ErrorCount :: nat
  sum_IgnoreCount :: nat
  sum_MatchRate :: rat

lemma IsSupported_loop_set: "IsSupported_loop ts t = (t \<in> set ts)"
  by (induction ts) auto

lemma IsSupported_iff: "IsSupported t \<longleftrightarrow> t \<in> {''mysql'', ''postgres'', ''mongo'', ''redis''}"
  by (auto simp: IsSupported_def IsSupported_loop_set Supported_def)

end
