(* ===== verification/Go_Strings.thy ===== *)
theory Go_Strings
  imports Prelude
begin

text \<open>
  What the program uses of Go's packages \<^verbatim>\<open>strings\<close>, \<^verbatim>\<open>bytes\<close>, \<^verbatim>\<open>strconv\<close> and
  \<^verbatim>\<open>unicode/utf8\<close>: searching, splitting, joining and replacing; decimal integers; UTF-8
  decoding; white space; case mapping. Case mapping outside ASCII is a table of package
  \<^verbatim>\<open>unicode\<close>; it is an argument (\<open>up\<close>, \<open>low\<close>) of the functions that use it.
\<close>

section \<open>Searching, splitting, joining, replacing\<close>

definition HasPrefix :: "string \<Rightarrow> string \<Rightarrow> bool" where
  "HasPrefix s p = prefix p s"

text \<open>\<open>Index s sep\<close> is \<^verbatim>\<open>strings.Index\<close> and \<^verbatim>\<open>bytes.Index\<close>; \<open>None\<close> stands for the result -1.\<close>

fun Index :: "string \<Rightarrow> string \<Rightarrow> nat option" where
  "Index [] sep = (if sep = [] then Some 0 else None)"
| "Index (c # s) sep = (if prefix sep (c # s) then Some 0 else map_option Suc (Index s sep))"

definition Contains :: "string \<Rightarrow> string \<Rightarrow> bool" where
  "Contains s sub = (Index s sub \<noteq> None)"

text \<open>\<^verbatim>\<open>strings.SplitN(s, sep, 2)\<close>, for a separator that is not empty.\<close>

definition SplitN2 :: "string \<Rightarrow> string \<Rightarrow> string list" where
  "SplitN2 s sep =
     (case Index s sep of
        None \<Rightarrow> [s]
      | Some i \<Rightarrow> [take i s, drop (i + length sep) s])"

fun Join :: "string list \<Rightarrow> string \<Rightarrow> string" where
  "Join [] sep = []"
| "Join [x] sep = x"
| "Join (x # y # xs) sep = x @ sep @ Join (y # xs) sep"

text \<open>\<^verbatim>\<open>strings.ReplaceAll\<close>, for an old text that is not empty: left to right, no overlap.\<close>

function ReplaceAll :: "string \<Rightarrow> string \<Rightarrow> string \<Rightarrow> string" where
  "ReplaceAll s old new =
     (if old = [] \<or> s = [] then s
      else if prefix old s then new @ ReplaceAll (drop (length old) s) old new
      else hd s # ReplaceAll (tl s) old new)"
  by pat_completeness auto
termination
  by (relation "measure (\<lambda>(s, old, new). length s)") (auto simp: prefix_def)

declare ReplaceAll.simps [simp del]

lemma Index_Some_prefix:
  "Index s sep = Some i \<Longrightarrow> prefix sep (drop i s) \<and> i + length sep \<le> length s"
proof (induction s arbitrary: i)
  case Nil
  then show ?case by (auto split: if_splits)
next
  case (Cons c s)
  then show ?case by (cases i) (auto split: if_splits dest: prefix_length_le)
qed

lemma Index_Some_split: "Index s sep = Some i \<Longrightarrow> s = take i s @ sep @ drop (i + length sep) s"
  by (metis Index_Some_prefix append_take_drop_id drop_drop add.commute prefix_append_drop)

lemma Index_least: "Index s sep = Some i \<Longrightarrow> j < i \<Longrightarrow> \<not> prefix sep (drop j s)"
proof (induction s arbitrary: i j)
  case Nil
  then show ?case by (auto split: if_splits)
next
  case (Cons c s)
  then show ?case by (cases j) (auto split: if_splits)
qed

lemma Index_complete: "prefix sep (drop j s) \<Longrightarrow> j \<le> length s \<Longrightarrow> \<exists>i \<le> j. Index s sep = Some i"
proof (induction s arbitrary: j)
  case Nil
  then show ?case by auto
next
  case (Cons c s)
  show ?case
  proof (cases j)
    case 0
    with Cons.prems show ?thesis by auto
  next
    case (Suc j')
    with Cons.prems Cons.IH [of j'] obtain i where "i \<le> j'" "Index s sep = Some i" by auto
    with Suc show ?thesis by auto
  qed
qed

lemma Contains_append: "Contains s sub \<longleftrightarrow> (\<exists>a b. s = a @ sub @ b)"
proof
  assume "Contains s sub"
  then show "\<exists>a b. s = a @ sub @ b"
    by (auto simp: Contains_def dest!: Index_Some_split)
next
  assume "\<exists>a b. s = a @ sub @ b"
  then obtain a b where "s = a @ sub @ b" by blast
  then show "Contains s sub"
    using Index_complete [of sub "length a" s] by (auto simp: Contains_def)
qed

lemma Index_None_iff: "Index s sep = None \<longleftrightarrow> \<not> Contains s sep"
  by (simp add: Contains_def)

lemma Index_append_Some:
  assumes "\<And>j. j < length a \<Longrightarrow> \<not> prefix sep (drop j (a @ sep @ b))"
  shows "Index (a @ sep @ b) sep = Some (length a)"
proof -
  obtain i where i: "i \<le> length a" "Index (a @ sep @ b) sep = Some i"
    using Index_complete [of sep "length a" "a @ sep @ b"] by auto
  with assms [of i] Index_Some_prefix [OF i(2)] have "i = length a"
    by (cases "i < length a") auto
  with i(2) show ?thesis by simp
qed

section \<open>Decimal integers\<close>

definition digit_char :: "nat \<Rightarrow> char" where
  "digit_char d = char_of (48 + d)"

definition is_digit :: "char \<Rightarrow> bool" where
  "is_digit c = (48 \<le> (of_char c :: nat) \<and> (of_char c :: nat) \<le> 57)"

fun nat_str :: "nat \<Rightarrow> string" where
  "nat_str n = (if n < 10 then [digit_char n] else nat_str (n div 10) @ [digit_char (n mod 10)])"

declare nat_str.simps [simp del]

text \<open>\<^verbatim>\<open>strconv.Itoa\<close> and the verb \<^verbatim>\<open>%d\<close>.\<close>

definition Itoa :: "int \<Rightarrow> string" where
  "Itoa i = (if i < 0 then ''-'' @ nat_str (nat (- i)) else nat_str (nat i))"

definition digits_val :: "string \<Rightarrow> nat" where
  "digits_val s = foldl (\<lambda>n c. 10 * n + (of_char c - 48)) 0 s"

text \<open>
  \<^verbatim>\<open>strconv.Atoi\<close> on a 64-bit platform: an optional sign, at least one decimal digit, nothing
  else, and a value that fits an \<^verbatim>\<open>int\<close>; \<open>None\<close> stands for a non-nil error.
\<close>

definition Atoi :: "string \<Rightarrow> int option" where
  "Atoi s =
     (let neg = (case s of c # _ \<Rightarrow> c = CHR ''-'' | [] \<Rightarrow> False);
          body = (case s of c # t \<Rightarrow> if c = CHR ''-'' \<or> c = CHR ''+'' then t else s | [] \<Rightarrow> [])
      in if body = [] \<or> \<not> list_all is_digit body then None
         else let v = (if neg then - int (digits_val body) else int (digits_val body))
              in if - (2 ^ 63) \<le> v \<and> v < 2 ^ 63 then Some v else None)"

lemma of_char_digit [simp]: "d < 10 \<Longrightarrow> (of_char (digit_char d) :: nat) = 48 + d"
  by (simp add: digit_char_def)

lemma is_digit_digit_char [simp]: "d < 10 \<Longrightarrow> is_digit (digit_char d)"
  by (simp add: is_digit_def)

lemma nat_str_not_Nil [simp]: "nat_str n \<noteq> []"
  by (subst nat_str.simps) simp

lemma nat_str_digits: "list_all is_digit (nat_str n)"
proof (induction n rule: nat_str.induct)
  case (1 n)
  then show ?case by (subst nat_str.simps) simp
qed

lemma digits_val_snoc: "digits_val (s @ [c]) = 10 * digits_val s + (of_char c - 48)"
  by (simp add: digits_val_def)

lemma digits_val_nat_str: "digits_val (nat_str n) = n"
proof (induction n rule: nat_str.induct)
  case (1 n)
  show ?case
  proof (cases "n < 10")
    case True
    then show ?thesis by (subst nat_str.simps) (simp add: digits_val_def)
  next
    case False
    with "1.IH" show ?thesis by (subst nat_str.simps) (simp add: digits_val_snoc)
  qed
qed

lemma nat_str_inject [simp]: "nat_str m = nat_str n \<longleftrightarrow> m = n"
  by (metis digits_val_nat_str)

lemma nat_str_no_char: "\<not> is_digit c \<Longrightarrow> c \<notin> set (nat_str n)"
  using nat_str_digits [of n] by (auto simp: list_all_iff)

lemma nat_str_head: "hd (nat_str n) \<noteq> CHR ''-'' \<and> hd (nat_str n) \<noteq> CHR ''+''"
proof -
  have "is_digit (hd (nat_str n))"
    using nat_str_digits [of n] by (cases "nat_str n") auto
  then show ?thesis by (auto simp: is_digit_def)
qed

lemma Itoa_int [simp]: "Itoa (int n) = nat_str n"
  by (simp add: Itoa_def)

lemma Atoi_nat_str: "int n < 2 ^ 63 \<Longrightarrow> Atoi (nat_str n) = Some (int n)"
proof -
  assume n: "int n < 2 ^ 63"
  obtain c s where cs: "nat_str n = c # s" by (cases "nat_str n") auto
  with nat_str_head [of n] have c: "c \<noteq> CHR ''-''" "c \<noteq> CHR ''+''" by auto
  have "list_all is_digit (c # s)" "digits_val (c # s) = n"
    using nat_str_digits [of n] digits_val_nat_str [of n] by (simp_all add: cs)
  with c n show ?thesis by (simp add: Atoi_def cs)
qed

lemma Atoi_neg_nat_str: "int n \<le> 2 ^ 63 \<Longrightarrow> Atoi (''-'' @ nat_str n) = Some (- int n)"
  using nat_str_digits [of n] digits_val_nat_str [of n] by (simp add: Atoi_def)

lemma Atoi_Itoa: "- (2 ^ 63) \<le> i \<Longrightarrow> i < 2 ^ 63 \<Longrightarrow> Atoi (Itoa i) = Some i"
  using Atoi_nat_str [of "nat i"] Atoi_neg_nat_str [of "nat (- i)"]
  by (auto simp: Itoa_def simp del: append.simps)

end
