(* ===== verification/Go_Unicode.thy ===== *)
theory Go_Unicode
  imports Go_Strings
begin

text \<open>
  UTF-8 as Go's \<^verbatim>\<open>range\<close> over a string sees it, and the functions of package \<^verbatim>\<open>strings\<close>
  that work on code points: \<^verbatim>\<open>TrimSpace\<close>, \<^verbatim>\<open>Fields\<close>, \<^verbatim>\<open>ToUpper\<close>, \<^verbatim>\<open>ToLower\<close> and
  \<^verbatim>\<open>EqualFold\<close>. The last section shows what they do on ASCII text.
\<close>

section \<open>Decoding and encoding\<close>

definition RuneError :: nat where
  "RuneError = 0xFFFD"

definition is_cont :: "nat \<Rightarrow> bool" where
  "is_cont b = (0x80 \<le> b \<and> b \<le> 0xBF)"

text \<open>\<^verbatim>\<open>utf8.DecodeRune\<close> on a non-empty input: the code point and the number of bytes used.\<close>

definition decode2 :: "nat \<Rightarrow> nat list \<Rightarrow> nat \<times> nat" where
  "decode2 b0 t =
     (case t of
        b1 # _ \<Rightarrow> if is_cont b1 then ((b0 - 0xC0) * 64 + (b1 - 0x80), 2) else (RuneError, 1)
      | [] \<Rightarrow> (RuneError, 1))"

definition decode3 :: "nat \<Rightarrow> nat list \<Rightarrow> nat \<times> nat" where
  "decode3 b0 t =
     (case t of
        b1 # b2 # _ \<Rightarrow>
          if (if b0 = 0xE0 then 0xA0 else 0x80) \<le> b1 \<and> b1 \<le> (if b0 = 0xED then 0x9F else 0xBF) \<and> is_cont b2
          then ((b0 - 0xE0) * 4096 + (b1 - 0x80) * 64 + (b2 - 0x80), 3) else (RuneError, 1)
      | _ \<Rightarrow> (RuneError, 1))"

definition decode4 :: "nat \<Rightarrow> nat list \<Rightarrow> nat \<times> nat" where
  "decode4 b0 t =
     (case t of
        b1 # b2 # b3 # _ \<Rightarrow>
          if (if b0 = 0xF0 then 0x90 else 0x80) \<le> b1 \<and> b1 \<le> (if b0 = 0xF4 then 0x8F else 0xBF) \<and>
             is_cont b2 \<and> is_cont b3
          then ((b0 - 0xF0) * 262144 + (b1 - 0x80) * 4096 + (b2 - 0x80) * 64 + (b3 - 0x80), 4)
          else (RuneError, 1)
      | _ \<Rightarrow> (RuneError, 1))"

definition decodeRune :: "char \<Rightarrow> string \<Rightarrow> nat \<times> nat" where
  "decodeRune c s =
     (let b0 = of_char c; t = map of_char (take 3 s)
      in if b0 < 0x80 then (b0, 1)
         else if 0xC2 \<le> b0 \<and> b0 \<le> 0xDF then decode2 b0 t
         else if 0xE0 \<le> b0 \<and> b0 \<le> 0xEF then decode3 b0 t
         else if 0xF0 \<le> b0 \<and> b0 \<le> 0xF4 then decode4 b0 t
         else (RuneError, 1))"

text \<open>The code points of a string, each with the bytes it was decoded from.\<close>

function runes :: "string \<Rightarrow> (nat \<times> string) list" where
  "runes [] = []"
| "runes (c # s) =
     (let (r, w) = decodeRune c s
      in (r, c # take (w - 1) s) # runes (drop (w - 1) s))"
  by pat_completeness auto
termination
  by (relation "measure length") auto

definition unrunes :: "(nat \<times> string) list \<Rightarrow> string" where
  "unrunes rs = concat (map snd rs)"

text \<open>\<^verbatim>\<open>utf8.Valid\<close>: no byte of the input had to be replaced by the error code point.\<close>

definition Valid :: "bytes \<Rightarrow> bool" where
  "Valid s = list_all (\<lambda>(r, bs). \<not> (r = RuneError \<and> length bs = 1)) (runes s)"

text \<open>\<^verbatim>\<open>utf8.EncodeRune\<close>.\<close>

definition encodeRune :: "nat \<Rightarrow> string" where
  "encodeRune r =
     map char_of
      (if r < 0x80 then [r]
       else if r < 0x800 then [0xC0 + r div 64, 0x80 + r mod 64]
       else if r > 0x10FFFF \<or> (0xD800 \<le> r \<and> r \<le> 0xDFFF) then [0xEF, 0xBF, 0xBD]
       else if r < 0x10000 then [0xE0 + r div 4096, 0x80 + r div 64 mod 64, 0x80 + r mod 64]
       else [0xF0 + r div 262144, 0x80 + r div 4096 mod 64, 0x80 + r div 64 mod 64, 0x80 + r mod 64])"

section \<open>White space and case\<close>

text \<open>\<^verbatim>\<open>unicode.IsSpace\<close>.\<close>

definition IsSpace :: "nat \<Rightarrow> bool" where
  "IsSpace r = (9 \<le> r \<and> r \<le> 13 \<or> r = 32 \<or> r = 0x85 \<or> r = 0xA0 \<or> r = 0x1680 \<or>
     0x2000 \<le> r \<and> r \<le> 0x200A \<or> r = 0x2028 \<or> r = 0x2029 \<or> r = 0x202F \<or> r = 0x205F \<or> r = 0x3000)"

definition TrimSpace :: "string \<Rightarrow> string" where
  "TrimSpace s =
     unrunes (rev (dropWhile (IsSpace \<circ> fst) (rev (dropWhile (IsSpace \<circ> fst) (runes s)))))"

function split_fields :: "('a \<Rightarrow> bool) \<Rightarrow> 'a list \<Rightarrow> 'a list list" where
  "split_fields sp rs =
     (case dropWhile sp rs of
        [] \<Rightarrow> []
      | r # rs' \<Rightarrow> (r # takeWhile (\<lambda>x. \<not> sp x) rs') # split_fields sp (dropWhile (\<lambda>x. \<not> sp x) rs'))"
  by pat_completeness auto

lemma dropWhile_Cons_length: "dropWhile sp rs = r # rs' \<Longrightarrow> length rs' < length rs"
  by (metis Suc_le_eq length_Cons length_dropWhile_le)

termination split_fields
  by (relation "measure (\<lambda>(sp, rs). length rs)")
    (auto dest!: dropWhile_Cons_length intro: le_less_trans [OF length_dropWhile_le])

declare split_fields.simps [simp del]

definition Fields :: "string \<Rightarrow> string list" where
  "Fields s = map unrunes (split_fields (IsSpace \<circ> fst) (runes s))"

definition is_ascii :: "char \<Rightarrow> bool" where
  "is_ascii c = ((of_char c :: nat) < 128)"

definition upper_code :: "(nat \<Rightarrow> nat) \<Rightarrow> nat \<Rightarrow> nat" where
  "upper_code up r = (if r < 128 then (if 97 \<le> r \<and> r \<le> 122 then r - 32 else r) else up r)"

definition lower_code :: "(nat \<Rightarrow> nat) \<Rightarrow> nat \<Rightarrow> nat" where
  "lower_code low r = (if r < 128 then (if 65 \<le> r \<and> r \<le> 90 then r + 32 else r) else low r)"

definition upper_char :: "char \<Rightarrow> char" where
  "upper_char c = (if 97 \<le> (of_char c :: nat) \<and> (of_char c :: nat) \<le> 122
                   then char_of ((of_char c :: nat) - 32) else c)"

definition lower_char :: "char \<Rightarrow> char" where
  "lower_char c = (if 65 \<le> (of_char c :: nat) \<and> (of_char c :: nat) \<le> 90
                   then char_of ((of_char c :: nat) + 32) else c)"

definition ToUpper :: "(nat \<Rightarrow> nat) \<Rightarrow> string \<Rightarrow> string" where
  "ToUpper up s =
     (if list_all is_ascii s then map upper_char s
      else concat (map (encodeRune \<circ> upper_code up \<circ> fst) (runes s)))"

definition ToLower :: "(nat \<Rightarrow> nat) \<Rightarrow> string \<Rightarrow> string" where
  "ToLower low s =
     (if list_all is_ascii s then map lower_char s
      else concat (map (encodeRune \<circ> lower_code low \<circ> fst) (runes s)))"

text \<open>
  \<^verbatim>\<open>strings.EqualFold(s, t)\<close> for a text \<open>t\<close> in ASCII, the only use the program makes of it.
  Under simple folding the only code points beyond ASCII that fold to an ASCII letter are
  U+212A (k) and U+017F (s).
\<close>

definition fold_code :: "nat \<Rightarrow> nat" where
  "fold_code r = (if r = 0x212A then 75 else if r = 0x17F then 83
                  else if 97 \<le> r \<and> r \<le> 122 then r - 32 else r)"

definition EqualFold :: "string \<Rightarrow> string \<Rightarrow> bool" where
  "EqualFold s t = (map (fold_code \<circ> fst) (runes s) = map (fold_code \<circ> of_char) t)"

section \<open>Facts\<close>

lemma unrunes_simps [simp]:
  "unrunes [] = []" "unrunes (r # rs) = snd r @ unrunes rs" "unrunes (rs @ rs') = unrunes rs @ unrunes rs'"
  by (simp_all add: unrunes_def)

lemma unrunes_runes [simp]: "unrunes (runes s) = s"
proof (induction s rule: runes.induct)
  case 1
  then show ?case by simp
next
  case (2 c s)
  obtain r w where rw: "decodeRune c s = (r, w)" by fastforce
  with 2 [of "(r, w)"] show ?case by simp
qed

lemma runes_ascii: "list_all is_ascii s \<Longrightarrow> runes s = map (\<lambda>c. (of_char c, [c])) s"
  by (induction s) (auto simp: decodeRune_def is_ascii_def)

lemma unrunes_map_char [simp]: "unrunes (map (\<lambda>c. (of_char c, [c])) s) = s"
  by (induction s) auto

lemma unrunes_char [simp]: "unrunes \<circ> map (\<lambda>c. (of_char c, [c])) = id"
  by (rule ext) simp

lemma upper_char_ascii [simp]: "is_ascii (upper_char c) = is_ascii c"
  by (auto simp: is_ascii_def upper_char_def)

lemma upper_char_idem [simp]: "upper_char (upper_char c) = upper_char c"
  by (auto simp: upper_char_def)

lemma ToUpper_ascii: "list_all is_ascii s \<Longrightarrow> ToUpper up s = map upper_char s"
  by (simp add: ToUpper_def)

text \<open>White space among the ASCII characters, and the two functions on ASCII text.\<close>

definition is_space :: "char \<Rightarrow> bool" where
  "is_space c = IsSpace (of_char c)"

lemma upper_char_space [simp]: "is_ascii c \<Longrightarrow> is_space (upper_char c) = is_space c"
  by (auto simp: is_space_def IsSpace_def upper_char_def is_ascii_def)

lemma split_fields_Nil: "dropWhile sp s = [] \<Longrightarrow> split_fields sp s = []"
  by (subst split_fields.simps) (simp only: list.case)

lemma split_fields_Cons:
  "dropWhile sp s = r # s' \<Longrightarrow>
   split_fields sp s = (r # takeWhile (\<lambda>x. \<not> sp x) s') # split_fields sp (dropWhile (\<lambda>x. \<not> sp x) s')"
  by (subst split_fields.simps) (simp only: list.case)

lemma split_fields_map:
  "split_fields sp (map f s) = map (map f) (split_fields (sp \<circ> f) s)"
proof (induction "sp \<circ> f" s rule: split_fields.induct)
  case (1 s)
  show ?case
  proof (cases "dropWhile (sp \<circ> f) s")
    case Nil
    then have "dropWhile sp (map f s) = []" by (simp add: dropWhile_map)
    with Nil show ?thesis by (simp only: split_fields_Nil list.map)
  next
    case (Cons r s')
    then have *: "dropWhile sp (map f s) = f r # map f s'" by (simp add: dropWhile_map)
    from 1 [OF Cons] show ?thesis
      unfolding split_fields_Cons [OF *] split_fields_Cons [OF Cons]
      by (simp add: dropWhile_map takeWhile_map comp_def)
  qed
qed

lemma Fields_ascii:
  assumes "list_all is_ascii s"
  shows "Fields s = split_fields is_space s"
proof -
  have sp: "(IsSpace \<circ> fst) \<circ> (\<lambda>c. (of_char c, [c])) = is_space"
    by (rule ext) (simp add: is_space_def)
  have "Fields s = map (unrunes \<circ> map (\<lambda>c. (of_char c, [c]))) (split_fields is_space s)"
    by (simp add: Fields_def runes_ascii [OF assms] split_fields_map sp)
  then show ?thesis by simp
qed

lemma TrimSpace_ascii:
  assumes "list_all is_ascii s"
  shows "TrimSpace s = rev (dropWhile is_space (rev (dropWhile is_space s)))"
proof -
  have "(IsSpace \<circ> fst) \<circ> (\<lambda>c. (of_char c, [c])) = is_space"
    by (rule ext) (simp add: is_space_def)
  then show ?thesis
    by (simp add: TrimSpace_def runes_ascii [OF assms] dropWhile_map rev_map)
qed

lemma split_fields_words:
  "w \<in> set (split_fields sp s) \<Longrightarrow> w \<noteq> [] \<and> (\<forall>c\<in>set w. \<not> sp c)"
proof (induction sp s rule: split_fields.induct)
  case (1 sp s)
  show ?case
  proof (cases "dropWhile sp s")
    case Nil
    with "1.prems" show ?thesis by (simp add: split_fields_Nil)
  next
    case (Cons r s')
    then have r: "\<not> sp r" by (metis dropWhile_eq_Cons_conv)
    from "1.prems" have "w = r # takeWhile (\<lambda>x. \<not> sp x) s' \<or>
        w \<in> set (split_fields sp (dropWhile (\<lambda>x. \<not> sp x) s'))"
      by (simp add: split_fields_Cons [OF Cons])
    then show ?thesis
    proof
      assume "w = r # takeWhile (\<lambda>x. \<not> sp x) s'"
      with r show ?thesis by (auto dest: set_takeWhileD)
    next
      assume "w \<in> set (split_fields sp (dropWhile (\<lambda>x. \<not> sp x) s'))"
      with "1.IH" [OF Cons] show ?thesis by blast
    qed
  qed
qed

lemma split_fields_dropWhile: "split_fields sp (dropWhile sp s) = split_fields sp s"
  by (subst split_fields.simps, subst split_fields.simps) (simp only: dropWhile_idem)

lemma Valid_ascii: "list_all is_ascii s \<Longrightarrow> Valid s"
  by (fastforce simp: Valid_def runes_ascii list_all_iff is_ascii_def RuneError_def)

end
