(* ===== verification/Wire.thy ===== *)
theory Wire
  imports Model Go_Unicode "HOL-Library.Word"
begin

text \<open>
  What the four protocol parsers of \<^verbatim>\<open>internal/capture/dbhook\<close> share: the readings of
  \<^verbatim>\<open>encoding/binary\<close>, \<^verbatim>\<open>encoding/base64\<close>, the interface \<^verbatim>\<open>protocolParser\<close> (a state that is fed
  the chunks of a connection and returns side effects), and what it promises: the effects are
  those of the messages on the wire, however the stream is cut into chunks.
\<close>

unbundle bit_operations_syntax

section \<open>Base 64\<close>

definition base64_char :: "nat \<Rightarrow> char" where
  "base64_char n = ''ABCDEFGHIJKLMNOPQRSTUVWXYZabcdefghijklmnopqrstuvwxyz0123456789+/'' ! n"

fun EncodeToString :: "bytes \<Rightarrow> string" where
  "EncodeToString [] = []"
| "EncodeToString [a] =
     (let x = of_char a * 65536 in [base64_char (x div 262144), base64_char (x div 4096 mod 64), CHR ''='', CHR ''=''])"
| "EncodeToString [a, b] =
     (let x = of_char a * 65536 + of_char b * 256
      in [base64_char (x div 262144), base64_char (x div 4096 mod 64), base64_char (x div 64 mod 64), CHR ''=''])"
| "EncodeToString (a # b # c # bs) =
     (let x = of_char a * 65536 + of_char b * 256 + of_char c
      in base64_char (x div 262144) # base64_char (x div 4096 mod 64) # base64_char (x div 64 mod 64) # base64_char (x mod 64)
           # EncodeToString bs)"

section \<open>Bytes\<close>

definition byte :: "char \<Rightarrow> 'a::len word" where
  "byte c = word_of_nat (of_char c)"

definition le32 :: "bytes \<Rightarrow> 32 word" where
  "le32 b = byte (b ! 0) OR push_bit 8 (byte (b ! 1)) OR push_bit 16 (byte (b ! 2)) OR push_bit 24 (byte (b ! 3))"

definition be32 :: "bytes \<Rightarrow> 32 word" where
  "be32 b = byte (b ! 3) OR push_bit 8 (byte (b ! 2)) OR push_bit 16 (byte (b ! 1)) OR push_bit 24 (byte (b ! 0))"

definition le64 :: "bytes \<Rightarrow> 64 word" where
  "le64 b =
     byte (b ! 0) OR push_bit 8 (byte (b ! 1)) OR push_bit 16 (byte (b ! 2)) OR push_bit 24 (byte (b ! 3)) OR
     push_bit 32 (byte (b ! 4)) OR push_bit 40 (byte (b ! 5)) OR push_bit 48 (byte (b ! 6)) OR push_bit 56 (byte (b ! 7))"

text \<open>The little endian bytes of a number.\<close>

fun le_bytes :: "nat \<Rightarrow> nat \<Rightarrow> bytes" where
  "le_bytes 0 n = []"
| "le_bytes (Suc k) n = char_of (n mod 256) # le_bytes k (n div 256)"

fun le_value :: "bytes \<Rightarrow> nat" where
  "le_value [] = 0"
| "le_value (b # bs) = of_char b + 256 * le_value bs"

lemma length_le_bytes [simp]: "length (le_bytes k n) = k"
  by (induction k arbitrary: n) auto

lemma of_char_less [simp]: "(of_char c :: nat) < 256"
  using of_char_mod_256 [of c, where ?'a = nat] by (metis mod_less_divisor zero_less_numeral)

lemma or_push:
  fixes x y :: nat
  assumes "x < 2 ^ n"
  shows "x OR push_bit n y = x + 2 ^ n * y"
proof -
  have "int (x OR push_bit n y) = concat_bit n (int x) (int y)"
    using assms by (simp add: concat_bit_def of_nat_or_eq of_nat_push_bit flip: of_nat_take_bit)
      (simp add: take_bit_nat_eq_self)
  also have "\<dots> = int (x + 2 ^ n * y)"
    using assms by (simp add: concat_bit_eq push_bit_eq_mult flip: of_nat_take_bit) (simp add: take_bit_nat_eq_self)
  finally show ?thesis by (simp only: of_nat_eq_iff)
qed

lemma or_push_bytes:
  fixes a :: nat
  assumes "a < 256"
  shows "a OR push_bit 8 y = a + 256 * y"
  using or_push [of a 8 y] assms by simp

lemma push_bit_split:
  fixes x y :: "'a::semiring_bit_operations"
  shows "push_bit (8 + n) x OR push_bit (8 + m) y = push_bit 8 (push_bit n x OR push_bit m y)"
  by (simp add: push_bit_or flip: push_bit_push_bit)

lemma le_value_less: "le_value bs < 256 ^ length bs"
proof (induction bs)
  case (Cons b bs)
  then have "of_char b + 256 * le_value bs < 256 + 256 * (256 ^ length bs - 1)"
    using of_char_less [of b] by (intro add_less_le_mono mult_le_mono2) auto
  then show ?case using Cons by (simp add: algebra_simps diff_mult_distrib2)
qed simp

lemma word_le4:
  "(byte a :: 'a::len word) OR push_bit 8 (byte b) OR push_bit 16 (byte c) OR push_bit 24 (byte d) = word_of_nat (le_value [a, b, c, d])"
proof -
  have "(byte a :: 'a word) OR push_bit 8 (byte b) OR push_bit 16 (byte c) OR push_bit 24 (byte d)
      = word_of_nat (of_char a OR push_bit 8 (of_char b OR push_bit 8 (of_char c OR push_bit 8 (of_char d))))"
    by (simp add: byte_def of_nat_or_eq of_nat_push_bit push_bit_or or.assoc)
  also have "\<dots> = word_of_nat (le_value [a, b, c, d])" by (simp add: or_push_bytes)
  finally show ?thesis .
qed

lemma le32_value: "unat (le32 (a # b # c # d # bs)) = le_value [a, b, c, d]"
  using le_value_less [of "[a, b, c, d]"] by (simp add: le32_def word_le4 unat_of_nat del: le_value.simps)

lemma be32_value: "unat (be32 (a # b # c # d # bs)) = le_value [d, c, b, a]"
  using le_value_less [of "[d, c, b, a]"] by (simp add: be32_def word_le4 unat_of_nat del: le_value.simps)

lemma le64_value: "length bs \<ge> 8 \<Longrightarrow> unat (le64 bs) = le_value (take 8 bs)"
proof -
  assume len: "length bs \<ge> 8"
  then have t: "take 8 bs = map ((!) bs) [0, 1, 2, 3, 4, 5, 6, 7]"
    by (intro nth_equalityI) (auto simp: nth_Cons' less_Suc_eq numeral_eq_Suc)
  have "le64 bs = word_of_nat (of_char (bs ! 0) OR push_bit 8 (of_char (bs ! 1) OR push_bit 8 (of_char (bs ! 2) OR push_bit 8 (of_char (bs ! 3)
      OR push_bit 8 (of_char (bs ! 4) OR push_bit 8 (of_char (bs ! 5) OR push_bit 8 (of_char (bs ! 6) OR push_bit 8 (of_char (bs ! 7)))))))))"
    unfolding le64_def byte_def
    by (simp add: of_nat_or_eq of_nat_push_bit push_bit_or or.assoc)
  also have "\<dots> = word_of_nat (le_value (take 8 bs))" unfolding t by (simp add: or_push_bytes)
  finally show ?thesis
    using le_value_less [of "take 8 bs"] len by (simp add: unat_of_nat min_absorb2)
qed

lemma le_value_bytes: "n < 256 ^ k \<Longrightarrow> le_value (le_bytes k n) = n"
proof (induction k arbitrary: n)
  case (Suc k)
  then have "n div 256 < 256 ^ k" by (simp add: less_mult_imp_div_less mult.commute)
  with Suc.IH show ?case by simp
qed simp

section \<open>Parsers\<close>

text \<open>
  A parser turns payloads into effects with the time of day; \<open>now i\<close> is the reading of the clock
  for the \<open>i\<close>-th effect of a call.
\<close>

definition stamp :: "('p \<Rightarrow> int \<Rightarrow> SideEffect) \<Rightarrow> (nat \<Rightarrow> int) \<Rightarrow> 'p list \<Rightarrow> SideEffect list" where
  "stamp mk now ps = map (\<lambda>i. mk (ps ! i) (now i)) [0 ..< length ps]"

text \<open>Feeding the chunks of a connection, one call of \<^verbatim>\<open>Feed\<close> each.\<close>

fun feed_all :: "('s \<Rightarrow> bytes \<Rightarrow> 'p list \<times> 's) \<Rightarrow> 's \<Rightarrow> bytes list \<Rightarrow> 'p list \<times> 's" where
  "feed_all feed s [] = ([], s)"
| "feed_all feed s (c # cs) =
     (let (ps, s') = feed s c; (qs, s'') = feed_all feed s' cs in (ps @ qs, s''))"

text \<open>
  The contract of \<^verbatim>\<open>protocolParser\<close>. The state of a parser is a mode and a buffer. A message
  that is complete in the buffer is consumed and yields its payloads, unless what follows it ends
  the process; an incomplete one is kept.
  Then the payloads of a stream of messages do not depend on how it is cut.
\<close>

locale protocol_parser =
  fixes ok :: "'q \<Rightarrow> 'm \<Rightarrow> bool" and enc :: "'m \<Rightarrow> bytes" and emit :: "'m \<Rightarrow> 'p list" and nxt :: "'q \<Rightarrow> 'm \<Rightarrow> 'q"
    and drain :: "'q \<Rightarrow> bytes \<Rightarrow> 'p list \<times> ('q \<times> bytes)" and live :: "'q \<Rightarrow> bool"
  assumes live_nxt: "ok q m \<Longrightarrow> live (nxt q m)"
    and drain_msg: "ok q m \<Longrightarrow> live (fst (snd (drain (nxt q m) s))) \<Longrightarrow>
      drain q (enc m @ s) = (emit m @ fst (drain (nxt q m) s), snd (drain (nxt q m) s))"
    and drain_part: "ok q m \<Longrightarrow> strict_prefix s (enc m) \<Longrightarrow> drain q s = ([], (q, s))"
    and drain_end: "drain q [] = ([], (q, []))"
begin

fun oks :: "'q \<Rightarrow> 'm list \<Rightarrow> bool" where
  "oks q [] = True"
| "oks q (m # ms) = (ok q m \<and> oks (nxt q m) ms)"

lemma live_foldl: "oks q ms \<Longrightarrow> live q \<Longrightarrow> live (foldl nxt q ms)"
  by (induction ms arbitrary: q) (auto intro: live_nxt)

lemma oks_append: "oks q (ms @ ms') \<longleftrightarrow> oks q ms \<and> oks (foldl nxt q ms) ms'"
  by (induction ms arbitrary: q) auto

lemma drain_prefix:
  "oks q ms \<Longrightarrow> live q \<Longrightarrow> prefix w (concat (map enc ms)) \<Longrightarrow>
   \<exists>ms1 ms2 s. ms = ms1 @ ms2 \<and> w = concat (map enc ms1) @ s
     \<and> drain q w = (concat (map emit ms1), (foldl nxt q ms1, s))
     \<and> (if ms2 = [] then s = [] else strict_prefix s (enc (hd ms2)))"
proof (induction ms arbitrary: q w)
  case Nil
  then show ?case using drain_end by simp
next
  case (Cons m ms)
  show ?case
  proof (cases "strict_prefix w (enc m)")
    case True
    with Cons.prems drain_part [of q m w] show ?thesis
      by (intro exI [of _ "[]"] exI [of _ "m # ms"] exI [of _ w]) simp
  next
    case False
    with Cons.prems obtain v where w: "w = enc m @ v"
      by (auto simp: strict_prefix_def prefix_append)
    with Cons.prems have "oks (nxt q m) ms" "prefix v (concat (map enc ms))" by auto
    from Cons.IH [OF this(1) _ this(2)] Cons.prems live_nxt
    obtain ms1 ms2 s where ms: "ms = ms1 @ ms2" "v = concat (map enc ms1) @ s"
      "drain (nxt q m) v = (concat (map emit ms1), (foldl nxt (nxt q m) ms1, s))"
      "if ms2 = [] then s = [] else strict_prefix s (enc (hd ms2))" by auto
    moreover have "live (foldl nxt (nxt q m) ms1)"
      using Cons.prems ms(1) live_nxt by (intro live_foldl) (auto simp: oks_append)
    ultimately show ?thesis using w Cons.prems drain_msg [of q m v]
      by (intro exI [of _ "m # ms1"] exI [of _ ms2] exI [of _ s]) simp
  qed
qed

lemma feed_stream:
  "oks q ms \<Longrightarrow> live q \<Longrightarrow> s @ concat cs = concat (map enc ms) \<Longrightarrow>
   (if ms = [] then s = [] else strict_prefix s (enc (hd ms))) \<Longrightarrow>
   feed_all (\<lambda>(q, b) d. drain q (b @ d)) (q, s) cs = (concat (map emit ms), (foldl nxt q ms, []))"
proof (induction cs arbitrary: q s ms)
  case Nil
  show ?case
  proof (cases ms)
    case (Cons m ms')
    with Nil show ?thesis by (auto simp: strict_prefix_def prefix_def)
  qed (use Nil in simp)
next
  case (Cons c cs)
  have "prefix (s @ c) (concat (map enc ms))" using Cons.prems(3) by (metis append_assoc concat.simps(2) prefixI)
  from drain_prefix [OF Cons.prems(1,2) this] obtain ms1 ms2 s'
    where ms: "ms = ms1 @ ms2" "s @ c = concat (map enc ms1) @ s'"
      and d: "drain q (s @ c) = (concat (map emit ms1), (foldl nxt q ms1, s'))"
      and s': "if ms2 = [] then s' = [] else strict_prefix s' (enc (hd ms2))" by blast
  have "s' @ concat cs = concat (map enc ms2)"
  proof -
    have "concat (map enc ms1) @ s' @ concat cs = (s @ c) @ concat cs" by (simp only: ms append_assoc)
    also have "\<dots> = concat (map enc ms1) @ concat (map enc ms2)" using Cons.prems(3) by (simp add: ms(1))
    finally show ?thesis by (simp only: same_append_eq)
  qed
  with Cons.IH [of "foldl nxt q ms1" ms2 s'] Cons.prems(1) live_foldl [of q ms1] Cons.prems(2) ms s' d show ?case
    by (simp add: oks_append)
qed

lemma feed_chunks:
  "oks q ms \<Longrightarrow> live q \<Longrightarrow> concat cs = concat (map enc ms) \<Longrightarrow> (\<And>m. m \<in> set ms \<Longrightarrow> enc m \<noteq> []) \<Longrightarrow>
   feed_all (\<lambda>(q, b) d. drain q (b @ d)) (q, []) cs = (concat (map emit ms), (foldl nxt q ms, []))"
proof -
  assume a: "oks q ms" "live q" "concat cs = concat (map enc ms)" and ne: "\<And>m. m \<in> set ms \<Longrightarrow> enc m \<noteq> []"
  have "if ms = [] then [] = [] else strict_prefix [] (enc (hd ms))"
  proof (cases ms)
    case (Cons m ms')
    then show ?thesis using ne [of m] by (cases "enc m") simp_all
  qed simp
  with a show ?thesis using feed_stream [of q ms "[]" cs] by simp
qed

end

section \<open>Calls of \<^verbatim>\<open>Feed\<close>\<close>

fun capture ::
  "((nat \<Rightarrow> int) \<Rightarrow> 's \<Rightarrow> bytes \<Rightarrow> SideEffect list \<times> 's) \<Rightarrow> 's \<Rightarrow> ((nat \<Rightarrow> int) \<times> bytes) list \<Rightarrow> SideEffect list \<times> 's" where
  "capture Feed s [] = ([], s)"
| "capture Feed s ((now, c) # calls) =
     (let (es, s') = Feed now s c; (es', s'') = capture Feed s' calls in (es @ es', s''))"

definition untimed :: "SideEffect \<Rightarrow> SideEffect" where
  "untimed e = e\<lparr>se_Timestamp := 0\<rparr>"

lemma stamp_untimed: "(\<And>p t. untimed (mk p t) = mk p 0) \<Longrightarrow> map untimed (stamp mk now ps) = map (\<lambda>p. mk p 0) ps"
  by (rule nth_equalityI) (simp_all add: stamp_def)

lemma capture_untimed:
  assumes "\<And>now s d. Feed now s d = (stamp mk now (fst (feed s d)), snd (feed s d))" and "\<And>p t. untimed (mk p t) = mk p 0"
  shows "map untimed (fst (capture Feed s calls)) = map (\<lambda>p. mk p 0) (fst (feed_all feed s (map snd calls)))
    \<and> snd (capture Feed s calls) = snd (feed_all feed s (map snd calls))"
  using assms(1)
  by (induction Feed s calls rule: capture.induct)
    (auto simp: Let_def case_prod_beta stamp_untimed [where mk = mk, OF assms(2)])

lemma le_bytes_4: "\<exists>a b c d. le_bytes 4 n = [a, b, c, d]"
proof -
  have "length (le_bytes 4 n) = Suc (Suc (Suc (Suc 0)))" by simp
  then show ?thesis by (auto simp only: length_Suc_conv length_0_conv)
qed

lemma le32_le_bytes: "n < 2 ^ 32 \<Longrightarrow> unat (le32 (le_bytes 4 n @ s)) = n"
proof -
  assume n: "n < 2 ^ 32"
  obtain a b c d where b: "le_bytes 4 n = [a, b, c, d]" using le_bytes_4 by blast
  have "unat (le32 (le_bytes 4 n @ s)) = le_value (le_bytes 4 n)" unfolding b by (simp add: le32_value)
  with n le_value_bytes [of n 4] show ?thesis by simp
qed

lemma be32_be_bytes: "n < 2 ^ 32 \<Longrightarrow> unat (be32 (rev (le_bytes 4 n) @ s)) = n"
proof -
  assume n: "n < 2 ^ 32"
  obtain a b c d where b: "le_bytes 4 n = [a, b, c, d]" using le_bytes_4 by blast
  have "unat (be32 (rev (le_bytes 4 n) @ s)) = le_value (le_bytes 4 n)" unfolding b by (simp add: be32_value)
  with n le_value_bytes [of n 4] show ?thesis by simp
qed

text \<open>A part of a message that reaches past its length field begins with that field.\<close>

lemma strict_prefix_split: "strict_prefix s (h @ p) \<Longrightarrow> length h \<le> length s \<Longrightarrow> \<exists>v. s = h @ v \<and> length v < length p"
proof -
  assume s: "strict_prefix s (h @ p)" and len: "length h \<le> length s"
  then consider "prefix s h" | v where "s = h @ v" "prefix v p"
    by (auto simp: strict_prefix_def prefix_append)
  then show ?thesis
  proof cases
    case 1
    with len have "s = h" by (metis prefix_length_le prefix_order.order_iff_strict prefix_length_less not_less)
    with s show ?thesis by (intro exI [of _ "[]"]) (auto simp: strict_prefix_def)
  next
    case 2
    with s have "strict_prefix v p" by (auto simp: strict_prefix_def)
    with 2 show ?thesis by (auto dest: prefix_length_less)
  qed
qed

lemma feed_all_unit:
  "feed_all (\<lambda>(q, b) d. (fst (f (b @ d)), (), snd (f (b @ d)))) ((), b) cs
     = (fst (feed_all (\<lambda>b d. f (b @ d)) b cs), (), snd (feed_all (\<lambda>b d. f (b @ d)) b cs))"
  by (induction cs arbitrary: b) (simp_all add: Let_def case_prod_beta)

lemma le_bytes_4_eq:
  "le_bytes 4 n = [char_of (n mod 256), char_of (n div 256 mod 256), char_of (n div 256 div 256 mod 256),
     char_of (n div 256 div 256 div 256 mod 256)]"
proof -
  have "le_bytes 4 n = le_bytes (Suc (Suc (Suc (Suc 0)))) n" by (simp only: eval_nat_numeral(2,3) BitM.simps One_nat_def numeral_One)
  then show ?thesis by simp
qed

lemma char_of_0: "char_of (0 :: nat) = CHR 0x00"
  by (simp add: char_of_def)

lemma strict_prefix_append_cases:
  assumes "strict_prefix s (a @ b)"
  obtains "strict_prefix s a" | v where "s = a @ v" "strict_prefix v b"
proof (cases "strict_prefix s a")
  case False
  with assms have "prefix a s" by (auto simp: strict_prefix_def prefix_append)
  then obtain v where v: "s = a @ v" by (auto simp: prefix_def)
  with assms have "strict_prefix v b" by (auto simp: strict_prefix_def)
  with v that(2) show thesis by blast
qed (use that in blast)

end
