(* ===== verification/Sql_Parsers.thy ===== *)
theory Sql_Parsers
  imports Wire
begin

text \<open>
  The MySQL parser (\<^verbatim>\<open>internal/capture/dbhook/mysql.go\<close>) and the PostgreSQL parser
  (\<^verbatim>\<open>postgres.go\<close>): the loops of \<^verbatim>\<open>Feed\<close> over the buffered bytes of the client, and what they
  capture from a stream of client messages.
\<close>

section \<open>MySQL\<close>

definition mysqlComQuery :: char where
  "mysqlComQuery = CHR 0x03"

definition mysqlComStmtPrepare :: char where
  "mysqlComStmtPrepare = CHR 0x16"

definition maxMySQLPacketSize :: nat where
  "maxMySQLPacketSize = 16 * 1024 * 1024"

definition mysql_payloadLen :: "bytes \<Rightarrow> nat" where
  "mysql_payloadLen b = unat ((byte (b ! 0) :: 32 word) OR push_bit 8 (byte (b ! 1)) OR push_bit 16 (byte (b ! 2)))"

text \<open>The loop of \<^verbatim>\<open>Feed\<close>: the captured statements and the rest of the buffer.\<close>

function mysql_loop :: "bytes \<Rightarrow> string list \<times> bytes" where
  "mysql_loop buf =
     (if length buf < 4 then ([], buf)
      else let payloadLen = mysql_payloadLen buf
           in if payloadLen < 1 then mysql_loop (drop 4 buf)
              else if payloadLen > maxMySQLPacketSize then ([], [])
              else let packetLen = 4 + payloadLen
                   in if length buf < packetLen then ([], buf)
                      else let commandByte = buf ! 4;
                               payload = take (packetLen - 5) (drop 5 buf);
                               (queries, rest) = mysql_loop (drop packetLen buf)
                           in (if commandByte = mysqlComQuery \<or> commandByte = mysqlComStmtPrepare
                               then payload # queries else queries, rest))"
  by pat_completeness auto
termination
  by (relation "measure length") auto

declare mysql_loop.simps [simp del]

definition mysql_drain :: "bytes \<Rightarrow> string list \<times> bytes" where
  "mysql_drain buf =
     (let (queries, rest) = mysql_loop buf
      in (queries, if maxMySQLPacketSize < length rest then [] else rest))"

definition mysql_Feed :: "(nat \<Rightarrow> int) \<Rightarrow> bytes \<Rightarrow> bytes \<Rightarrow> SideEffect list \<times> bytes" where
  "mysql_Feed now buf data =
     (let (queries, rest) = mysql_drain (buf @ data)
      in (stamp (NewSQLSideEffect MySQL) now queries, rest))"

text \<open>
  The helper reads the same three bytes; nothing calls it. Its \<^verbatim>\<open>append(data[:3], 0)\<close> writes the
  zero into the array of the caller when there is a fourth byte: the result is the length and
  the bytes of the caller afterwards.
\<close>

definition readMySQLPacketLength :: "bytes \<Rightarrow> nat \<times> bytes" where
  "readMySQLPacketLength data =
     (if length data < 3 then (0, data)
      else (unat (le32 (take 3 data @ [CHR 0x00])), if 3 < length data then data[3 := CHR 0x00] else data))"

section \<open>PostgreSQL\<close>

definition pgMsgQuery :: char where
  "pgMsgQuery = CHR ''Q''"

definition pgMsgParse :: char where
  "pgMsgParse = CHR ''P''"

definition maxPostgresMessageLen :: nat where
  "maxPostgresMessageLen = 16 * 1024 * 1024"

fun extractNullTermString :: "bytes \<Rightarrow> string" where
  "extractNullTermString [] = []"
| "extractNullTermString (b # bs) = (if b = CHR 0x00 then [] else b # extractNullTermString bs)"

text \<open>\<open>None\<close> is the index -1.\<close>

fun nullTermIndex :: "bytes \<Rightarrow> nat option" where
  "nullTermIndex [] = None"
| "nullTermIndex (b # bs) = (if b = CHR 0x00 then Some 0 else map_option Suc (nullTermIndex bs))"

text \<open>The statements that a message of the given type yields.\<close>

definition pg_queries :: "char \<Rightarrow> bytes \<Rightarrow> string list" where
  "pg_queries msgType payload =
     (if msgType = pgMsgQuery then
        (let query = extractNullTermString payload in if query \<noteq> '''' then [query] else [])
      else if msgType = pgMsgParse then
        (case nullTermIndex payload of
           None \<Rightarrow> []
         | Some idx \<Rightarrow>
             if idx + 1 < length payload then
               (let query = extractNullTermString (drop (idx + 1) payload) in if query \<noteq> '''' then [query] else [])
             else [])
      else [])"

function pg_loop :: "bool \<Rightarrow> bytes \<Rightarrow> string list \<times> bool \<times> bytes" where
  "pg_loop startup buf =
     (if startup then
        (if length buf < 4 then ([], startup, buf)
         else let msgLen = unat (be32 buf)
              in if msgLen < 8 \<or> msgLen > maxPostgresMessageLen then ([], False, [])
                 else if length buf < msgLen then ([], startup, buf)
                 else pg_loop False (drop msgLen buf))
      else if length buf < 5 then ([], startup, buf)
      else let msgType = buf ! 0; msgLen = unat (be32 (drop 1 buf))
           in if msgLen < 4 \<or> msgLen > maxPostgresMessageLen then ([], startup, [])
              else let fullLen = 1 + msgLen
                   in if length buf < fullLen then ([], startup, buf)
                      else let payload = take (fullLen - 5) (drop 5 buf);
                               (queries, startup', rest) = pg_loop startup (drop fullLen buf)
                           in (pg_queries msgType payload @ queries, startup', rest))"
  by pat_completeness auto
termination
  by (relation "measure (\<lambda>(st, b). length b)") auto

declare pg_loop.simps [simp del]

definition pg_drain :: "bool \<Rightarrow> bytes \<Rightarrow> string list \<times> bool \<times> bytes" where
  "pg_drain startup buf =
     (let (queries, startup', rest) = pg_loop startup buf
      in (queries, startup', if maxPostgresMessageLen < length rest then [] else rest))"

definition pg_Feed :: "(nat \<Rightarrow> int) \<Rightarrow> bool \<times> bytes \<Rightarrow> bytes \<Rightarrow> SideEffect list \<times> bool \<times> bytes" where
  "pg_Feed now p data =
     (let (queries, p') = pg_drain (fst p) (snd p @ data)
      in (stamp (NewSQLSideEffect Postgres) now queries, p'))"

section \<open>MySQL packets\<close>

text \<open>
  A packet of the client: its sequence number and its payload. The payload is below the size
  from which the parser would drop an incomplete packet.
\<close>

type_synonym mysql_packet = "char \<times> bytes"

definition mysql_ok :: "mysql_packet \<Rightarrow> bool" where
  "mysql_ok m = (length (snd m) + 4 \<le> maxMySQLPacketSize)"

definition mysql_enc :: "mysql_packet \<Rightarrow> bytes" where
  "mysql_enc m = le_bytes 3 (length (snd m)) @ [fst m] @ snd m"

definition mysql_emit :: "mysql_packet \<Rightarrow> string list" where
  "mysql_emit m =
     (case snd m of
        [] \<Rightarrow> []
      | command # query \<Rightarrow> if command = mysqlComQuery \<or> command = mysqlComStmtPrepare then [query] else [])"

lemma le_bytes_3: "\<exists>a b c. le_bytes 3 n = [a, b, c]"
proof -
  have "length (le_bytes 3 n) = Suc (Suc (Suc 0))" by simp
  then show ?thesis by (auto simp only: length_Suc_conv length_0_conv)
qed

lemma mysql_header:
  assumes "n < 2 ^ 24"
  shows "mysql_payloadLen (le_bytes 3 n @ s) = n"
proof -
  obtain a b c where abc: "le_bytes 3 n = [a, b, c]" using le_bytes_3 by blast
  have z: "(byte (CHR 0x00) :: 32 word) = 0" by (simp add: byte_def)
  have "(byte a :: 32 word) OR push_bit 8 (byte b) OR push_bit 16 (byte c) = word_of_nat (le_value [a, b, c, CHR 0x00])"
    using word_le4 [of a b c "CHR 0x00", where 'a = 32] by (simp only: z push_bit_of_0 or.right_neutral)
  moreover have "le_value [a, b, c, CHR 0x00] = n" using le_value_bytes [of n 3] assms abc by simp
  ultimately have "(byte a :: 32 word) OR push_bit 8 (byte b) OR push_bit 16 (byte c) = word_of_nat n" by (simp only:)
  then show ?thesis using assms by (simp add: mysql_payloadLen_def abc unat_of_nat)
qed

lemma mysql_loop_msg:
  assumes "mysql_ok m"
  shows "mysql_loop (mysql_enc m @ s) = (mysql_emit m @ fst (mysql_loop s), snd (mysql_loop s))"
proof -
  obtain q p where m: "m = (q, p)" by fastforce
  define h where "h = le_bytes 3 (length p)"
  have h: "length h = 3" by (simp add: h_def)
  have len: "mysql_payloadLen (h @ q # p @ s) = length p"
    unfolding h_def by (rule mysql_header) (use assms in \<open>simp add: mysql_ok_def m maxMySQLPacketSize_def\<close>)
  have enc: "mysql_enc m @ s = h @ q # p @ s" by (simp add: mysql_enc_def m h_def)
  have max: "\<not> maxMySQLPacketSize < length p" using assms by (simp add: mysql_ok_def m)
  show ?thesis
  proof (cases p)
    case Nil
    then show ?thesis
      unfolding enc by (subst mysql_loop.simps) (use len h in \<open>simp add: mysql_emit_def m\<close>)
  next
    case (Cons c p')
    have "(h @ q # c # p' @ s) ! 4 = c" "drop 5 (h @ q # c # p' @ s) = p' @ s"
      "drop (4 + length p) (h @ q # c # p' @ s) = s"
      using h Cons by (simp_all add: nth_append drop_Cons')
    with len h max Cons show ?thesis
      unfolding enc by (subst mysql_loop.simps) (simp add: Let_def case_prod_beta mysql_emit_def m)
  qed
qed

lemma mysql_loop_part:
  assumes "mysql_ok m" and s: "strict_prefix s (mysql_enc m)"
  shows "mysql_loop s = ([], s) \<and> length s \<le> maxMySQLPacketSize"
proof -
  obtain q p where m: "m = (q, p)" by fastforce
  have "length s < length (mysql_enc m)" using s by (rule prefix_length_less)
  then have len: "length s \<le> maxMySQLPacketSize"
    using assms(1) by (simp add: mysql_ok_def mysql_enc_def)
  show ?thesis
  proof (cases "length s < 4")
    case True
    with len show ?thesis by (subst mysql_loop.simps) simp
  next
    case False
    with s strict_prefix_split [of s "le_bytes 3 (length p) @ [q]" p] obtain v
      where v: "s = le_bytes 3 (length p) @ q # v" "length v < length p"
      by (auto simp: mysql_enc_def m)
    have "mysql_payloadLen s = length p"
      unfolding v(1) by (rule mysql_header) (use assms in \<open>simp add: mysql_ok_def m maxMySQLPacketSize_def\<close>)
    with v len assms(1) show ?thesis
      by (subst mysql_loop.simps) (cases p; simp add: Let_def mysql_ok_def m)
  qed
qed

lemma mysql_loop_end: "mysql_loop [] = ([], [])"
  by (subst mysql_loop.simps) simp

interpretation mysql: protocol_parser "\<lambda>_. mysql_ok" mysql_enc mysql_emit "\<lambda>_ _. ()"
    "\<lambda>_ b. (fst (mysql_drain b), (), snd (mysql_drain b))" "\<lambda>_. True"
proof unfold_locales
  fix m s
  assume ok: "mysql_ok m"
  show "(fst (mysql_drain (mysql_enc m @ s)), (), snd (mysql_drain (mysql_enc m @ s)))
      = (mysql_emit m @ fst (fst (mysql_drain s), (), snd (mysql_drain s)), snd (fst (mysql_drain s), (), snd (mysql_drain s)))"
    by (simp add: mysql_drain_def mysql_loop_msg [OF ok] Let_def case_prod_beta)
next
  fix q m s
  assume "mysql_ok m" "strict_prefix s (mysql_enc m)"
  from mysql_loop_part [OF this] show "(fst (mysql_drain s), (), snd (mysql_drain s)) = ([], q, s)"
    by (simp add: mysql_drain_def)
qed (simp_all add: mysql_drain_def mysql_loop_end)

lemma mysql_oks: "mysql.oks q ms \<longleftrightarrow> list_all mysql_ok ms"
  by (induction ms arbitrary: q) auto

lemma mysql_enc_nonempty: "mysql_enc m \<noteq> []"
  by (simp add: mysql_enc_def)

section \<open>PostgreSQL messages\<close>

text \<open>
  The messages of the client: the startup message, a simple query, the parse message of the
  extended protocol with the name of the statement, its text and the rest, and any other.
\<close>

datatype pg_message =
    PgStartup bytes
  | PgQuery string
  | PgParse string string bytes
  | PgOther char bytes

fun pg_type :: "pg_message \<Rightarrow> bytes" where
  "pg_type (PgStartup b) = []"
| "pg_type (PgQuery q) = [pgMsgQuery]"
| "pg_type (PgParse n q r) = [pgMsgParse]"
| "pg_type (PgOther t p) = [t]"

fun pg_payload :: "pg_message \<Rightarrow> bytes" where
  "pg_payload (PgStartup b) = b"
| "pg_payload (PgQuery q) = q @ [CHR 0x00]"
| "pg_payload (PgParse n q r) = n @ CHR 0x00 # q @ CHR 0x00 # r"
| "pg_payload (PgOther t p) = p"

definition pg_enc :: "pg_message \<Rightarrow> bytes" where
  "pg_enc m = pg_type m @ rev (le_bytes 4 (4 + length (pg_payload m))) @ pg_payload m"

fun pg_emit :: "pg_message \<Rightarrow> string list" where
  "pg_emit (PgQuery q) = (if q = '''' then [] else [q])"
| "pg_emit (PgParse n q r) = (if q = '''' then [] else [q])"
| "pg_emit _ = []"

fun pg_text_ok :: "pg_message \<Rightarrow> bool" where
  "pg_text_ok (PgStartup b) = (4 \<le> length b)"
| "pg_text_ok (PgQuery q) = (CHR 0x00 \<notin> set q)"
| "pg_text_ok (PgParse n q r) = (CHR 0x00 \<notin> set n \<and> CHR 0x00 \<notin> set q)"
| "pg_text_ok (PgOther t p) = (t \<noteq> pgMsgQuery \<and> t \<noteq> pgMsgParse)"

fun is_startup :: "pg_message \<Rightarrow> bool" where
  "is_startup (PgStartup b) = True"
| "is_startup _ = False"

definition pg_ok :: "bool \<Rightarrow> pg_message \<Rightarrow> bool" where
  "pg_ok startup m = (is_startup m = startup \<and> pg_text_ok m \<and> 4 + length (pg_payload m) \<le> maxPostgresMessageLen)"

lemma extractNullTermString_stop: "CHR 0x00 \<notin> set q \<Longrightarrow> extractNullTermString (q @ CHR 0x00 # r) = q"
  by (induction q) auto

lemma nullTermIndex_stop: "CHR 0x00 \<notin> set q \<Longrightarrow> nullTermIndex (q @ CHR 0x00 # r) = Some (length q)"
  by (induction q) auto

lemma pg_queries_emit: "pg_text_ok m \<Longrightarrow> pg_type m = [t] \<Longrightarrow> pg_queries t (pg_payload m) = pg_emit m"
  by (cases m) (auto simp: pg_queries_def pgMsgQuery_def pgMsgParse_def extractNullTermString_stop
      nullTermIndex_stop Let_def)

lemma pg_loop_msg:
  assumes "pg_ok st m"
  shows "pg_loop st (pg_enc m @ s) = (pg_emit m @ fst (pg_loop False s), snd (pg_loop False s))"
proof -
  define n where "n = 4 + length (pg_payload m)"
  define h where "h = rev (le_bytes 4 n)"
  have n: "n \<le> maxPostgresMessageLen" "n < 2 ^ 32"
    using assms by (simp_all add: pg_ok_def n_def maxPostgresMessageLen_def)
  have h: "length h = 4" by (simp add: h_def)
  have len: "unat (be32 (h @ r)) = n" for r unfolding h_def by (rule be32_be_bytes [OF n(2)])
  have enc: "pg_enc m = pg_type m @ h @ pg_payload m" by (simp add: pg_enc_def h_def n_def)
  show ?thesis
  proof (cases "is_startup m")
    case True
    then obtain b where m: "m = PgStartup b" by (cases m) auto
    with True assms have st: "st" and b: "8 \<le> n" by (auto simp: pg_ok_def n_def)
    show ?thesis
      unfolding enc using len h n b m st
      by (subst pg_loop.simps) (simp add: Let_def n_def)
  next
    case False
    then obtain t where t: "pg_type m = [t]" by (cases m) auto
    have st: "\<not> st" using False assms by (simp add: pg_ok_def)
    have q: "pg_queries t (pg_payload m) = pg_emit m" using assms t by (intro pg_queries_emit) (simp_all add: pg_ok_def)
    show ?thesis
      unfolding enc using len h n t st q
      by (subst pg_loop.simps) (simp add: Let_def n_def case_prod_beta drop_Cons')
  qed
qed

lemma pg_loop_part:
  assumes "pg_ok st m" and s: "strict_prefix s (pg_enc m)"
  shows "pg_loop st s = ([], st, s) \<and> length s \<le> maxPostgresMessageLen"
proof -
  define n where "n = 4 + length (pg_payload m)"
  define h where "h = rev (le_bytes 4 n)"
  have n: "n \<le> maxPostgresMessageLen" "n < 2 ^ 32" "4 \<le> n"
    using assms by (simp_all add: pg_ok_def n_def maxPostgresMessageLen_def)
  have h: "length h = 4" by (simp add: h_def)
  have len: "unat (be32 (h @ r)) = n" for r unfolding h_def by (rule be32_be_bytes [OF n(2)])
  have enc: "pg_enc m = pg_type m @ h @ pg_payload m" by (simp add: pg_enc_def h_def n_def)
  have s': "strict_prefix s (pg_type m @ h @ pg_payload m)" using s by (simp only: enc)
  have ls: "length s < length (pg_enc m)" using s by (rule prefix_length_less)
  show ?thesis
  proof (cases "is_startup m")
    case True
    then obtain b where m: "m = PgStartup b" by (cases m) auto
    with True assms have st: "st" "8 \<le> n" by (auto simp: pg_ok_def n_def)
    show ?thesis
    proof (cases "length s < 4")
      case True
      with st n show ?thesis by (subst pg_loop.simps) simp
    next
      case False
      with s' strict_prefix_split [of s h "pg_payload m"] m h obtain v where v: "s = h @ v" "length v < length (pg_payload m)"
        by auto
      with st n len h show ?thesis by (subst pg_loop.simps) (auto simp: n_def Let_def)
    qed
  next
    case False
    then obtain t where t: "pg_type m = [t]" by (cases m) auto
    have st: "\<not> st" using False assms by (simp add: pg_ok_def)
    show ?thesis
    proof (cases "length s < 5")
      case True
      with st n show ?thesis by (subst pg_loop.simps) (simp add: maxPostgresMessageLen_def)
    next
      case False
      with s' strict_prefix_split [of s "t # h" "pg_payload m"] t h obtain v where v: "s = t # h @ v" "length v < length (pg_payload m)"
        by auto
      with st n len h show ?thesis by (subst pg_loop.simps) (auto simp: n_def Let_def)
    qed
  qed
qed

lemma pg_loop_end: "pg_loop st [] = ([], st, [])"
  by (subst pg_loop.simps) simp

interpretation postgres: protocol_parser pg_ok pg_enc pg_emit "\<lambda>_ _. False" pg_drain "\<lambda>_. True"
proof unfold_locales
  fix q m s
  assume ok: "pg_ok q m"
  show "pg_drain q (pg_enc m @ s) = (pg_emit m @ fst (pg_drain False s), snd (pg_drain False s))"
    by (simp add: pg_drain_def pg_loop_msg [OF ok] Let_def case_prod_beta)
next
  fix q m s
  assume "pg_ok q m" "strict_prefix s (pg_enc m)"
  from pg_loop_part [OF this] show "pg_drain q s = ([], q, s)" by (simp add: pg_drain_def)
qed (simp_all add: pg_drain_def pg_loop_end)

lemma pg_oks: "postgres.oks False ms \<longleftrightarrow> list_all (pg_ok False) ms"
  by (induction ms) auto

lemma pg_enc_nonempty: "pg_enc m \<noteq> []"
proof -
  have "length (rev (le_bytes 4 (4 + length (pg_payload m)))) = 4" by simp
  then show ?thesis unfolding pg_enc_def by (metis append_is_Nil_conv list.size(3) zero_neq_numeral)
qed

lemma NewSQLSideEffect_untimed: "untimed (NewSQLSideEffect d q t) = NewSQLSideEffect d q 0"
  by (simp add: untimed_def NewSQLSideEffect_def)

section \<open>Properties\<close>

lemma mysql_stream:
  assumes "list_all mysql_ok ms" and "concat (map snd calls) = concat (map mysql_enc ms)"
  shows "map untimed (fst (capture mysql_Feed [] calls)) = map (\<lambda>q. NewSQLSideEffect MySQL q 0) (concat (map mysql_emit ms))
     \<and> snd (capture mysql_Feed [] calls) = []"
proof -
  have "feed_all (\<lambda>b d. mysql_drain (b @ d)) [] (map snd calls) = (concat (map mysql_emit ms), [])"
    using mysql.feed_chunks [of "()" ms "map snd calls"] assms mysql_enc_nonempty
    by (simp add: mysql_oks feed_all_unit prod_eq_iff)
  moreover have "mysql_Feed now b d = (stamp (NewSQLSideEffect MySQL) now (fst (mysql_drain (b @ d))), snd (mysql_drain (b @ d)))" for now b d
    by (simp add: mysql_Feed_def Let_def case_prod_beta)
  note capture_untimed [where Feed = mysql_Feed and feed = "\<lambda>b d. mysql_drain (b @ d)", OF this NewSQLSideEffect_untimed]
  ultimately show ?thesis by simp
qed

text \<open>
  From a stream of MySQL packets, cut into chunks in any way, the parser captures exactly the
  statements of the query and prepare commands, in order, whatever the clock says, and keeps
  nothing back. The payload of each packet is at most 16 MiB less the four bytes of a header.
\<close>

theorem mysql_capture:
  assumes "list_all mysql_ok ms" and "concat (map snd calls) = concat (map mysql_enc ms)"
  shows "map untimed (fst (capture mysql_Feed [] calls)) = map (\<lambda>q. NewSQLSideEffect MySQL q 0) (concat (map mysql_emit ms))
     \<and> snd (capture mysql_Feed [] calls) = []"
  using assms by (rule mysql_stream)

lemma postgres_stream:
  assumes "pg_ok True m" and "list_all (pg_ok False) ms"
    and "concat (map snd calls) = pg_enc m @ concat (map pg_enc ms)"
  shows "map untimed (fst (capture pg_Feed (True, []) calls)) = map (\<lambda>q. NewSQLSideEffect Postgres q 0) (concat (map pg_emit ms))
     \<and> snd (capture pg_Feed (True, []) calls) = (False, [])"
proof -
  have "pg_emit m = []" using assms(1) by (cases m) (auto simp: pg_ok_def)
  moreover have "foldl (\<lambda>_ _. False) False ms = False" for ms :: "pg_message list" by (induction ms) auto
  ultimately have "feed_all (\<lambda>(q, b) d. pg_drain q (b @ d)) (True, []) (map snd calls) = (concat (map pg_emit ms), (False, []))"
    using postgres.feed_chunks [of True "m # ms" "map snd calls"] assms pg_enc_nonempty by (simp add: pg_oks)
  moreover have "pg_Feed now p d = (stamp (NewSQLSideEffect Postgres) now (fst (pg_drain (fst p) (snd p @ d))), snd (pg_drain (fst p) (snd p @ d)))" for now p d
    by (simp add: pg_Feed_def Let_def case_prod_beta)
  note capture_untimed [where Feed = pg_Feed and feed = "\<lambda>(q, b) d. pg_drain q (b @ d)", simplified case_prod_beta, OF this NewSQLSideEffect_untimed]
  ultimately show ?thesis by (simp add: case_prod_beta)
qed

text \<open>
  From a PostgreSQL connection that begins with the startup message, cut into chunks in any
  way, the parser captures exactly the non-empty texts of the simple queries and of the parse
  messages, in order, and keeps nothing back.
\<close>

theorem postgres_capture:
  assumes "pg_ok True m" and "list_all (pg_ok False) ms"
    and "concat (map snd calls) = pg_enc m @ concat (map pg_enc ms)"
  shows "map untimed (fst (capture pg_Feed (True, []) calls)) = map (\<lambda>q. NewSQLSideEffect Postgres q 0) (concat (map pg_emit ms))
     \<and> snd (capture pg_Feed (True, []) calls) = (False, [])"
  using assms by (rule postgres_stream)

text \<open>
  A client that asks for encryption first sends an \<^verbatim>\<open>SSLRequest\<close>, which has the form of a
  startup message. The parser takes it for the startup message, so it reads the real one, which
  has no type byte, one byte off: the length it sees is the true one times 256, and until that
  many bytes have arrived it captures nothing, whatever the client sends.
\<close>

theorem postgres_ssl_request_swallows:
  assumes "length body + 4 < 65536" and "4 \<le> length body" and "hd body = CHR 0x00"
    and "length (pg_enc (PgStartup body) @ w) \<le> 256 * (length body + 4)"
  defines "ssl_request \<equiv> [CHR 0x00, CHR 0x00, CHR 0x00, CHR 0x08, CHR 0x04, CHR 0xD2, CHR 0x16, CHR 0x2F]"
  shows "pg_Feed now (True, []) (ssl_request @ pg_enc (PgStartup body) @ w) = ([], (False, pg_enc (PgStartup body) @ w))"
proof -
  define n where "n = length body + 4"
  obtain b bs where body: "body = CHR 0x00 # bs" using assms(2,3) by (cases body) auto
  define x0 where "x0 = (char_of (n mod 256) :: char)"
  define x1 where "x1 = (char_of (n div 256 mod 256) :: char)"
  have n: "n div 256 div 256 = 0" "n div 256 mod 256 = n div 256" "8 \<le> n" "n < 65536"
    using assms(1,2) by (simp_all add: n_def)
  have z: "(char_of (0 :: nat) :: char) = CHR 0x00" by (rule char_of_0)
  have enc: "pg_enc (PgStartup body) @ w = [CHR 0x00, CHR 0x00, x1, x0] @ CHR 0x00 # bs @ w"
  proof -
    have "4 + length (pg_payload (PgStartup body)) = n" by (simp add: n_def)
    then have "pg_enc (PgStartup body) @ w = rev (le_bytes 4 n) @ body @ w" unfolding pg_enc_def by simp
    with n z show ?thesis by (simp add: body x0_def x1_def le_bytes_4_eq)
  qed
  have "le_value [CHR 0x00, x0, x1, CHR 0x00] = 256 * n"
  proof -
    have "of_char x0 = n mod 256" "of_char x1 = n div 256" using n by (simp_all add: x0_def x1_def)
    then show ?thesis by simp
  qed
  then have len: "unat (be32 (CHR 0x00 # x1 # x0 # CHR 0x00 # r)) = 256 * n" for r by (simp only: be32_value)
  have ssl: "unat (be32 (ssl_request @ r)) = 8" for r
    unfolding ssl_request_def append_Cons be32_value by simp
  have "pg_loop False (pg_enc (PgStartup body) @ w) = ([], False, pg_enc (PgStartup body) @ w)"
    unfolding enc by (subst pg_loop.simps)
      (use n len assms(4) enc in \<open>simp add: Let_def maxPostgresMessageLen_def n_def\<close>)
  then have "pg_loop True (ssl_request @ pg_enc (PgStartup body) @ w) = ([], False, pg_enc (PgStartup body) @ w)"
    by (subst pg_loop.simps) (simp add: Let_def ssl maxPostgresMessageLen_def, simp add: ssl_request_def)
  moreover have "length (pg_enc (PgStartup body) @ w) \<le> maxPostgresMessageLen"
    using assms(1,4) by (simp add: maxPostgresMessageLen_def)
  ultimately show ?thesis by (simp add: pg_Feed_def pg_drain_def stamp_def)
qed

section \<open>Instances\<close>

theorem mysql_capture_witness:
  "map untimed (fst (capture mysql_Feed []
      [(\<lambda>i. 7, take 3 (mysql_enc (CHR 0x00, CHR 0x03 # ''SELECT 1''))), (\<lambda>i. 9, drop 3 (mysql_enc (CHR 0x00, CHR 0x03 # ''SELECT 1'')))]))
   = [NewSQLSideEffect MySQL ''SELECT 1'' 0]"
  using mysql_capture [of "[(CHR 0x00, CHR 0x03 # ''SELECT 1'')]"
      "[(\<lambda>i. 7, take 3 (mysql_enc (CHR 0x00, CHR 0x03 # ''SELECT 1''))), (\<lambda>i. 9, drop 3 (mysql_enc (CHR 0x00, CHR 0x03 # ''SELECT 1'')))]"]
  by (simp add: mysql_ok_def maxMySQLPacketSize_def mysql_emit_def mysqlComQuery_def del: capture.simps)

theorem postgres_capture_witness:
  "map untimed (fst (capture pg_Feed (True, [])
      [(\<lambda>i. 7, pg_enc (PgStartup ''user'')), (\<lambda>i. 9, pg_enc (PgQuery ''SELECT 1'') @ pg_enc (PgParse ''s1'' ''SELECT 2'' []))]))
   = [NewSQLSideEffect Postgres ''SELECT 1'' 0, NewSQLSideEffect Postgres ''SELECT 2'' 0]"
  using postgres_capture [of "PgStartup ''user''" "[PgQuery ''SELECT 1'', PgParse ''s1'' ''SELECT 2'' []]"
      "[(\<lambda>i. 7, pg_enc (PgStartup ''user'')), (\<lambda>i. 9, pg_enc (PgQuery ''SELECT 1'') @ pg_enc (PgParse ''s1'' ''SELECT 2'' []))]"]
  by (simp add: pg_ok_def maxPostgresMessageLen_def del: capture.simps)

theorem postgres_ssl_request_swallows_witness:
  "fst (pg_Feed (\<lambda>i. 7) (True, [])
     ([CHR 0x00, CHR 0x00, CHR 0x00, CHR 0x08, CHR 0x04, CHR 0xD2, CHR 0x16, CHR 0x2F]
       @ pg_enc (PgStartup [CHR 0x00, CHR 0x03, CHR 0x00, CHR 0x00]) @ pg_enc (PgQuery ''SELECT 1''))) = []"
  using postgres_ssl_request_swallows [of "[CHR 0x00, CHR 0x03, CHR 0x00, CHR 0x00]" "pg_enc (PgQuery ''SELECT 1'')" "\<lambda>i. 7"]
  by (simp add: pg_enc_def)

end
