(* ===== verification/Redis_Parser.thy ===== *)
theory Redis_Parser
  imports Wire Go_Strings
begin

text \<open>
  The Redis parser (\<^verbatim>\<open>internal/capture/dbhook/redis.go\<close>): arrays of bulk strings and inline
  commands, the command that a list of parts stands for, and the redaction of secrets. An index
  out of range and a slice that cannot be allocated panic; as no caller recovers, a panic ends
  the process, and a parser whose process has ended returns nothing any more.
\<close>

section \<open>Parsing\<close>

definition crlf :: bytes where
  "crlf = [CHR 0x0D, CHR 0x0A]"

text \<open>The parts, the bytes consumed, whether the command is complete, and whether it is valid.\<close>

datatype redis_parse = Panic | Parsed "bytes list" nat bool bool

text \<open>The arithmetic of \<^verbatim>\<open>int\<close> on a 64-bit platform, and the longest \<^verbatim>\<open>[][]byte\<close> there.\<close>

definition wrap64 :: "int \<Rightarrow> int" where
  "wrap64 i = (i + 2 ^ 63) mod 2 ^ 64 - 2 ^ 63"

definition max_parts :: int where
  "max_parts = 2 ^ 48 div 24"

text \<open>The loop over the bulk strings of an array, with \<open>n\<close> of them to go.\<close>

fun parse_parts :: "bytes \<Rightarrow> nat \<Rightarrow> nat \<Rightarrow> bytes list \<Rightarrow> redis_parse" where
  "parse_parts data pos 0 parts = Parsed parts pos True True"
| "parse_parts data pos (Suc n) parts =
     (if length data \<le> pos then Parsed [] 0 False True
      else if data ! pos \<noteq> CHR ''$'' then Parsed [] (length data) True False
      else case Index (drop pos data) crlf of
             None \<Rightarrow> Parsed [] 0 False True
           | Some endRel \<Rightarrow>
               (case Atoi (take (endRel - 1) (drop (pos + 1) data)) of
                  None \<Rightarrow> Parsed [] (length data) True False
                | Some bulkLen \<Rightarrow>
                    if bulkLen < 0 then Parsed [] (length data) True False
                    else let pos = pos + endRel + 2;
                             idx = wrap64 (int pos + bulkLen)
                         in if int (length data) < wrap64 (int pos + bulkLen + 2) then Parsed [] 0 False True
                            else if idx < 0 \<or> int (length data) \<le> idx then Panic
                            else if data ! nat idx \<noteq> CHR 0x0D \<or> data ! (nat idx + 1) \<noteq> CHR 0x0A
                            then Parsed [] (length data) True False
                            else parse_parts data (pos + nat bulkLen + 2) n
                                   (parts @ [take (nat bulkLen) (drop pos data)])))"

definition parseRedisArrayCommand :: "bytes \<Rightarrow> redis_parse" where
  "parseRedisArrayCommand data =
     (case Index data crlf of
        None \<Rightarrow> Parsed [] 0 False True
      | Some lineEnd \<Rightarrow>
          (case Atoi (take (lineEnd - 1) (drop 1 data)) of
             None \<Rightarrow> Parsed [] (lineEnd + 2) True False
           | Some num \<Rightarrow>
               if num \<le> 0 then Parsed [] (lineEnd + 2) True False
               else if max_parts < num then Panic
               else parse_parts data (lineEnd + 2) (nat num) []))"

definition parseRedisInlineCommand :: "bytes \<Rightarrow> redis_parse" where
  "parseRedisInlineCommand data =
     (case Index data crlf of
        None \<Rightarrow> Parsed [] 0 False True
      | Some lineEnd \<Rightarrow>
          (let line = TrimSpace (take lineEnd data)
           in if line = '''' then Parsed [] (lineEnd + 2) True False
              else Parsed (Fields line) (lineEnd + 2) True True))"

definition parseRedisCommand :: "bytes \<Rightarrow> redis_parse" where
  "parseRedisCommand data =
     (case data of
        [] \<Rightarrow> Parsed [] 0 False True
      | c # _ \<Rightarrow> if c = CHR ''*'' then parseRedisArrayCommand data else parseRedisInlineCommand data)"

section \<open>Commands\<close>

record redisCommand =
  rc_Command :: string
  rc_Key :: string
  rc_Args :: "string list"

definition encodeRedisArg :: "bytes \<Rightarrow> string" where
  "encodeRedisArg arg = (if Valid arg then arg else ''base64:'' @ EncodeToString arg)"

definition isACLSecretToken :: "string \<Rightarrow> bool" where
  "isACLSecretToken token = (HasPrefix token ''>'' \<or> HasPrefix token ''<'' \<or> HasPrefix token ''#'')"

text \<open>The case table of \<^verbatim>\<open>strings.ToLower\<close> beyond ASCII is the argument \<open>low\<close>.\<close>

definition isSensitiveRedisConfigName :: "(nat \<Rightarrow> nat) \<Rightarrow> string \<Rightarrow> bool" where
  "isSensitiveRedisConfigName low name = (ToLower low name = ''requirepass'' \<or> ToLower low name = ''masterauth'')"

definition redacted :: string where
  "redacted = ''<redacted>''"

text \<open>The loop over the arguments of HELLO, from index \<open>i\<close> for \<open>n\<close> iterations.\<close>

definition hello_step :: "nat \<Rightarrow> string list \<Rightarrow> string list" where
  "hello_step i out =
     (if EqualFold (out ! i) ''AUTH'' then
        (let out = (if i + 1 < length out then out[i + 1 := redacted] else out)
         in if i + 2 < length out then out[i + 2 := redacted] else out)
      else out)"

fun redact_hello :: "nat \<Rightarrow> nat \<Rightarrow> string list \<Rightarrow> string list" where
  "redact_hello i 0 out = out"
| "redact_hello i (Suc n) out = redact_hello (Suc i) n (hello_step i out)"

definition redactRedisArgs :: "(nat \<Rightarrow> nat) \<Rightarrow> string \<Rightarrow> string list \<Rightarrow> string list" where
  "redactRedisArgs low command args =
     (if command = ''AUTH'' then map (\<lambda>_. redacted) args
      else if command = ''HELLO'' then redact_hello 0 (length args) args
      else if command = ''ACL'' then
        (if 2 \<le> length args \<and> EqualFold (args ! 0) ''SETUSER''
         then take 2 args @ map (\<lambda>a. if isACLSecretToken a then redacted else a) (drop 2 args)
         else args)
      else if command = ''CONFIG'' then
        (if 3 \<le> length args \<and> EqualFold (args ! 0) ''SET'' \<and> isSensitiveRedisConfigName low (args ! 1)
         then args[2 := redacted] else args)
      else args)"

definition keyless_commands :: "string list" where
  "keyless_commands =
     [''ACL'', ''AUTH'', ''CLIENT'', ''COMMAND'', ''CONFIG'', ''DBSIZE'', ''DISCARD'', ''EXEC'', ''FLUSHALL'', ''FLUSHDB'',
      ''HELLO'', ''INFO'', ''MULTI'', ''PING'', ''PSUBSCRIBE'', ''PUBLISH'', ''PUNSUBSCRIBE'', ''QUIT'', ''SELECT'',
      ''SUBSCRIBE'', ''UNSUBSCRIBE'', ''UNWATCH'']"

definition redisPrimaryKey :: "string \<Rightarrow> string list \<Rightarrow> string" where
  "redisPrimaryKey command args =
     (case args of
        [] \<Rightarrow> ''''
      | a # _ \<Rightarrow> if command \<in> set keyless_commands then '''' else a)"

text \<open>\<open>None\<close> is an invalid command.\<close>

definition buildRedisCommand :: "(nat \<Rightarrow> nat) \<Rightarrow> (nat \<Rightarrow> nat) \<Rightarrow> bytes list \<Rightarrow> redisCommand option" where
  "buildRedisCommand up low parts =
     (case parts of
        [] \<Rightarrow> None
      | name # rest \<Rightarrow>
          if \<not> Valid name then None
          else let command = ToUpper up (TrimSpace name)
               in if command = '''' then None
                  else let args = redactRedisArgs low command (map encodeRedisArg rest)
                       in Some \<lparr>rc_Command = command, rc_Key = redisPrimaryKey command args, rc_Args = args\<rparr>)"

section \<open>The parser\<close>

text \<open>
  The state is whether the process is alive, and the buffer. The loop of \<^verbatim>\<open>feed\<close> ends by a panic
  (\<open>None\<close>) or with the commands and the rest of the buffer.
\<close>

function redis_loop :: "(nat \<Rightarrow> nat) \<Rightarrow> (nat \<Rightarrow> nat) \<Rightarrow> bytes \<Rightarrow> (redisCommand list \<times> bytes) option" where
  "redis_loop up low buf =
     (if buf = [] then Some ([], buf)
      else case parseRedisCommand buf of
             Panic \<Rightarrow> None
           | Parsed parts consumed whole ok \<Rightarrow>
               if \<not> whole then Some ([], buf)
               else if consumed = 0 then Some ([], [])
               else case redis_loop up low (drop consumed buf) of
                      None \<Rightarrow> None
                    | Some (commands, rest) \<Rightarrow>
                        (case (if ok then buildRedisCommand up low parts else None) of
                           Some cmd \<Rightarrow> Some (cmd # commands, rest)
                         | None \<Rightarrow> Some (commands, rest)))"
  by pat_completeness auto
termination
  by (relation "measure (\<lambda>(up, low, b). length b)") auto

declare redis_loop.simps [simp del]

definition redis_drain :: "(nat \<Rightarrow> nat) \<Rightarrow> (nat \<Rightarrow> nat) \<Rightarrow> bool \<Rightarrow> bytes \<Rightarrow> redisCommand list \<times> bool \<times> bytes" where
  "redis_drain up low alive buf =
     (if \<not> alive then ([], False, [])
      else case redis_loop up low buf of
             None \<Rightarrow> ([], False, [])
           | Some (commands, rest) \<Rightarrow> (commands, True, if 1024 * 1024 < length rest then [] else rest))"

definition redis_effect :: "redisCommand \<Rightarrow> int \<Rightarrow> SideEffect" where
  "redis_effect cmd now = NewRedisSideEffect (rc_Command cmd) (rc_Key cmd) (rc_Args cmd) now"

definition redis_Feed ::
  "(nat \<Rightarrow> nat) \<Rightarrow> (nat \<Rightarrow> nat) \<Rightarrow> (nat \<Rightarrow> int) \<Rightarrow> bool \<times> bytes \<Rightarrow> bytes \<Rightarrow> SideEffect list \<times> bool \<times> bytes" where
  "redis_Feed up low now p data =
     (let (commands, p') = redis_drain up low (fst p) (snd p @ data)
      in (stamp redis_effect now commands, p'))"

section \<open>The encoding of commands\<close>

definition bulk :: "bytes \<Rightarrow> bytes" where
  "bulk p = ''$'' @ nat_str (length p) @ crlf @ p @ crlf"

definition redis_enc :: "bytes list \<Rightarrow> bytes" where
  "redis_enc parts = ''*'' @ nat_str (length parts) @ crlf @ concat (map bulk parts)"

text \<open>A command of at least one part that fits the buffer of the parser.\<close>

definition redis_ok :: "bytes list \<Rightarrow> bool" where
  "redis_ok parts = (parts \<noteq> [] \<and> length (redis_enc parts) \<le> 1024 * 1024)"

definition redis_emit :: "(nat \<Rightarrow> nat) \<Rightarrow> (nat \<Rightarrow> nat) \<Rightarrow> bytes list \<Rightarrow> redisCommand list" where
  "redis_emit up low parts = (case buildRedisCommand up low parts of None \<Rightarrow> [] | Some cmd \<Rightarrow> [cmd])"

lemma Index_crlf_None: "CHR 0x0A \<notin> set s \<Longrightarrow> Index s crlf = None"
  unfolding Index_None_iff Contains_append by (auto simp: crlf_def)

lemma Index_crlf: "CHR 0x0D \<notin> set a \<Longrightarrow> Index (a @ crlf @ r) crlf = Some (length a)"
proof (rule Index_append_Some)
  fix j
  assume "CHR 0x0D \<notin> set a" "j < length a"
  then have "hd (drop j (a @ crlf @ r)) \<noteq> CHR 0x0D" by (metis append_eq_conv_conj drop_append hd_append2 hd_drop_conv_nth length_append nth_append nth_mem trans_less_add1 drop_eq_Nil not_less)
  then show "\<not> prefix crlf (drop j (a @ crlf @ r))" by (auto simp: crlf_def prefix_def)
qed

lemma nat_str_no_crlf: "CHR 0x0D \<notin> set (nat_str n)" "CHR 0x0A \<notin> set (nat_str n)"
  by (simp_all add: nat_str_no_char is_digit_def)

lemma wrap64_small: "- (2 ^ 63) \<le> i \<Longrightarrow> i < 2 ^ 63 \<Longrightarrow> wrap64 i = i"
  by (simp add: wrap64_def)

lemma length_crlf [simp]: "length crlf = 2"
  by (simp add: crlf_def)

text \<open>One bulk string at the position of the loop.\<close>

lemma parse_parts_bulk:
  assumes at: "drop pos data = bulk p @ s" and small: "pos + length (bulk p) < 2 ^ 62"
  shows "parse_parts data pos (Suc n) parts = parse_parts data (pos + length (bulk p)) n (parts @ [p])"
proof -
  let ?h = "''$'' @ nat_str (length p)"
  have pos: "pos < length data" using at by (metis append_is_Nil_conv bulk_def drop_eq_Nil not_Cons_self2 not_le_imp_less append_Cons)
  have d: "drop pos data = ?h @ crlf @ p @ crlf @ s" using at by (simp add: bulk_def)
  have len: "length data = pos + length (bulk p) + length s"
    using pos at by (metis add.assoc le_add_diff_inverse length_append length_drop less_imp_le)
  have lb: "length (bulk p) = length (nat_str (length p)) + length p + 5" by (simp add: bulk_def)
  have first: "data ! pos = CHR ''$''"
    using d pos by (metis append_Cons append_Nil hd_drop_conv_nth list.sel(1))
  have idx: "Index (drop pos data) crlf = Some (Suc (length (nat_str (length p))))"
    unfolding d using Index_crlf [of ?h "p @ crlf @ s"] nat_str_no_crlf(1) by simp
  have num: "take (Suc (length (nat_str (length p))) - 1) (drop (pos + 1) data) = nat_str (length p)"
  proof -
    have "drop (pos + 1) data = drop 1 (drop pos data)" by (simp only: drop_drop add.commute)
    then show ?thesis unfolding d by simp
  qed
  define q where "q = pos + Suc (length (nat_str (length p))) + 2"
  have dq: "drop q data = p @ crlf @ s"
  proof -
    have "drop q data = drop (Suc (length (nat_str (length p))) + 2) (drop pos data)" by (simp add: q_def add.commute)
    then show ?thesis unfolding d by simp
  qed
  have "int (length p) < 2 ^ 63" using len lb small by simp
  then have atoi: "Atoi (nat_str (length p)) = Some (int (length p))" by (rule Atoi_nat_str)
  have w: "wrap64 (int q + int (length p)) = int (q + length p)" "wrap64 (int q + int (length p) + 2) = int (q + length p + 2)"
    using len lb small by (simp_all add: wrap64_small q_def)
  have "data ! (q + length p) = CHR 0x0D" "data ! (q + length p + 1) = CHR 0x0A"
    using dq len lb q_def nth_drop [of q data "length p"] nth_drop [of q data "length p + 1"]
    by (simp_all add: nth_append crlf_def)
  moreover have "q + length p + 2 = pos + length (bulk p)" using lb by (simp add: q_def)
  moreover have "take (length p) (drop q data) = p" by (simp add: dq)
  moreover have "q + length p + 2 \<le> length data" using len lb by (simp add: q_def)
  ultimately show ?thesis
    using pos first
    by (simp only: parse_parts.simps(2) idx num atoi option.case Let_def w flip: q_def)
      (simp add: add.assoc [symmetric] nat_int_add)
qed

lemma parse_parts_all:
  "drop pos data = concat (map bulk ps) @ s \<Longrightarrow> pos + length (concat (map bulk ps)) < 2 ^ 62 \<Longrightarrow>
   parse_parts data pos (length ps) acc = Parsed (acc @ ps) (pos + length (concat (map bulk ps))) True True"
proof (induction ps arbitrary: pos acc)
  case (Cons p ps)
  have "drop (pos + length (bulk p)) data = drop (length (bulk p)) (drop pos data)" by (simp add: add.commute)
  then have "drop (pos + length (bulk p)) data = concat (map bulk ps) @ s" using Cons.prems(1) by simp
  with Cons parse_parts_bulk [of pos data p "concat (map bulk ps) @ s" "length ps" acc] show ?case by simp
qed simp

lemma prefix_crlf_None: "CHR 0x0A \<notin> set h \<Longrightarrow> strict_prefix s (h @ crlf) \<Longrightarrow> Index s crlf = None"
proof (rule Index_crlf_None)
  assume h: "CHR 0x0A \<notin> set h" and "strict_prefix s (h @ crlf)"
  then have "prefix s (butlast (h @ crlf))" by (metis prefix_order.less_le_not_le append_butlast_last_id prefix_snoc self_append_conv2 strict_prefix_simps(1) strict_prefix_def)
  then have "set s \<subseteq> set (h @ [CHR 0x0D])" by (auto simp: crlf_def butlast_append dest: set_mono_prefix)
  with h show "CHR 0x0A \<notin> set s" by auto
qed

lemma parse_parts_part1:
  assumes at: "drop pos data = s" and s: "strict_prefix s (bulk p)" and small: "length data < 2 ^ 62" "length p < 2 ^ 61"
  shows "parse_parts data pos (Suc n) acc = Parsed [] 0 False True"
proof (cases "s = []")
  case True
  with at show ?thesis by simp
next
  case False
  with at have pos: "pos < length data" by (metis drop_all not_le)
  let ?h = "''$'' @ nat_str (length p)"
  have bulk: "bulk p = (?h @ crlf) @ p @ crlf" by (simp add: bulk_def)
  have first: "data ! pos = CHR ''$''"
    using at s False pos by (cases s) (auto simp: bulk_def strict_prefix_def hd_drop_conv_nth [symmetric])
  show ?thesis
  proof (cases "length s < length (?h @ crlf)")
    case True
    moreover have "prefix s (?h @ crlf)"
    proof (rule prefix_length_prefix)
      show "prefix s ((?h @ crlf) @ p @ crlf)" using s unfolding bulk strict_prefix_def by (rule conjunct1)
      show "prefix (?h @ crlf) ((?h @ crlf) @ p @ crlf)" by (rule prefixI) (rule refl)
    qed (use True in simp)
    ultimately have "strict_prefix s (?h @ crlf)" by (auto simp: strict_prefix_def)
    then have "Index s crlf = None"
      by (rule prefix_crlf_None [rotated]) (use nat_str_no_crlf(2) in simp)
    with pos first at show ?thesis by simp
  next
    case False
    with s strict_prefix_split [of s "?h @ crlf" "p @ crlf"] obtain v
      where v: "s = (?h @ crlf) @ v" "length v < length p + 2" unfolding bulk by auto
    have idx: "Index (drop pos data) crlf = Some (Suc (length (nat_str (length p))))"
      unfolding at v using Index_crlf [of ?h v] nat_str_no_crlf(1) by simp
    have num: "take (Suc (length (nat_str (length p))) - 1) (drop (pos + 1) data) = nat_str (length p)"
    proof -
      have "drop (pos + 1) data = drop 1 (drop pos data)" by (simp only: drop_drop add.commute)
      then show ?thesis unfolding at v by simp
    qed
    have atoi: "Atoi (nat_str (length p)) = Some (int (length p))" using small by (intro Atoi_nat_str) simp
    define q where "q = pos + Suc (length (nat_str (length p))) + 2"
    have len: "length data = q + length v"
    proof -
      have "length data = pos + length s" using pos at by (metis le_add_diff_inverse length_drop less_imp_le)
      then show ?thesis by (simp add: v(1) q_def)
    qed
    have "q + length p + 2 < 2 ^ 63" using len small by simp
    then have "int (q + length p + 2) < 2 ^ 63" by (metis of_nat_less_iff of_nat_numeral of_nat_power)
    then have w: "wrap64 (int q + int (length p) + 2) = int (q + length p + 2)"
      using wrap64_small [of "int (q + length p + 2)"] by (simp add: ac_simps)
    show ?thesis
      using pos first
      by (simp only: parse_parts.simps(2) idx num atoi option.case Let_def w flip: q_def) (use len v in simp)
  qed
qed

lemma parse_parts_part:
  "drop pos data = s \<Longrightarrow> strict_prefix s (concat (map bulk ps)) \<Longrightarrow> length data < 2 ^ 62 \<Longrightarrow>
   (\<And>p. p \<in> set ps \<Longrightarrow> length p < 2 ^ 61) \<Longrightarrow> parse_parts data pos (length ps) acc = Parsed [] 0 False True"
proof (induction ps arbitrary: pos s acc)
  case (Cons p ps)
  show ?case
  proof (cases "strict_prefix s (bulk p)")
    case True
    with Cons.prems parse_parts_part1 [of pos data s p "length ps" acc] show ?thesis by simp
  next
    case False
    with Cons.prems(2) obtain v where v: "s = bulk p @ v" "strict_prefix v (concat (map bulk ps))"
      by (auto elim: strict_prefix_append_cases)
    have "drop (pos + length (bulk p)) data = drop (length (bulk p)) (drop pos data)" by (simp add: add.commute)
    then have "drop (pos + length (bulk p)) data = v" using Cons.prems(1) v by simp
    moreover have "pos + length (bulk p) \<le> length data"
      using Cons.prems(1) v(1) by (cases "pos \<le> length data") (auto simp: bulk_def dest: arg_cong [of _ _ length])
    then have len: "pos + length (bulk p) < 2 ^ 62" using Cons.prems(3) by simp
    ultimately have "drop (pos + length (bulk p)) data = v" by simp
    with Cons v len parse_parts_bulk [of pos data p v "length ps" acc] show ?thesis by simp
  qed
qed simp

lemma redis_enc_head: "redis_enc ps = (''*'' @ nat_str (length ps)) @ crlf @ concat (map bulk ps)"
  by (simp add: redis_enc_def)

lemma redis_enc_drop: "drop (length (nat_str n) + 3) (''*'' @ nat_str n @ crlf @ v) = v"
  by (simp add: crlf_def numeral_3_eq_3)

lemma bulk_length: "p \<in> set ps \<Longrightarrow> length p < length (concat (map bulk ps))"
proof (induction ps)
  case (Cons q ps)
  have "length p < length (bulk p)" by (simp add: bulk_def)
  with Cons show ?case by auto
qed simp

lemma length_parts: "length ps \<le> length (concat (map bulk ps))"
proof (induction ps)
  case (Cons p ps)
  have "1 \<le> length (bulk p)" by (simp add: bulk_def)
  with Cons show ?case by simp
qed simp

lemma redis_header:
  assumes "ps \<noteq> []" and "int (length ps) \<le> max_parts"
  shows "parseRedisArrayCommand (redis_enc ps @ s)
           = parse_parts (redis_enc ps @ s) (length (nat_str (length ps)) + 3) (length ps) []"
    and "parseRedisArrayCommand ((''*'' @ nat_str (length ps)) @ crlf @ v)
           = parse_parts ((''*'' @ nat_str (length ps)) @ crlf @ v) (length (nat_str (length ps)) + 3) (length ps) []"
proof -
  have *: "parseRedisArrayCommand ((''*'' @ nat_str (length ps)) @ crlf @ v)
      = parse_parts ((''*'' @ nat_str (length ps)) @ crlf @ v) (length (nat_str (length ps)) + 3) (length ps) []" for v
  proof -
    have idx: "Index ((''*'' @ nat_str (length ps)) @ crlf @ v) crlf = Some (length (''*'' @ nat_str (length ps)))"
      by (rule Index_crlf) (use nat_str_no_crlf(1) in simp)
    have "int (length ps) < 2 ^ 63" using assms(2) by (simp add: max_parts_def)
    then have "Atoi (nat_str (length ps)) = Some (int (length ps))" by (rule Atoi_nat_str)
    with idx assms show ?thesis unfolding parseRedisArrayCommand_def by (simp add: numeral_3_eq_3)
  qed
  from * show "parseRedisArrayCommand ((''*'' @ nat_str (length ps)) @ crlf @ v)
      = parse_parts ((''*'' @ nat_str (length ps)) @ crlf @ v) (length (nat_str (length ps)) + 3) (length ps) []" .
  show "parseRedisArrayCommand (redis_enc ps @ s)
      = parse_parts (redis_enc ps @ s) (length (nat_str (length ps)) + 3) (length ps) []"
    using * [of "concat (map bulk ps) @ s"] by (simp add: redis_enc_head)
qed

lemma redis_ok_small: "redis_ok ps \<Longrightarrow> ps \<noteq> [] \<and> int (length ps) \<le> max_parts \<and> (\<forall>p\<in>set ps. length p < 2 ^ 61)"
proof -
  assume ok: "redis_ok ps"
  then have "length (concat (map bulk ps)) \<le> 1024 * 1024" by (simp add: redis_ok_def redis_enc_def)
  with length_parts [of ps] bulk_length [of _ ps] ok show ?thesis
    by (fastforce simp: redis_ok_def max_parts_def)
qed

lemma parse_redis_msg:
  assumes ok: "redis_ok ps"
  shows "parseRedisCommand (redis_enc ps @ s) = Parsed ps (length (redis_enc ps)) True True"
proof -
  have "drop (length (nat_str (length ps)) + 3) (redis_enc ps @ s) = concat (map bulk ps) @ s"
    using redis_enc_drop [of "length ps" "concat (map bulk ps) @ s"] by (simp add: redis_enc_def)
  moreover have "length (nat_str (length ps)) + 3 + length (concat (map bulk ps)) < 2 ^ 62"
    using ok by (simp add: redis_ok_def redis_enc_def)
  ultimately have "parse_parts (redis_enc ps @ s) (length (nat_str (length ps)) + 3) (length ps) []
      = Parsed ([] @ ps) (length (nat_str (length ps)) + 3 + length (concat (map bulk ps))) True True"
    by (rule parse_parts_all)
  with redis_header(1) [of ps s] redis_ok_small [OF ok]
  have "parseRedisArrayCommand (redis_enc ps @ s) = Parsed ps (length (redis_enc ps)) True True"
    by (simp add: redis_enc_def)
  then show ?thesis by (simp add: parseRedisCommand_def redis_enc_def)
qed

lemma parse_redis_part:
  assumes ok: "redis_ok ps" and s: "strict_prefix s (redis_enc ps)" and "s \<noteq> []"
  shows "parseRedisCommand s = Parsed [] 0 False True"
proof -
  let ?h = "''*'' @ nat_str (length ps)"
  have small: "length s < 2 ^ 62" using prefix_length_less [OF s] ok by (simp add: redis_ok_def)
  have hd: "hd s = CHR ''*''" using s \<open>s \<noteq> []\<close> by (cases s) (auto simp: redis_enc_def strict_prefix_def)
  have "parseRedisArrayCommand s = Parsed [] 0 False True"
  proof -
    have "strict_prefix s ((?h @ crlf) @ concat (map bulk ps))" using s by (simp add: redis_enc_def)
    then show ?thesis
    proof (cases rule: strict_prefix_append_cases)
      case 1
      then have "Index s crlf = None" by (rule prefix_crlf_None [rotated]) (use nat_str_no_crlf(2) in simp)
      then show ?thesis by (simp add: parseRedisArrayCommand_def)
    next
      case (2 v)
      have "drop (length (nat_str (length ps)) + 3) s = v"
        unfolding 2(1) using redis_enc_drop [of "length ps" v] by simp
      from parse_parts_part [OF this 2(2) small, of "[]"] redis_header(2) [of ps v] redis_ok_small [OF ok]
      show ?thesis by (simp add: 2(1))
    qed
  qed
  with hd \<open>s \<noteq> []\<close> show ?thesis by (cases s) (auto simp: parseRedisCommand_def)
qed

lemma redis_loop_msg:
  assumes "redis_ok ps"
  shows "redis_loop up low (redis_enc ps @ s)
    = map_option (\<lambda>(cmds, rest). (redis_emit up low ps @ cmds, rest)) (redis_loop up low s)"
proof -
  have "redis_enc ps @ s \<noteq> []" "length (redis_enc ps) \<noteq> 0" by (simp_all add: redis_enc_def)
  then show ?thesis
    by (subst redis_loop.simps)
      (simp add: parse_redis_msg [OF assms] redis_emit_def split: option.split)
qed

lemma redis_loop_part:
  assumes "redis_ok ps" and "strict_prefix s (redis_enc ps)"
  shows "redis_loop up low s = Some ([], s) \<and> length s \<le> 1024 * 1024"
proof -
  have "length s \<le> 1024 * 1024" using prefix_length_less [OF assms(2)] assms(1) by (simp add: redis_ok_def)
  moreover have "redis_loop up low s = Some ([], s)"
    by (cases "s = []"; subst redis_loop.simps) (simp_all add: parse_redis_part [OF assms])
  ultimately show ?thesis by blast
qed

lemma redis_loop_Nil: "redis_loop up low [] = Some ([], [])"
  by (subst redis_loop.simps) simp

interpretation redis: protocol_parser "\<lambda>alive m. alive \<and> redis_ok m" redis_enc "redis_emit up low" "\<lambda>_ _. True"
    "redis_drain up low" "\<lambda>alive. alive" for up low
proof unfold_locales
  fix q :: bool and m s
  assume "q \<and> redis_ok m" "fst (snd (redis_drain up low True s))"
  then show "redis_drain up low q (redis_enc m @ s)
      = (redis_emit up low m @ fst (redis_drain up low True s), snd (redis_drain up low True s))"
    by (auto simp: redis_drain_def redis_loop_msg split: option.splits)
next
  fix q :: bool and m s
  assume "q \<and> redis_ok m" "strict_prefix s (redis_enc m)"
  with redis_loop_part [of m s up low] show "redis_drain up low q s = ([], q, s)"
    by (simp add: redis_drain_def)
qed (auto simp: redis_drain_def redis_loop_Nil)

lemma redis_oks: "redis.oks True ms \<longleftrightarrow> list_all redis_ok ms"
  by (induction ms) auto

lemma redis_enc_nonempty: "redis_enc m \<noteq> []"
  by (simp add: redis_enc_def)

lemma redis_effect_untimed: "untimed (redis_effect c t) = redis_effect c 0"
  by (simp add: untimed_def redis_effect_def NewRedisSideEffect_def)

lemma hello_step_length [simp]: "length (hello_step i out) = length out"
  by (simp add: hello_step_def Let_def)

lemma hello_step_cases: "j < length out \<Longrightarrow> hello_step i out ! j \<in> {out ! j, redacted}"
  by (auto simp: hello_step_def Let_def nth_list_update)

lemma redact_hello_length [simp]: "length (redact_hello i n out) = length out"
  by (induction i n out rule: redact_hello.induct) auto

lemma redact_hello_cases: "j < length out \<Longrightarrow> redact_hello i n out ! j \<in> {out ! j, redacted}"
proof (induction i n out rule: redact_hello.induct)
  case (2 i n out)
  with hello_step_cases [of j out i] show ?case by auto
qed simp

lemma redact_hello_skip:
  "(\<And>j. i \<le> j \<Longrightarrow> j < k \<Longrightarrow> \<not> EqualFold (out ! j) ''AUTH'') \<Longrightarrow> i \<le> k \<Longrightarrow> k \<le> i + n \<Longrightarrow>
   redact_hello i n out = redact_hello k (n - (k - i)) out"
proof (induction n arbitrary: i)
  case (Suc n)
  show ?case
  proof (cases "i = k")
    case False
    with Suc.prems have "\<not> EqualFold (out ! i) ''AUTH''" by simp
    moreover have "redact_hello (Suc i) n out = redact_hello k (n - (k - Suc i)) out"
      by (rule Suc.IH) (use False Suc.prems in auto)
    moreover have "Suc n - (k - i) = n - (k - Suc i)" using False Suc.prems(2) by simp
    ultimately show ?thesis by (simp add: hello_step_def)
  qed simp
qed simp

lemma redact_hello_hit:
  assumes "EqualFold (out ! i) ''AUTH''" "0 < n" "j \<in> {i + 1, i + 2}" "j < length out"
  shows "redact_hello i n out ! j = redacted"
proof -
  obtain m where n: "n = Suc m" using assms(2) by (cases n) auto
  have "hello_step i out ! j = redacted" using assms(1,3,4) by (auto simp: hello_step_def Let_def nth_list_update)
  with redact_hello_cases [of j "hello_step i out" "Suc i" m] assms(4) show ?thesis by (simp add: n)
qed

lemma acl_nth:
  "2 \<le> length args \<Longrightarrow> j < length args \<Longrightarrow>
   (take 2 args @ map f (drop 2 args)) ! j = (if j < 2 then args ! j else f (args ! j))"
  using le_Suc_ex [of 2 j] by (cases "j < 2") (auto simp: nth_append not_less)

lemma buildRedisCommand_ascii:
  assumes "list_all is_ascii name" "\<not> list_ex is_space name" "name \<noteq> ''''"
  shows "buildRedisCommand up low (name # rest) =
     (let args = redactRedisArgs low (map upper_char name) (map encodeRedisArg rest)
      in Some \<lparr>rc_Command = map upper_char name, rc_Key = redisPrimaryKey (map upper_char name) args, rc_Args = args\<rparr>)"
proof -
  have "dropWhile is_space xs = xs" if "\<not> list_ex is_space xs" for xs using that by (cases xs) auto
  from this [of name] this [of "rev name"] assms have "TrimSpace name = name"
    by (simp add: TrimSpace_ascii list_ex_iff)
  with assms show ?thesis by (simp add: buildRedisCommand_def Valid_ascii ToUpper_ascii Let_def)
qed

lemma encodeRedisArg_ascii: "list_all is_ascii a \<Longrightarrow> encodeRedisArg a = a"
  by (simp add: encodeRedisArg_def Valid_ascii)

section \<open>Properties\<close>

lemma redis_stream:
  assumes "list_all redis_ok ms" and "concat (map snd calls) = concat (map redis_enc ms)"
  shows "map untimed (fst (capture (redis_Feed up low) (True, []) calls))
       = map (\<lambda>c. redis_effect c 0) (concat (map (redis_emit up low) ms))
     \<and> snd (capture (redis_Feed up low) (True, []) calls) = (True, [])"
proof -
  have "foldl (\<lambda>_ _. True) True ms = True" for ms :: "bytes list list" by (induction ms) auto
  then have "feed_all (\<lambda>(q, b) d. redis_drain up low q (b @ d)) (True, []) (map snd calls)
      = (concat (map (redis_emit up low) ms), (True, []))"
    using redis.feed_chunks [of True ms "map snd calls" up low] assms redis_enc_nonempty by (simp add: redis_oks)
  moreover have "redis_Feed up low now p d
      = (stamp redis_effect now (fst (redis_drain up low (fst p) (snd p @ d))), snd (redis_drain up low (fst p) (snd p @ d)))" for now p d
    by (simp add: redis_Feed_def Let_def case_prod_beta)
  note capture_untimed [where Feed = "redis_Feed up low" and feed = "\<lambda>(q, b) d. redis_drain up low q (b @ d)",
      simplified case_prod_beta, OF this redis_effect_untimed]
  ultimately show ?thesis by (simp add: case_prod_beta)
qed

text \<open>
  From a stream of Redis commands in the array form, cut into chunks in any way, the parser
  captures exactly the commands, in order, each with its name in upper case, its key and its
  redacted arguments, and keeps nothing back. Each command has at least a name, and its encoding
  fits the buffer of 1 MiB.
\<close>

theorem redis_capture:
  assumes "list_all redis_ok ms" and "concat (map snd calls) = concat (map redis_enc ms)"
  shows "map untimed (fst (capture (redis_Feed up low) (True, []) calls))
       = map (\<lambda>c. redis_effect c 0) (concat (map (redis_emit up low) ms))
     \<and> snd (capture (redis_Feed up low) (True, []) calls) = (True, [])"
  using assms by (rule redis_stream)


text \<open>
  A CONFIG SET with several parameters, which Redis accepts since version 7, is redacted only
  if the first parameter is a password: the password in this one is recorded in the clear.
\<close>

theorem config_set_password_leaks:
  "map rc_Args (redis_emit up low [''CONFIG'', ''SET'', ''timeout'', ''0'', ''requirepass'', ''s3cret''])
     = [[''SET'', ''timeout'', ''0'', ''requirepass'', ''s3cret'']]"
proof -
  have name: "list_all is_ascii ''CONFIG''" "\<not> list_ex is_space ''CONFIG''" "map upper_char ''CONFIG'' = ''CONFIG''"
    by (simp_all add: is_ascii_def is_space_def IsSpace_def upper_char_def)
  have args: "map encodeRedisArg [''SET'', ''timeout'', ''0'', ''requirepass'', ''s3cret'']
      = [''SET'', ''timeout'', ''0'', ''requirepass'', ''s3cret'']"
    by (simp add: encodeRedisArg_ascii is_ascii_def)
  have "\<not> isSensitiveRedisConfigName low ''timeout''"
    by (simp add: isSensitiveRedisConfigName_def ToLower_def is_ascii_def lower_char_def)
  then show ?thesis
    using buildRedisCommand_ascii [OF name(1,2)] name(3) args
    by (simp add: redis_emit_def Let_def redactRedisArgs_def)
qed

text \<open>
  A length that a client declares can end the process: a bulk string of length
  \<open>2 ^ 63 - 1\<close> makes the end of the string overflow to a negative number, which passes the test
  for missing bytes and is then an index out of range; an array of \<open>2 ^ 63 - 1\<close> parts asks for a
  slice that cannot be allocated.
\<close>

theorem redis_length_panics:
  "redis_Feed up low now (True, []) (''*1'' @ crlf @ ''$9223372036854775807'' @ crlf) = ([], (False, [])) \<and>
   redis_Feed up low now (True, []) (''*9223372036854775807'' @ crlf) = ([], (False, []))"
proof -
  have a: "Atoi ''1'' = Some 1" "Atoi ''9223372036854775807'' = Some 9223372036854775807"
    by (simp_all add: Atoi_def is_digit_def digits_val_def)
  have w: "wrap64 9223372036854775833 < 0" "wrap64 9223372036854775835 < 0" by (simp_all add: wrap64_def)
  have "parseRedisCommand (''*1'' @ crlf @ ''$9223372036854775807'' @ crlf) = Panic"
    using a w by (simp add: parseRedisCommand_def parseRedisArrayCommand_def crlf_def max_parts_def Let_def)
  moreover have "parseRedisCommand (''*9223372036854775807'' @ crlf) = Panic"
    using a by (simp add: parseRedisCommand_def parseRedisArrayCommand_def crlf_def max_parts_def Let_def)
  ultimately have "redis_loop up low (''*1'' @ crlf @ ''$9223372036854775807'' @ crlf) = None"
    "redis_loop up low (''*9223372036854775807'' @ crlf) = None"
    by (subst redis_loop.simps, simp)+
  then show ?thesis by (simp add: redis_Feed_def redis_drain_def stamp_def)
qed

section \<open>Instances\<close>

theorem redis_capture_witness:
  "map untimed (fst (capture (redis_Feed id id) (True, [])
      [(\<lambda>i. 7, take 5 (redis_enc [''get'', ''user:1''])), (\<lambda>i. 9, drop 5 (redis_enc [''get'', ''user:1'']))]))
   = [NewRedisSideEffect ''GET'' ''user:1'' [''user:1''] 0]"
proof -
  have name: "list_all is_ascii ''get''" "\<not> list_ex is_space ''get''" "map upper_char ''get'' = ''GET''"
    by (simp_all add: is_ascii_def is_space_def IsSpace_def upper_char_def char_of_eq_iff)
  have arg: "encodeRedisArg ''user:1'' = ''user:1''" by (simp add: encodeRedisArg_ascii is_ascii_def)
  have "redis_ok [''get'', ''user:1'']" by (simp add: redis_ok_def redis_enc_def bulk_def crlf_def nat_str.simps)
  moreover have "map (\<lambda>c. redis_effect c 0) (redis_emit id id [''get'', ''user:1'']) = [NewRedisSideEffect ''GET'' ''user:1'' [''user:1''] 0]"
    using buildRedisCommand_ascii [OF name(1,2), of id id "[''user:1'']"] name(3) arg
    by (simp add: redis_emit_def redis_effect_def redactRedisArgs_def redisPrimaryKey_def keyless_commands_def Let_def)
  ultimately show ?thesis
    using redis_capture [of "[[''get'', ''user:1'']]"
      "[(\<lambda>i. 7, take 5 (redis_enc [''get'', ''user:1''])), (\<lambda>i. 9, drop 5 (redis_enc [''get'', ''user:1'']))]" id id]
    by (simp del: capture.simps)
qed


end
