(* ===== verification/Mongo_Parser.thy ===== *)
theory Mongo_Parser
  imports Wire
begin

text \<open>
  The MongoDB parser (\<^verbatim>\<open>internal/capture/dbhook/mongo.go\<close>): the messages on the wire, the
  sections of an \<^verbatim>\<open>OP_MSG\<close>, the reduced BSON reader, and the command that a document stands for;
  then the encoding of documents and messages, and the proof that the parser captures every command
  of a stream however it is cut.
\<close>

definition opMsgOpCode :: nat where
  "opMsgOpCode = 2013"

definition maxMongoMessageLen :: nat where
  "maxMongoMessageLen = 16 * 1024 * 1024"

text \<open>The unsigned number in the four bytes from an offset on.\<close>

definition u32_at :: "bytes \<Rightarrow> nat \<Rightarrow> nat" where
  "u32_at data offset = unat (le32 (drop offset data))"

section \<open>BSON\<close>

text \<open>\<open>None\<close> is the nil map. The loop returns what it has read when the document is cut short.\<close>

function bson_map :: "bytes \<Rightarrow> (string, any) gomap option"
  and bson_loop :: "bytes \<Rightarrow> nat \<Rightarrow> nat \<Rightarrow> (string, any) gomap \<Rightarrow> (string, any) gomap" where
  "bson_map data =
     (if length data < 5 then None
      else let docLen = u32_at data 0
           in if docLen > length data then None
              else Some (bson_loop data docLen 4 []))"
| "bson_loop data docLen offset result =
     (if \<not> offset + 1 < docLen then result
      else if offset \<ge> length data then result
      else let elemType = data ! offset;
               key = takeWhile (\<lambda>b. b \<noteq> CHR 0x00) (drop (offset + 1) data);
               keyEnd = offset + 1 + length key
           in if keyEnd \<ge> length data then result
              else let off = keyEnd + 1
                   in if elemType = CHR 0x02 then
                        (if off + 4 > length data then result
                         else let strLen = u32_at data off
                              in if off + 4 + strLen > length data \<or> strLen < 1 then result
                                 else bson_loop data docLen (off + 4 + strLen)
                                        (put key (AnyString (take (strLen - 1) (drop (off + 4) data))) result))
                      else if elemType = CHR 0x03 \<or> elemType = CHR 0x04 then
                        (if off + 4 > length data then result
                         else let subDocLen = u32_at data off
                              in if off + subDocLen > length data then result
                                 else bson_loop data docLen (off + subDocLen)
                                        (case bson_map (take subDocLen (drop off data)) of
                                           None \<Rightarrow> result
                                         | Some subMap \<Rightarrow> put key (AnyMap subMap) result))
                      else if elemType = CHR 0x10 then
                        (if off + 4 > length data then result
                         else bson_loop data docLen (off + 4) (put key (AnyInt (int (u32_at data off))) result))
                      else if elemType = CHR 0x12 then
                        (if off + 8 > length data then result
                         else bson_loop data docLen (off + 8) (put key (AnyInt64 (sint (le64 (drop off data)))) result))
                      else if elemType = CHR 0x01 then
                        (if off + 8 > length data then result else bson_loop data docLen (off + 8) result)
                      else if elemType = CHR 0x08 then
                        (if off \<ge> length data then result
                         else bson_loop data docLen (off + 1) (put key (AnyBool (data ! off \<noteq> CHR 0x00)) result))
                      else if elemType = CHR 0x0A then bson_loop data docLen off (put key AnyNil result)
                      else if elemType = CHR 0x07 then
                        (if off + 12 > length data then result else bson_loop data docLen (off + 12) result)
                      else result)"
  by pat_completeness auto
termination
  by (relation "inv_image (less_than <*lex*> less_than)
      (\<lambda>x. case x of Inl d \<Rightarrow> (length d, length d + 2) | Inr (d, l, off, r) \<Rightarrow> (length d, length d + 1 - off))")
    auto

declare bson_map.simps [simp del] bson_loop.simps [simp del]

section \<open>Commands\<close>

definition mongoCommands :: "string list" where
  "mongoCommands = [''find'', ''insert'', ''update'', ''delete'', ''aggregate'', ''count'', ''distinct'', ''findAndModify'']"

definition any_string :: "any option \<Rightarrow> string" where
  "any_string v = (case v of Some (AnyString s) \<Rightarrow> s | _ \<Rightarrow> '''')"

definition any_value :: "any option \<Rightarrow> any" where
  "any_value v = (case v of Some a \<Rightarrow> a | None \<Rightarrow> AnyNil)"

definition extractMongoCommand :: "bytes \<Rightarrow> MongoSideEffect option" where
  "extractMongoCommand bsonDoc =
     (case bson_map bsonDoc of
        None \<Rightarrow> None
      | Some doc \<Rightarrow>
          (case find (\<lambda>cmd. map_of doc cmd \<noteq> None) mongoCommands of
             None \<Rightarrow> None
           | Some cmd \<Rightarrow>
               Some \<lparr>mg_Database = any_string (map_of doc ''$db''), mg_Collection = any_string (map_of doc cmd),
                 mg_Operation = cmd, mg_Filter = any_value (map_of doc ''filter''),
                 mg_Update = any_value (map_of doc ''updates''), mg_Documents = any_value (map_of doc ''documents''),
                 mg_DocCount = 0\<rparr>))"

text \<open>The sections of a message body from an offset on.\<close>

function op_msg_sections :: "bytes \<Rightarrow> nat \<Rightarrow> MongoSideEffect list" where
  "op_msg_sections body offset =
     (if \<not> offset < length body then []
      else let kind = body ! offset; off = offset + 1
           in if kind = CHR 0x00 then
                (if off + 4 > length body then []
                 else let docLen = u32_at body off
                      in if docLen < 5 \<or> off + docLen > length body then []
                         else (case extractMongoCommand (take docLen (drop off body)) of
                                 Some effect \<Rightarrow> [effect] | None \<Rightarrow> []) @ op_msg_sections body (off + docLen))
              else if kind = CHR 0x01 then
                (if off + 4 > length body then []
                 else let secLen = u32_at body off
                      in if secLen < 4 \<or> off + secLen > length body then []
                         else op_msg_sections body (off + secLen))
              else [])"
  by pat_completeness auto
termination
  by (relation "measure (\<lambda>(b, off). length b - off)") auto

declare op_msg_sections.simps [simp del]

definition parseOpMsg :: "bytes \<Rightarrow> MongoSideEffect list" where
  "parseOpMsg body = (if length body < 5 then [] else op_msg_sections body 4)"

function mongo_loop :: "bytes \<Rightarrow> MongoSideEffect list \<times> bytes" where
  "mongo_loop buf =
     (if length buf < 16 then ([], buf)
      else let msgLen = u32_at buf 0
           in if msgLen < 16 \<or> msgLen > maxMongoMessageLen then ([], [])
              else if length buf < msgLen then ([], buf)
              else let effects = (if u32_at buf 12 = opMsgOpCode then parseOpMsg (take (msgLen - 16) (drop 16 buf)) else []);
                       (effects', rest) = mongo_loop (drop msgLen buf)
                   in (effects @ effects', rest))"
  by pat_completeness auto
termination
  by (relation "measure length") auto

declare mongo_loop.simps [simp del]

definition mongo_drain :: "bytes \<Rightarrow> MongoSideEffect list \<times> bytes" where
  "mongo_drain buf =
     (let (effects, rest) = mongo_loop buf
      in (effects, if maxMongoMessageLen < length rest then [] else rest))"

definition mongo_Feed :: "(nat \<Rightarrow> int) \<Rightarrow> bytes \<Rightarrow> bytes \<Rightarrow> SideEffect list \<times> bytes" where
  "mongo_Feed now buf data =
     (let (effects, rest) = mongo_drain (buf @ data)
      in (stamp NewMongoSideEffect now effects, rest))"

text \<open>
  A command as readable JSON. \<open>marshal\<close> is \<^verbatim>\<open>json.Marshal\<close>; where it fails its error is dropped and
  the text is empty. No other part of the program calls this function.
\<close>

definition mongo_fields :: "MongoSideEffect \<Rightarrow> (string, any) gomap" where
  "mongo_fields payload =
     [(''operation'', AnyString (mg_Operation payload)), (''collection'', AnyString (mg_Collection payload)),
      (''database'', AnyString (mg_Database payload))]
     @ (if mg_Filter payload \<noteq> AnyNil then [(''filter'', mg_Filter payload)] else [])
     @ (if mg_Update payload \<noteq> AnyNil then [(''update'', mg_Update payload)] else [])
     @ (if mg_Documents payload \<noteq> AnyNil then [(''documents'', mg_Documents payload)] else [])"

definition MongoCommandToJSON :: "(any \<Rightarrow> bytes option) \<Rightarrow> SideEffect \<Rightarrow> bytes" where
  "MongoCommandToJSON marshal effect =
     (let payload = (case MongoPayload effect of
            None \<Rightarrow> \<lparr>mg_Database = '''', mg_Collection = '''', mg_Operation = '''', mg_Filter = AnyNil, mg_Update = AnyNil,
              mg_Documents = AnyNil, mg_DocCount = 0\<rparr>
          | Some p \<Rightarrow> p)
      in case marshal (AnyMap (mongo_fields payload)) of None \<Rightarrow> [] | Some data \<Rightarrow> data)"

section \<open>The encoding of documents and messages\<close>

text \<open>
  The BSON values that the reader knows, their encoding, and what it keeps of them: doubles and
  object ids are skipped, an array becomes a map from its indices.
\<close>

datatype bson =
    BDouble bytes
  | BString string
  | BDoc "(string \<times> bson) list"
  | BArr "(string \<times> bson) list"
  | BObjectId bytes
  | BBool bool
  | BNull
  | BInt32 int
  | BInt64 int

fun bson_tag :: "bson \<Rightarrow> char" where
  "bson_tag (BDouble _) = CHR 0x01"
| "bson_tag (BString _) = CHR 0x02"
| "bson_tag (BDoc _) = CHR 0x03"
| "bson_tag (BArr _) = CHR 0x04"
| "bson_tag (BObjectId _) = CHR 0x07"
| "bson_tag (BBool _) = CHR 0x08"
| "bson_tag BNull = CHR 0x0A"
| "bson_tag (BInt32 _) = CHR 0x10"
| "bson_tag (BInt64 _) = CHR 0x12"

text \<open>A document is its length, its elements and a zero byte.\<close>

definition bson_frame :: "bytes \<Rightarrow> bytes" where
  "bson_frame body = le_bytes 4 (length body + 5) @ body @ [CHR 0x00]"

fun value_enc :: "bson \<Rightarrow> bytes" and elems_enc :: "(string \<times> bson) list \<Rightarrow> bytes" where
  "value_enc (BDouble d) = d"
| "value_enc (BString s) = le_bytes 4 (length s + 1) @ s @ [CHR 0x00]"
| "value_enc (BDoc es) = bson_frame (elems_enc es)"
| "value_enc (BArr es) = bson_frame (elems_enc es)"
| "value_enc (BObjectId oid) = oid"
| "value_enc (BBool b) = [if b then CHR 0x01 else CHR 0x00]"
| "value_enc BNull = []"
| "value_enc (BInt32 i) = le_bytes 4 (nat (i mod 2 ^ 32))"
| "value_enc (BInt64 i) = le_bytes 8 (nat (i mod 2 ^ 64))"
| "elems_enc [] = []"
| "elems_enc ((k, v) # es) = bson_tag v # k @ CHR 0x00 # value_enc v @ elems_enc es"

fun value_ok :: "bson \<Rightarrow> bool" and elems_ok :: "(string \<times> bson) list \<Rightarrow> bool" where
  "value_ok (BDouble d) = (length d = 8)"
| "value_ok (BString s) = True"
| "value_ok (BDoc es) = elems_ok es"
| "value_ok (BArr es) = elems_ok es"
| "value_ok (BObjectId oid) = (length oid = 12)"
| "value_ok (BBool b) = True"
| "value_ok BNull = True"
| "value_ok (BInt32 i) = (- (2 ^ 31) \<le> i \<and> i < 2 ^ 31)"
| "value_ok (BInt64 i) = (- (2 ^ 63) \<le> i \<and> i < 2 ^ 63)"
| "elems_ok [] = True"
| "elems_ok ((k, v) # es) = (CHR 0x00 \<notin> set k \<and> value_ok v \<and> elems_ok es)"

fun value_any :: "bson \<Rightarrow> any option" and elems_map :: "(string \<times> bson) list \<Rightarrow> (string, any) gomap \<Rightarrow> (string, any) gomap" where
  "value_any (BDouble d) = None"
| "value_any (BString s) = Some (AnyString s)"
| "value_any (BDoc es) = Some (AnyMap (elems_map es []))"
| "value_any (BArr es) = Some (AnyMap (elems_map es []))"
| "value_any (BObjectId oid) = None"
| "value_any (BBool b) = Some (AnyBool b)"
| "value_any BNull = Some AnyNil"
| "value_any (BInt32 i) = Some (AnyInt (i mod 2 ^ 32))"
| "value_any (BInt64 i) = Some (AnyInt64 i)"
| "elems_map [] m = m"
| "elems_map ((k, v) # es) m = elems_map es (case value_any v of None \<Rightarrow> m | Some a \<Rightarrow> put k a m)"

lemma u32_at_append:
  "n < 2 ^ 32 \<Longrightarrow> u32_at (pre @ le_bytes 4 n @ s) (length pre) = n"
  by (simp add: u32_at_def le32_le_bytes)

lemma takeWhile_key: "CHR 0x00 \<notin> set k \<Longrightarrow> takeWhile (\<lambda>b. b \<noteq> CHR 0x00) (k @ CHR 0x00 # s) = k"
  by (induction k) auto

lemma sint_le64:
  assumes "- (2 ^ 63) \<le> i" "i < 2 ^ 63"
  shows "sint (le64 (le_bytes 8 (nat (i mod 2 ^ 64)) @ s)) = i"
proof -
  define n where "n = nat (i mod 2 ^ 64)"
  have n: "n < 2 ^ 64" by (simp add: n_def nat_less_iff)
  have "unat (le64 (le_bytes 8 n @ s)) = n"
    using le_value_bytes [of n 8] n by (simp add: le64_value)
  with n have "le64 (le_bytes 8 n @ s) = word_of_nat n" by (simp add: word_unat_eq_iff unat_of_nat)
  also have "\<dots> = word_of_int (i mod 2 ^ 64)" by (simp add: n_def)
  also have "\<dots> = word_of_int i" by (simp add: word_of_int_eq_iff take_bit_eq_mod)
  finally show ?thesis using assms by (simp add: n_def sint_sbintrunc' signed_take_bit_int_eq_self)
qed


lemma length_bson_frame: "length (bson_frame body) = length body + 5"
  by (simp add: bson_frame_def)

lemma bson_frame_map:
  assumes "length body + 5 < 2 ^ 32"
  shows "bson_map (bson_frame body) = Some (bson_loop (bson_frame body) (length body + 5) 4 [])"
proof -
  have "u32_at (bson_frame body) 0 = length body + 5"
    unfolding bson_frame_def using u32_at_append [of "length body + 5" "[]"] assms by simp
  moreover have "length (bson_frame body) = length body + 5" by (simp add: bson_frame_def)
  ultimately show ?thesis by (subst bson_map.simps) (simp add: Let_def)
qed

text \<open>What the reader makes of the elements that it nests.\<close>

fun nested_read :: "bson \<Rightarrow> bool" where
  "nested_read (BDoc es) = (bson_map (bson_frame (elems_enc es)) = Some (elems_map es []))"
| "nested_read (BArr es) = (bson_map (bson_frame (elems_enc es)) = Some (elems_map es []))"
| "nested_read _ = True"

lemma length_key_suffix:
  assumes "drop (Suc n) data = k @ z # w"
  shows "length data = n + 2 + length k + length w"
    and "drop (n + 2 + length k) data = w"
proof -
  have "length data - Suc n = length k + Suc (length w)" using assms by (metis length_append length_drop length_Cons)
  then show "length data = n + 2 + length k + length w" by simp
  have "drop (n + 2 + length k) data = drop (Suc (length k)) (drop (Suc n) data)" by (simp add: add.commute)
  then show "drop (n + 2 + length k) data = w" using assms by simp
qed

lemma bson_loop_step:
  assumes tag: "data ! n = bson_tag v" and suffix: "drop (Suc n) data = k @ CHR 0x00 # value_enc v @ rest"
    and n: "n + 1 < docLen" and rest: "rest \<noteq> []"
    and ok: "CHR 0x00 \<notin> set k" "value_ok v" and len: "length (value_enc v) < 2 ^ 32" and nested: "nested_read v"
  shows "bson_loop data docLen n m
       = bson_loop data docLen (n + 2 + length k + length (value_enc v)) (case value_any v of None \<Rightarrow> m | Some a \<Rightarrow> put k a m)"
proof -
  note suf = length_key_suffix [OF suffix]
  have key: "takeWhile (\<lambda>b. b \<noteq> CHR 0x00) (drop (n + 1) data) = k"
    using suffix ok(1) by (simp add: takeWhile_key)
  define off where "off = Suc (Suc (n + length k))"
  have lend: "length data = off + length (value_enc v) + length rest" and d: "drop off data = value_enc v @ rest"
    using suf by (simp_all add: off_def)
  have rest1: "0 < length rest" using rest by simp
  have u: "u32_at data off = x" if "value_enc v = le_bytes 4 x @ y" "x < 2 ^ 32" for x y
    using that d by (simp add: u32_at_def le32_le_bytes)
  have "(length data \<le> n) = False" "(length data \<le> n + 1 + length k) = False" "(n + 1 < docLen) = True" "n + 1 + length k + 1 = off"
    using lend rest1 n by (simp_all add: off_def)
  note base = Let_def not_True_eq_False if_True if_False key this
  have step: "bson_loop data docLen n m = bson_loop data docLen (off + length (value_enc v)) (case value_any v of None \<Rightarrow> m | Some a \<Rightarrow> put k a m)"
  proof (cases v)
    case (BString s)
    have l: "length data = off + (length s + 5) + length rest" using lend BString ok by (simp add: bson_frame_def)
    have t: "data ! n = CHR 0x02" using tag BString by simp
    have sl: "u32_at data off = Suc (length s)" using len BString by (intro u [where y = "s @ [CHR 0x00]"]) simp_all
    have str: "drop (off + 4) data = s @ CHR 0x00 # rest"
      using d BString drop_drop [of 4 off data] by (simp add: add.commute)
    have "bson_loop data docLen n m = bson_loop data docLen (off + 4 + Suc (length s)) (put k (AnyString s) m)"
      by (subst bson_loop.simps, simp only: base t) (simp add: not_less sl str l)
    with BString show ?thesis by (simp add: ac_simps)
  next
    case (BDoc es)
    have l: "length data = off + (length (elems_enc es) + 5) + length rest" using lend BDoc ok by (simp add: bson_frame_def)
    have t: "data ! n = CHR 0x03" using tag BDoc by simp
    have len5: "length (elems_enc es) + 5 < 2 ^ 32" using len BDoc by (simp add: bson_frame_def)
    then have sl: "u32_at data off = length (elems_enc es) + 5" using BDoc by (intro u) (simp_all add: bson_frame_def)
    have dd: "take (length (elems_enc es) + 5) (drop off data) = bson_frame (elems_enc es)" using d BDoc by (simp add: length_bson_frame)
    have "bson_loop data docLen n m = bson_loop data docLen (off + (length (elems_enc es) + 5)) (put k (AnyMap (elems_map es [])) m)"
      by (subst bson_loop.simps, simp only: base t) (use nested BDoc in \<open>simp add: not_less sl l dd\<close>)
    with BDoc show ?thesis by (simp add: length_bson_frame)
  next
    case (BArr es)
    have l: "length data = off + (length (elems_enc es) + 5) + length rest" using lend BArr ok by (simp add: bson_frame_def)
    have t: "data ! n = CHR 0x04" using tag BArr by simp
    have len5: "length (elems_enc es) + 5 < 2 ^ 32" using len BArr by (simp add: bson_frame_def)
    then have sl: "u32_at data off = length (elems_enc es) + 5" using BArr by (intro u) (simp_all add: bson_frame_def)
    have dd: "take (length (elems_enc es) + 5) (drop off data) = bson_frame (elems_enc es)" using d BArr by (simp add: length_bson_frame)
    have "bson_loop data docLen n m = bson_loop data docLen (off + (length (elems_enc es) + 5)) (put k (AnyMap (elems_map es [])) m)"
      by (subst bson_loop.simps, simp only: base t) (use nested BArr in \<open>simp add: not_less sl l dd\<close>)
    with BArr show ?thesis by (simp add: length_bson_frame)
  next
    case (BInt32 i)
    have l: "length data = off + 4 + length rest" using lend BInt32 ok by (simp add: bson_frame_def)
    have t: "data ! n = CHR 0x10" using tag BInt32 by simp
    have sl: "u32_at data off = nat (i mod 2 ^ 32)" using BInt32 by (intro u [where y = "[]"]) (simp_all add: nat_less_iff)
    have "bson_loop data docLen n m = bson_loop data docLen (off + 4) (put k (AnyInt (i mod 2 ^ 32)) m)"
      by (subst bson_loop.simps, simp only: base t) (simp add: not_less sl l)
    with BInt32 show ?thesis by simp
  next
    case (BInt64 i)
    have l: "length data = off + 8 + length rest" using lend BInt64 ok by (simp add: bson_frame_def)
    have t: "data ! n = CHR 0x12" using tag BInt64 by simp
    have sl: "sint (le64 (drop off data)) = i" using d ok(2) BInt64 sint_le64 [of i rest] by simp
    have "bson_loop data docLen n m = bson_loop data docLen (off + 8) (put k (AnyInt64 i) m)"
      by (subst bson_loop.simps, simp only: base t) (simp add: not_less sl l)
    with BInt64 show ?thesis by simp
  next
    case (BBool b)
    have l: "length data = off + 1 + length rest" using lend BBool ok by (simp add: bson_frame_def)
    have t: "data ! n = CHR 0x08" using tag BBool by simp
    have sl: "data ! off = (if b then CHR 0x01 else CHR 0x00)" using nth_via_drop [of off data "if b then CHR 0x01 else CHR 0x00" rest] d BBool by simp
    have "(data ! off \<noteq> CHR 0x00) = b" using sl by simp
    then have "bson_loop data docLen n m = bson_loop data docLen (off + 1) (put k (AnyBool b) m)"
      by (subst bson_loop.simps, simp only: base t) (simp add: l)
    with BBool show ?thesis by simp
  next
    case (BDouble b)
    have l: "length data = off + 8 + length rest" using lend BDouble ok by (simp add: bson_frame_def)
    have t: "data ! n = CHR 0x01" using tag BDouble by simp
    have "bson_loop data docLen n m = bson_loop data docLen (off + 8) m"
      by (subst bson_loop.simps, simp only: base t) (simp add: not_less l)
    with BDouble ok show ?thesis by simp
  next
    case (BObjectId b)
    have l: "length data = off + 12 + length rest" using lend BObjectId ok by (simp add: bson_frame_def)
    have t: "data ! n = CHR 0x07" using tag BObjectId by simp
    have "bson_loop data docLen n m = bson_loop data docLen (off + 12) m"
      by (subst bson_loop.simps, simp only: base t) (simp add: not_less l)
    with BObjectId ok show ?thesis by simp
  next
    case BNull
    have t: "data ! n = CHR 0x0A" using tag BNull by simp
    have "bson_loop data docLen n m = bson_loop data docLen off (put k AnyNil m)"
      by (subst bson_loop.simps, simp only: base t) (simp add: not_less)
    with BNull show ?thesis by simp
  qed
  then show ?thesis by (simp add: off_def)
qed


lemma elems_read:
  "value_ok v \<Longrightarrow> length (value_enc v) < 2 ^ 32 \<Longrightarrow> nested_read v"
  "elems_ok es \<Longrightarrow> length (elems_enc es) + 5 < 2 ^ 32 \<Longrightarrow>
     bson_loop (pre @ elems_enc es @ [CHR 0x00]) (length pre + length (elems_enc es) + 1) (length pre) m = elems_map es m"
proof (induction v and es arbitrary: and pre m rule: value_enc_elems_enc.induct)
  case (3 es)
  have len: "length (elems_enc es) + 5 < 2 ^ 32" using 3 by (simp add: length_bson_frame)
  with 3 "3.IH" [of "le_bytes 4 (length (elems_enc es) + 5)" "[]"] show ?case
    by (simp add: bson_frame_map) (simp add: bson_frame_def add.commute)
next
  case (4 es)
  have len: "length (elems_enc es) + 5 < 2 ^ 32" using 4 by (simp add: length_bson_frame)
  with 4 "4.IH" [of "le_bytes 4 (length (elems_enc es) + 5)" "[]"] show ?case
    by (simp add: bson_frame_map) (simp add: bson_frame_def add.commute)
next
  case 10
  show ?case by (subst bson_loop.simps) simp
next
  case (11 k v es)
  let ?data = "pre @ elems_enc ((k, v) # es) @ [CHR 0x00]"
  let ?m = "case value_any v of None \<Rightarrow> m | Some a \<Rightarrow> put k a m"
  let ?pre = "pre @ bson_tag v # k @ CHR 0x00 # value_enc v"
  have ok: "CHR 0x00 \<notin> set k" "value_ok v" "elems_ok es"
    and len: "length (value_enc v) < 2 ^ 32" "length (elems_enc es) + 5 < 2 ^ 32" using "11.prems" by simp_all
  have "bson_loop ?data (length pre + length (elems_enc ((k, v) # es)) + 1) (length pre) m
      = bson_loop ?data (length pre + length (elems_enc ((k, v) # es)) + 1) (length pre + 2 + length k + length (value_enc v)) ?m"
    by (rule bson_loop_step [where rest = "elems_enc es @ [CHR 0x00]"]) (use ok len "11.IH"(1) in simp_all)
  also have "\<dots> = elems_map es ?m"
    using "11.IH"(2) [OF ok(3) len(2), of ?pre ?m] by (simp add: ac_simps)
  finally show ?case by simp
qed simp_all

lemma document_read:
  assumes "elems_ok es" "length (elems_enc es) + 5 < 2 ^ 32"
  shows "bson_map (bson_frame (elems_enc es)) = Some (elems_map es [])"
  using elems_read(1) [of "BDoc es"] assms by (simp add: length_bson_frame)


section \<open>Messages\<close>

datatype mongo_section = SecBody "(string \<times> bson) list" | SecSequence bytes

fun section_enc :: "mongo_section \<Rightarrow> bytes" where
  "section_enc (SecBody es) = CHR 0x00 # bson_frame (elems_enc es)"
| "section_enc (SecSequence docs) = CHR 0x01 # le_bytes 4 (length docs + 4) @ docs"

fun section_ok :: "mongo_section \<Rightarrow> bool" where
  "section_ok (SecBody es) = elems_ok es"
| "section_ok (SecSequence docs) = True"

definition mongo_command :: "(string, any) gomap \<Rightarrow> MongoSideEffect list" where
  "mongo_command doc =
     (case filter (\<lambda>cmd. map_of doc cmd \<noteq> None) mongoCommands of
        [] \<Rightarrow> []
      | cmd # _ \<Rightarrow>
          [\<lparr>mg_Database = any_string (map_of doc ''$db''), mg_Collection = any_string (map_of doc cmd),
            mg_Operation = cmd, mg_Filter = any_value (map_of doc ''filter''),
            mg_Update = any_value (map_of doc ''updates''), mg_Documents = any_value (map_of doc ''documents''),
            mg_DocCount = 0\<rparr>])"

fun section_emit :: "mongo_section \<Rightarrow> MongoSideEffect list" where
  "section_emit (SecBody es) = mongo_command (elems_map es [])"
| "section_emit (SecSequence docs) = []"

datatype mongo_msg =
    OpMsg (ids: bytes) bytes "mongo_section list" bytes
  | OtherMsg (ids: bytes) nat bytes

fun msg_op :: "mongo_msg \<Rightarrow> nat" where
  "msg_op (OpMsg _ _ _ _) = opMsgOpCode"
| "msg_op (OtherMsg _ opcode _) = opcode"

fun msg_body :: "mongo_msg \<Rightarrow> bytes" where
  "msg_body (OpMsg _ flags secs checksum) = flags @ concat (map section_enc secs) @ checksum"
| "msg_body (OtherMsg _ _ body) = body"

definition mongo_enc :: "mongo_msg \<Rightarrow> bytes" where
  "mongo_enc m = le_bytes 4 (length (msg_body m) + 16) @ ids m @ le_bytes 4 (msg_op m) @ msg_body m"

fun mongo_emit :: "mongo_msg \<Rightarrow> MongoSideEffect list" where
  "mongo_emit (OpMsg _ _ secs _) = concat (map section_emit secs)"
| "mongo_emit (OtherMsg _ _ _) = []"

fun msg_parts_ok :: "mongo_msg \<Rightarrow> bool" where
  "msg_parts_ok (OpMsg _ flags secs checksum) =
     (length flags = 4 \<and> list_all section_ok secs \<and> (checksum = [] \<or> length checksum = 4))"
| "msg_parts_ok (OtherMsg _ opcode _) = (opcode < 2 ^ 32 \<and> opcode \<noteq> opMsgOpCode)"

definition mongo_ok :: "mongo_msg \<Rightarrow> bool" where
  "mongo_ok m = (length (msg_body m) + 16 \<le> maxMongoMessageLen \<and> length (ids m) = 8 \<and> msg_parts_ok m)"

lemma find_filter: "find P xs = (case filter P xs of [] \<Rightarrow> None | x # _ \<Rightarrow> Some x)"
  by (induction xs) auto

lemma extract_document:
  assumes "elems_ok es" "length (elems_enc es) + 5 < 2 ^ 32"
  shows "(case extractMongoCommand (bson_frame (elems_enc es)) of Some effect \<Rightarrow> [effect] | None \<Rightarrow> [])
       = mongo_command (elems_map es [])"
  unfolding extractMongoCommand_def document_read [OF assms] mongo_command_def find_filter
  by (simp split: list.split)

lemma checksum_ends:
  assumes "checksum = [] \<or> length checksum = 4"
  shows "op_msg_sections (pre @ checksum) (length pre) = []"
  by (subst op_msg_sections.simps) (use assms in \<open>auto simp: Let_def\<close>)

lemma drop_after: "length pre = n \<Longrightarrow> drop n (pre @ s) = s"
  by simp

lemma sections_read:
  assumes "list_all section_ok secs" "checksum = [] \<or> length checksum = 4"
    and "length (concat (map section_enc secs)) < 2 ^ 32"
  shows "op_msg_sections (pre @ concat (map section_enc secs) @ checksum) (length pre) = concat (map section_emit secs)"
  using assms
proof (induction secs arbitrary: pre)
  case Nil
  then show ?case by (simp add: checksum_ends)
next
  case (Cons sec secs)
  have IH: "op_msg_sections (pre @ section_enc sec @ concat (map section_enc secs) @ checksum) (length pre + length (section_enc sec))
      = concat (map section_emit secs)"
    using Cons.IH [of "pre @ section_enc sec"] Cons.prems by simp
  show ?case
  proof (cases sec)
    case (SecBody es)
    let ?d = "bson_frame (elems_enc es)"
    let ?s = "concat (map section_enc secs) @ checksum"
    have len: "length (elems_enc es) + 5 < 2 ^ 32" using Cons.prems SecBody by (simp add: length_bson_frame)
    have u: "u32_at (pre @ CHR 0x00 # ?d @ ?s) (length pre + 1) = length (elems_enc es) + 5"
      using u32_at_append [of "length (elems_enc es) + 5" "pre @ [CHR 0x00]"] len by (simp add: bson_frame_def)
    have d: "take (length (elems_enc es) + 5) (drop (length pre + 1) (pre @ CHR 0x00 # ?d @ ?s)) = ?d"
      by (simp add: length_bson_frame)
    have "op_msg_sections (pre @ CHR 0x00 # ?d @ ?s) (length pre)
        = mongo_command (elems_map es []) @ op_msg_sections (pre @ CHR 0x00 # ?d @ ?s) (length pre + 1 + (length (elems_enc es) + 5))"
      by (subst op_msg_sections.simps)
        (use Cons.prems SecBody in \<open>simp add: Let_def u [simplified] d [simplified] length_bson_frame extract_document [OF _ len]\<close>)
    with IH SecBody show ?thesis by (simp add: length_bson_frame ac_simps)
  next
    case (SecSequence docs)
    let ?s = "concat (map section_enc secs) @ checksum"
    let ?b = "pre @ CHR 0x01 # le_bytes 4 (length docs + 4) @ docs @ ?s"
    have u: "u32_at ?b (length pre + 1) = length docs + 4"
      using u32_at_append [of "length docs + 4" "pre @ [CHR 0x01]" "docs @ ?s"] Cons.prems SecSequence by simp
    have "op_msg_sections ?b (length pre) = op_msg_sections ?b (length pre + 1 + (length docs + 4))"
      by (subst op_msg_sections.simps) (simp add: Let_def u [simplified])
    with IH SecSequence show ?thesis by (simp add: ac_simps)
  qed
qed

lemma parse_message:
  assumes "mongo_ok m"
  shows "(if msg_op m = opMsgOpCode then parseOpMsg (msg_body m) else []) = mongo_emit m"
proof (cases m)
  case (OpMsg i flags secs checksum)
  have l: "length (concat (map section_enc secs)) < 2 ^ 32"
    using assms OpMsg by (simp add: mongo_ok_def maxMongoMessageLen_def)
  have f: "length flags = 4" "list_all section_ok secs" "checksum = [] \<or> length checksum = 4"
    using assms OpMsg by (simp_all add: mongo_ok_def)
  have r: "op_msg_sections (flags @ concat (map section_enc secs) @ checksum) 4 = concat (map section_emit secs)"
    using sections_read [OF f(2,3) l, of flags] f(1) by simp
  show ?thesis
  proof (cases "length (msg_body m) < 5")
    case True
    then have "secs = []" using OpMsg f(1) by (cases secs; cases "hd secs") (auto simp: bson_frame_def)
    with OpMsg True show ?thesis by (simp add: parseOpMsg_def)
  next
    case False
    with OpMsg r show ?thesis by (simp add: parseOpMsg_def)
  qed
qed (use assms in \<open>simp add: mongo_ok_def\<close>)

lemma mongo_loop_msg:
  assumes ok: "mongo_ok m"
  shows "mongo_loop (mongo_enc m @ s) = (mongo_emit m @ fst (mongo_loop s), snd (mongo_loop s))"
proof -
  let ?b = "msg_body m"
  have ids: "length (ids m) = 8" and max: "length ?b + 16 \<le> maxMongoMessageLen" using ok by (simp_all add: mongo_ok_def)
  have op: "msg_op m < 2 ^ 32" using ok by (cases m) (simp_all add: mongo_ok_def opMsgOpCode_def)
  have u0: "u32_at (mongo_enc m @ s) 0 = length ?b + 16"
    using u32_at_append [of "length ?b + 16" "[]"] max by (simp add: mongo_enc_def maxMongoMessageLen_def)
  have u12: "u32_at (mongo_enc m @ s) 12 = msg_op m"
    using u32_at_append [OF op, of "le_bytes 4 (length ?b + 16) @ ids m" "?b @ s"] ids by (simp add: mongo_enc_def)
  have body: "take (length ?b + 16 - 16) (drop 16 (mongo_enc m @ s)) = ?b" and rest: "drop (length ?b + 16) (mongo_enc m @ s) = s"
    using ids by (simp_all add: mongo_enc_def)
  have len: "length (mongo_enc m @ s) = length ?b + 16 + length s" using ids by (simp add: mongo_enc_def)
  show ?thesis
    by (subst mongo_loop.simps)
      (use max in \<open>simp only: Let_def u0 u12 body rest len parse_message [OF ok], simp add: case_prod_beta\<close>)
qed

lemma mongo_loop_part:
  assumes ok: "mongo_ok m" and s: "strict_prefix s (mongo_enc m)"
  shows "mongo_loop s = ([], s) \<and> length s \<le> maxMongoMessageLen"
proof -
  let ?b = "msg_body m"
  have ids: "length (ids m) = 8" and max: "length ?b + 16 \<le> maxMongoMessageLen" using ok by (simp_all add: mongo_ok_def)
  have lt: "length s < length ?b + 16" using prefix_length_less [OF s] ids by (simp add: mongo_enc_def)
  show ?thesis
  proof (cases "length s < 16")
    case True
    with lt max show ?thesis by (subst mongo_loop.simps) simp
  next
    case False
    with s strict_prefix_split [of s "le_bytes 4 (length ?b + 16)" "ids m @ le_bytes 4 (msg_op m) @ ?b"] obtain v
      where v: "s = le_bytes 4 (length ?b + 16) @ v" by (auto simp: mongo_enc_def)
    have "u32_at s 0 = length ?b + 16"
      using u32_at_append [of "length ?b + 16" "[]" v] max by (simp add: v maxMongoMessageLen_def)
    with False lt max show ?thesis by (subst mongo_loop.simps) (simp add: Let_def)
  qed
qed

lemma mongo_loop_end: "mongo_loop [] = ([], [])"
  by (subst mongo_loop.simps) simp

interpretation mongo: protocol_parser "\<lambda>_. mongo_ok" mongo_enc mongo_emit "\<lambda>_ _. ()"
    "\<lambda>_ b. (fst (mongo_drain b), (), snd (mongo_drain b))" "\<lambda>_. True"
proof unfold_locales
  fix m s
  assume ok: "mongo_ok m"
  show "(fst (mongo_drain (mongo_enc m @ s)), (), snd (mongo_drain (mongo_enc m @ s)))
      = (mongo_emit m @ fst (fst (mongo_drain s), (), snd (mongo_drain s)), snd (fst (mongo_drain s), (), snd (mongo_drain s)))"
    by (simp add: mongo_drain_def mongo_loop_msg [OF ok] Let_def case_prod_beta)
next
  fix q m s
  assume "mongo_ok m" "strict_prefix s (mongo_enc m)"
  from mongo_loop_part [OF this] show "(fst (mongo_drain s), (), snd (mongo_drain s)) = ([], q, s)"
    by (simp add: mongo_drain_def)
qed (simp_all add: mongo_drain_def mongo_loop_end)

lemma mongo_oks: "mongo.oks q ms \<longleftrightarrow> list_all mongo_ok ms"
  by (induction ms arbitrary: q) auto

lemma mongo_enc_nonempty: "mongo_enc m \<noteq> []"
  using length_le_bytes [of 4 "length (msg_body m) + 16"] by (auto simp: mongo_enc_def simp del: length_le_bytes)

lemma NewMongoSideEffect_untimed: "untimed (NewMongoSideEffect p t) = NewMongoSideEffect p 0"
  by (simp add: untimed_def NewMongoSideEffect_def)

text \<open>A find command with one condition, and the effect of a find command with a given filter.\<close>

definition find_msg :: "string \<Rightarrow> string \<Rightarrow> string \<Rightarrow> bson \<Rightarrow> mongo_msg" where
  "find_msg db coll key v =
     OpMsg (replicate 8 CHR 0x00) (replicate 4 CHR 0x00)
       [SecBody [(''find'', BString coll), (''filter'', BDoc [(key, v)]), (''$db'', BString db)]] []"

definition find_effect :: "string \<Rightarrow> string \<Rightarrow> (string, any) gomap \<Rightarrow> MongoSideEffect" where
  "find_effect db coll flt =
     \<lparr>mg_Database = db, mg_Collection = coll, mg_Operation = ''find'', mg_Filter = AnyMap flt,
      mg_Update = AnyNil, mg_Documents = AnyNil, mg_DocCount = 0\<rparr>"

section \<open>Properties\<close>

text \<open>
  The reader gives back a BSON document of the modelled kinds: every element under its key in
  the order of the document, sub-documents and arrays read the same way, the last of equal keys
  kept; doubles and object ids are left out, and 32-bit integers are read without their sign.
\<close>

theorem simpleBSONToMap_reads:
  assumes "elems_ok es" and "length (elems_enc es) + 5 < 2 ^ 32"
  shows "bson_map (bson_frame (elems_enc es)) = Some (elems_map es [])"
  using assms by (rule document_read)

theorem simpleBSONToMap_reads_witness:
  "bson_map (bson_frame (elems_enc [(''find'', BString ''users''), (''filter'', BDoc [(''age'', BInt64 (- 5)), (''w'', BDouble (replicate 8 CHR 0x41))])]))
     = Some [(''find'', AnyString ''users''), (''filter'', AnyMap [(''age'', AnyInt64 (- 5))])]"
  using simpleBSONToMap_reads [of "[(''find'', BString ''users''), (''filter'', BDoc [(''age'', BInt64 (- 5)), (''w'', BDouble (replicate 8 CHR 0x41))])]"]
  by (simp add: length_bson_frame)

lemma mongo_stream:
  assumes "list_all mongo_ok ms" and "concat (map snd calls) = concat (map mongo_enc ms)"
  shows "map untimed (fst (capture mongo_Feed [] calls)) = map (\<lambda>p. NewMongoSideEffect p 0) (concat (map mongo_emit ms))
     \<and> snd (capture mongo_Feed [] calls) = []"
proof -
  have "feed_all (\<lambda>b d. mongo_drain (b @ d)) [] (map snd calls) = (concat (map mongo_emit ms), [])"
    using mongo.feed_chunks [of "()" ms "map snd calls"] assms mongo_enc_nonempty
    by (simp add: mongo_oks feed_all_unit prod_eq_iff)
  moreover have "mongo_Feed now b d = (stamp NewMongoSideEffect now (fst (mongo_drain (b @ d))), snd (mongo_drain (b @ d)))" for now b d
    by (simp add: mongo_Feed_def Let_def case_prod_beta)
  note capture_untimed [where Feed = mongo_Feed and feed = "\<lambda>b d. mongo_drain (b @ d)", OF this NewMongoSideEffect_untimed]
  ultimately show ?thesis by simp
qed

text \<open>
  From a stream of MongoDB messages, cut into chunks in any way, the parser captures exactly
  one effect for each body section whose document is one of the eight commands, in order, and
  keeps nothing back; document sequences, checksums and messages of other kinds are passed over.
\<close>

theorem mongo_capture:
  assumes "list_all mongo_ok ms" and "concat (map snd calls) = concat (map mongo_enc ms)"
  shows "map untimed (fst (capture mongo_Feed [] calls)) = map (\<lambda>p. NewMongoSideEffect p 0) (concat (map mongo_emit ms))
     \<and> snd (capture mongo_Feed [] calls) = []"
  using assms by (rule mongo_stream)

theorem mongo_capture_witness:
  "map untimed (fst (capture mongo_Feed []
      [(\<lambda>i. 7, take 9 (mongo_enc (OpMsg (replicate 8 CHR 0x01) (replicate 4 CHR 0x00) [SecBody [(''count'', BString ''c''), (''$db'', BString ''d'')], SecSequence ''xyz''] []))),
       (\<lambda>i. 9, drop 9 (mongo_enc (OpMsg (replicate 8 CHR 0x01) (replicate 4 CHR 0x00) [SecBody [(''count'', BString ''c''), (''$db'', BString ''d'')], SecSequence ''xyz''] [])))]))
   = [NewMongoSideEffect \<lparr>mg_Database = ''d'', mg_Collection = ''c'', mg_Operation = ''count'', mg_Filter = AnyNil,
        mg_Update = AnyNil, mg_Documents = AnyNil, mg_DocCount = 0\<rparr> 0]"
  using mongo_capture [of "[OpMsg (replicate 8 CHR 0x01) (replicate 4 CHR 0x00) [SecBody [(''count'', BString ''c''), (''$db'', BString ''d'')], SecSequence ''xyz''] []]"
      "[(\<lambda>i. 7, take 9 (mongo_enc (OpMsg (replicate 8 CHR 0x01) (replicate 4 CHR 0x00) [SecBody [(''count'', BString ''c''), (''$db'', BString ''d'')], SecSequence ''xyz''] []))),
       (\<lambda>i. 9, drop 9 (mongo_enc (OpMsg (replicate 8 CHR 0x01) (replicate 4 CHR 0x00) [SecBody [(''count'', BString ''c''), (''$db'', BString ''d'')], SecSequence ''xyz''] [])))]"]
  by (simp add: mongo_ok_def maxMongoMessageLen_def length_bson_frame mongo_command_def mongoCommands_def any_string_def any_value_def
      del: capture.simps)

text \<open>
  Two find commands whose filters name different object ids, or different doubles, are
  captured as the same effect, with an empty filter; and a negative 32-bit integer is captured as
  a large positive one.
\<close>

theorem filter_values_lost:
  "mongo_emit (find_msg db coll key (BObjectId oid)) = [find_effect db coll []]
   \<and> mongo_emit (find_msg db coll key (BDouble d)) = [find_effect db coll []]
   \<and> mongo_emit (find_msg db coll key (BInt32 i)) = [find_effect db coll [(key, AnyInt (i mod 2 ^ 32))]]"
  by (simp add: find_msg_def find_effect_def mongo_command_def mongoCommands_def any_string_def any_value_def)

end
