(* ===== verification/Db_Hooks.thy ===== *)
theory Db_Hooks
  imports Sql_Parsers Redis_Parser Mongo_Parser
begin

text \<open>
  The database proxies (\<^verbatim>\<open>internal/capture/dbhook/tcp_proxy.go\<close> and \<^verbatim>\<open>hook.go\<close>). A hook listens for
  the service under record, forwards each connection to the real database and lets a parser look
  at what the client sends; a forwarder takes the effects from the hook's channel to the recorder.
  The goroutines of a hook, of its forwarder and of a caller of \<^verbatim>\<open>Flush\<close> or \<^verbatim>\<open>Stop\<close> are a step
  relation; a step is one operation on what they share.
\<close>

section \<open>Hooks and their parsers\<close>

text \<open>The four implementations of \<^verbatim>\<open>protocolParser\<close> with their states.\<close>

datatype parser =
    MySQLParser bytes
  | PostgresParser "bool \<times> bytes"
  | RedisParser "bool \<times> bytes"
  | MongoParser bytes

fun parser_Feed ::
  "(nat \<Rightarrow> nat) \<Rightarrow> (nat \<Rightarrow> nat) \<Rightarrow> (nat \<Rightarrow> int) \<Rightarrow> parser \<Rightarrow> bytes \<Rightarrow> SideEffect list \<times> parser" where
  "parser_Feed up low now (MySQLParser p) d = (let (es, p') = mysql_Feed now p d in (es, MySQLParser p'))"
| "parser_Feed up low now (PostgresParser p) d = (let (es, p') = pg_Feed now p d in (es, PostgresParser p'))"
| "parser_Feed up low now (RedisParser p) d = (let (es, p') = redis_Feed up low now p d in (es, RedisParser p'))"
| "parser_Feed up low now (MongoParser p) d = (let (es, p') = mongo_Feed now p d in (es, MongoParser p'))"

text \<open>Only the Redis parser panics; a panic ends the process.\<close>

fun parser_alive :: "parser \<Rightarrow> bool" where
  "parser_alive (RedisParser p) = fst p"
| "parser_alive p = True"

record Config =
  hc_DBType :: string
  hc_ListenAddr :: string
  hc_TargetAddr :: string

text \<open>The immutable part of a \<^verbatim>\<open>tcpProxy\<close>; \<open>px_newParser\<close> is what its \<^verbatim>\<open>newParser\<close> returns.\<close>

record tcpProxy =
  px_dbType :: string
  px_listenAddr :: string
  px_targetAddr :: string
  px_newParser :: parser

definition newTCPProxy :: "string \<Rightarrow> string \<Rightarrow> string \<Rightarrow> parser \<Rightarrow> tcpProxy" where
  "newTCPProxy dbType listenAddr targetAddr newParser =
     \<lparr>px_dbType = dbType, px_listenAddr = listenAddr, px_targetAddr = targetAddr, px_newParser = newParser\<rparr>"

definition NewMySQLHook :: "string \<Rightarrow> string \<Rightarrow> tcpProxy" where
  "NewMySQLHook listenAddr targetAddr = newTCPProxy MySQL listenAddr targetAddr (MySQLParser [])"

definition NewPostgresHook :: "string \<Rightarrow> string \<Rightarrow> tcpProxy" where
  "NewPostgresHook listenAddr targetAddr = newTCPProxy Postgres listenAddr targetAddr (PostgresParser (True, []))"

definition NewMongoHook :: "string \<Rightarrow> string \<Rightarrow> tcpProxy" where
  "NewMongoHook listenAddr targetAddr = newTCPProxy Mongo listenAddr targetAddr (MongoParser [])"

definition NewRedisHook :: "string \<Rightarrow> string \<Rightarrow> tcpProxy" where
  "NewRedisHook listenAddr targetAddr = newTCPProxy Redis listenAddr targetAddr (RedisParser (True, []))"

definition hookConstructors :: "(string, string \<Rightarrow> string \<Rightarrow> tcpProxy) gomap" where
  "hookConstructors = [(MySQL, NewMySQLHook), (Postgres, NewPostgresHook), (Mongo, NewMongoHook), (Redis, NewRedisHook)]"

datatype UnsupportedDBError = UnsupportedDBError string

fun unsupported_text :: "UnsupportedDBError \<Rightarrow> string" where
  "unsupported_text (UnsupportedDBError t) = ''unsupported database type: '' @ t"

definition NewHook :: "Config \<Rightarrow> UnsupportedDBError + tcpProxy" where
  "NewHook cfg =
     (case map_of hookConstructors (hc_DBType cfg) of
        Some mk \<Rightarrow> Inr (mk (hc_ListenAddr cfg) (hc_TargetAddr cfg))
      | None \<Rightarrow> Inl (UnsupportedDBError (hc_DBType cfg)))"

text \<open>
  A hook is made exactly for the supported database types, and its parser is the one of its type.
\<close>

lemma NewHook_Inr: "NewHook cfg = Inr px \<longleftrightarrow>
    (\<exists>p. map_of [(MySQL, MySQLParser []), (Postgres, PostgresParser (True, [])), (Mongo, MongoParser []),
            (Redis, RedisParser (True, []))] (hc_DBType cfg) = Some p
       \<and> px = newTCPProxy (hc_DBType cfg) (hc_ListenAddr cfg) (hc_TargetAddr cfg) p)"
  by (auto simp: NewHook_def hookConstructors_def NewMySQLHook_def NewPostgresHook_def NewMongoHook_def NewRedisHook_def)

section \<open>Connections\<close>

text \<open>
  What the goroutine \<^verbatim>\<open>sniffClientToServer\<close> is doing: it reads, or it has taken an acknowledgement
  channel and is in \<^verbatim>\<open>flushConn\<close> (the flag says whether for the caller that is followed here), or
  it has returned. Within an iteration it is about to read, or it is sending the effects of the
  bytes just read, with the error of that read to be looked at afterwards.
\<close>

datatype sniff_phase = Sniffing | Flushing bool | Ended

datatype read_error = NoError | TimeoutError | OtherError

datatype iteration = Top | Emitting read_error

text \<open>
  \<open>ac_calls\<close> are the calls of \<^verbatim>\<open>Feed\<close> so far, \<open>ac_parsed\<close> what they returned, and \<open>ac_next\<close> says how
  many of these have been offered to the channel; \<open>ac_copying\<close> holds while the goroutine that
  copies from the server to the client runs, \<open>ac_active\<close> while the connection is registered.
\<close>

record activeConn =
  ac_phase :: sniff_phase
  ac_iter :: iteration
  ac_parser :: parser
  ac_calls :: "((nat \<Rightarrow> int) \<times> bytes) list"
  ac_parsed :: "SideEffect list"
  ac_next :: nat
  ac_read :: bytes
  ac_forwarded :: bytes
  ac_broken :: bool
  ac_acked :: bool
  ac_copying :: bool
  ac_active :: bool

definition new_conn :: "tcpProxy \<Rightarrow> activeConn" where
  "new_conn px =
     \<lparr>ac_phase = Sniffing, ac_iter = Top, ac_parser = px_newParser px, ac_calls = [], ac_parsed = [], ac_next = 0,
      ac_read = [], ac_forwarded = [], ac_broken = False, ac_acked = False, ac_copying = True, ac_active = True\<rparr>"

text \<open>A read that was passed on to the server: the parser is fed; the effects are to be sent.\<close>

definition feed_conn ::
  "(nat \<Rightarrow> nat) \<Rightarrow> (nat \<Rightarrow> nat) \<Rightarrow> (nat \<Rightarrow> int) \<Rightarrow> bytes \<Rightarrow> read_error \<Rightarrow> activeConn \<Rightarrow> activeConn" where
  "feed_conn up low now d err c =
     (if d = [] then c\<lparr>ac_iter := Emitting err\<rparr>
      else let (es, p) = parser_Feed up low now (ac_parser c) d
           in c\<lparr>ac_iter := Emitting err, ac_parser := p, ac_calls := ac_calls c @ [(now, d)], ac_parsed := ac_parsed c @ es,
                ac_read := ac_read c @ d, ac_forwarded := ac_forwarded c @ d\<rparr>)"

text \<open>The end of \<^verbatim>\<open>flushConn\<close>: the acknowledgement is closed and the loop continues.\<close>

definition end_flush :: "bool \<Rightarrow> activeConn \<Rightarrow> activeConn" where
  "end_flush ours c = c\<lparr>ac_phase := Sniffing, ac_iter := Top, ac_acked := ac_acked c \<or> ours\<rparr>"

text \<open>A read whose bytes could not be written to the server: both loops return.\<close>

fun write_failed :: "bytes \<Rightarrow> activeConn \<Rightarrow> activeConn" where
  "write_failed d c =
     (let c' = c\<lparr>ac_read := ac_read c @ d, ac_broken := True\<rparr>
      in case ac_phase c of
           Flushing ours \<Rightarrow> end_flush ours c'
         | p \<Rightarrow> c'\<lparr>ac_phase := Ended, ac_iter := Top\<rparr>)"

text \<open>The error of a read: a timeout keeps the reading loop going and ends a flush.\<close>

fun end_iteration :: "read_error \<Rightarrow> activeConn \<Rightarrow> activeConn" where
  "end_iteration err c =
     (case (ac_phase c, err) of
        (p, NoError) \<Rightarrow> c\<lparr>ac_iter := Top\<rparr>
      | (Flushing ours, e) \<Rightarrow> end_flush ours c
      | (p, TimeoutError) \<Rightarrow> c\<lparr>ac_iter := Top\<rparr>
      | (p, OtherError) \<Rightarrow> c\<lparr>ac_phase := Ended, ac_iter := Top\<rparr>)"

section \<open>The system\<close>

text \<open>
  Effects on their way carry a tag: the connection that parsed them and their position among the
  effects of that connection.
\<close>

type_synonym tagged = "(nat \<times> nat) \<times> SideEffect"

definition hook_cap :: nat where
  "hook_cap = 1000"

text \<open>
  The goroutine of a forwarder: it selects; it has received an effect; it has counted it; it has
  delivered it; it holds an acknowledgement of the barrier; it has returned.
\<close>

datatype forwarder = FIdle | FTaken tagged | FCounted tagged | FSent | FBarrier | FGone

text \<open>
  A caller of \<^verbatim>\<open>Group.Flush\<close>: it offers an acknowledgement to the first connection of the list, waits
  for it, and then is in \<^verbatim>\<open>WaitDrained\<close>: the two tests, the offer of the barrier, its
  acknowledgement, the two tests again, and the wait for a tick.
\<close>

datatype flush_pc =
    Outside
  | Offering "nat list"
  | Awaiting "nat list"
  | CheckLen
  | CheckInFlight
  | OfferBarrier
  | AwaitBarrier bool
  | RecheckLen
  | RecheckInFlight
  | Ticking
  | Flushed

record hook =
  hk_conns :: "nat \<Rightarrow> activeConn option"
  hk_accepting :: bool
  hk_dialing :: nat
  hk_done :: bool
  hk_closed :: bool
  hk_ch :: "tagged list"
  hk_fw :: forwarder
  hk_inFlight :: int
  hk_sink :: "tagged list"
  hk_cancelled :: bool
  hk_pc :: flush_pc
  hk_err :: bool
  hk_sent :: "tagged list"
  hk_dropped :: "tagged list"

text \<open>After \<^verbatim>\<open>Start\<close>, with its forwarder.\<close>

definition hook_init :: hook where
  "hook_init =
     \<lparr>hk_conns = Map.empty, hk_accepting = True, hk_dialing = 0, hk_done = False, hk_closed = False, hk_ch = [],
      hk_fw = FIdle, hk_inFlight = 0, hk_sink = [], hk_cancelled = False, hk_pc = Outside, hk_err = False,
      hk_sent = [], hk_dropped = []\<rparr>"

definition set_conn :: "nat \<Rightarrow> activeConn \<Rightarrow> hook \<Rightarrow> hook" where
  "set_conn k c y = y\<lparr>hk_conns := (hk_conns y)(k \<mapsto> c)\<rparr>"

text \<open>One turn of the loop of \<^verbatim>\<open>emit\<close>: send, or drop when the channel is full.\<close>

definition emit_effect :: "nat \<Rightarrow> activeConn \<Rightarrow> hook \<Rightarrow> hook" where
  "emit_effect k c y =
     (let e = ((k, ac_next c), ac_parsed c ! ac_next c);
          y' = set_conn k (c\<lparr>ac_next := Suc (ac_next c)\<rparr>) y
      in if length (hk_ch y) < hook_cap then y'\<lparr>hk_ch := hk_ch y @ [e], hk_sent := hk_sent y @ [e]\<rparr>
         else y'\<lparr>hk_dropped := hk_dropped y @ [e]\<rparr>)"

definition snapshotActiveConns :: "hook \<Rightarrow> nat list \<Rightarrow> bool" where
  "snapshotActiveConns y ks \<longleftrightarrow> distinct ks \<and> set ks = {k. \<exists>c. hk_conns y k = Some c \<and> ac_active c}"

text \<open>The tests \<^verbatim>\<open>len(f.source) == 0\<close> and \<^verbatim>\<open>f.inFlight.Load() == 0\<close> are two operations.\<close>

fun test_len :: "flush_pc \<Rightarrow> bool \<Rightarrow> flush_pc" where
  "test_len CheckLen isEmpty = (if isEmpty then CheckInFlight else Ticking)"
| "test_len RecheckLen isEmpty = (if isEmpty then RecheckInFlight else Ticking)"
| "test_len pc isEmpty = pc"

fun test_inFlight :: "flush_pc \<Rightarrow> bool \<Rightarrow> flush_pc" where
  "test_inFlight CheckInFlight zero = (if zero then OfferBarrier else Ticking)"
| "test_inFlight RecheckInFlight zero = (if zero then Flushed else Ticking)"
| "test_inFlight pc zero = pc"

inductive hook_step :: "(nat \<Rightarrow> nat) \<Rightarrow> (nat \<Rightarrow> nat) \<Rightarrow> tcpProxy \<Rightarrow> hook \<Rightarrow> hook \<Rightarrow> bool" for up low px where
  Accept: "hk_accepting y \<Longrightarrow> hook_step up low px y (y\<lparr>hk_dialing := Suc (hk_dialing y)\<rparr>)"
| DialFails: "hk_dialing y = Suc n \<Longrightarrow> hook_step up low px y (y\<lparr>hk_dialing := n\<rparr>)"
| Register: "hk_dialing y = Suc n \<Longrightarrow> hk_conns y k = None \<Longrightarrow>
    hook_step up low px y (set_conn k (new_conn px) (y\<lparr>hk_dialing := n\<rparr>))"
| AcceptorExit: "hk_done y \<or> hk_cancelled y \<Longrightarrow> hook_step up low px y (y\<lparr>hk_accepting := False\<rparr>)"
| Read: "hk_conns y k = Some c \<Longrightarrow> ac_phase c \<noteq> Ended \<Longrightarrow> ac_iter c = Top \<Longrightarrow>
    parser_alive (ac_parser (feed_conn up low now d err c)) \<Longrightarrow>
    hook_step up low px y (set_conn k (feed_conn up low now d err c) y)"
| WriteFails: "hk_conns y k = Some c \<Longrightarrow> ac_phase c \<noteq> Ended \<Longrightarrow> ac_iter c = Top \<Longrightarrow>
    hook_step up low px y (set_conn k (write_failed d c) y)"
| EmitOne: "hk_conns y k = Some c \<Longrightarrow> ac_iter c = Emitting err \<Longrightarrow> ac_next c < length (ac_parsed c) \<Longrightarrow>
    hook_step up low px y (emit_effect k c y)"
| EndIteration: "hk_conns y k = Some c \<Longrightarrow> ac_iter c = Emitting err \<Longrightarrow> ac_next c = length (ac_parsed c) \<Longrightarrow>
    hook_step up low px y (set_conn k (end_iteration err c) y)"
| IdleExpired: "hk_conns y k = Some c \<Longrightarrow> ac_phase c = Flushing ours \<Longrightarrow> ac_iter c = Top \<Longrightarrow>
    hook_step up low px y (set_conn k (end_flush ours c) y)"
| TakeOther: "hk_conns y k = Some c \<Longrightarrow> ac_phase c = Sniffing \<Longrightarrow> ac_iter c = Top \<Longrightarrow>
    hook_step up low px y (set_conn k (c\<lparr>ac_phase := Flushing False\<rparr>) y)"
| CopyEnds: "hk_conns y k = Some c \<Longrightarrow> hook_step up low px y (set_conn k (c\<lparr>ac_copying := False\<rparr>) y)"
| Unregister: "hk_conns y k = Some c \<Longrightarrow> ac_phase c = Ended \<Longrightarrow> \<not> ac_copying c \<Longrightarrow>
    hook_step up low px y (set_conn k (c\<lparr>ac_active := False\<rparr>) y)"
| StopCalled: "hook_step up low px y (y\<lparr>hk_done := True\<rparr>)"
| StopReturns: "hk_done y \<Longrightarrow> \<not> hk_accepting y \<Longrightarrow> hk_dialing y = 0 \<Longrightarrow> \<forall>c\<in>ran (hk_conns y). \<not> ac_active c \<Longrightarrow>
    hook_step up low px y (y\<lparr>hk_closed := True\<rparr>)"
| Cancel: "hook_step up low px y (y\<lparr>hk_cancelled := True\<rparr>)"
| FwReceive: "hk_fw y = FIdle \<Longrightarrow> hk_ch y = e # es \<Longrightarrow> hook_step up low px y (y\<lparr>hk_fw := FTaken e, hk_ch := es\<rparr>)"
| FwCount: "hk_fw y = FTaken e \<Longrightarrow> hook_step up low px y (y\<lparr>hk_fw := FCounted e, hk_inFlight := hk_inFlight y + 1\<rparr>)"
| FwSend: "hk_fw y = FCounted e \<Longrightarrow> hook_step up low px y (y\<lparr>hk_fw := FSent, hk_sink := hk_sink y @ [e]\<rparr>)"
| FwUncount: "hk_fw y = FSent \<Longrightarrow> hook_step up low px y (y\<lparr>hk_fw := FIdle, hk_inFlight := hk_inFlight y - 1\<rparr>)"
| FwBarrier: "hk_fw y = FIdle \<Longrightarrow> hk_pc y = OfferBarrier \<Longrightarrow>
    hook_step up low px y (y\<lparr>hk_fw := FBarrier, hk_pc := AwaitBarrier False\<rparr>)"
| FwAck: "hk_fw y = FBarrier \<Longrightarrow>
    hook_step up low px y (y\<lparr>hk_fw := FIdle, hk_pc := (if hk_pc y = AwaitBarrier False then AwaitBarrier True else hk_pc y)\<rparr>)"
| FwSourceClosed: "hk_fw y = FIdle \<Longrightarrow> hk_closed y \<Longrightarrow> hk_ch y = [] \<Longrightarrow> hook_step up low px y (y\<lparr>hk_fw := FGone\<rparr>)"
| FwCancelled: "hk_fw y = FIdle \<Longrightarrow> hk_cancelled y \<Longrightarrow> hook_step up low px y (y\<lparr>hk_fw := FGone\<rparr>)"
| FwCancelledSending: "hk_fw y = FCounted e \<Longrightarrow> hk_cancelled y \<Longrightarrow>
    hook_step up low px y (y\<lparr>hk_fw := FGone, hk_inFlight := hk_inFlight y - 1\<rparr>)"
| FlushCall: "hk_pc y = Outside \<Longrightarrow> snapshotActiveConns y ks \<Longrightarrow> hook_step up low px y (y\<lparr>hk_pc := Offering ks\<rparr>)"
| TakeFlush: "hk_pc y = Offering (k # ks) \<Longrightarrow> hk_conns y k = Some c \<Longrightarrow> ac_phase c = Sniffing \<Longrightarrow> ac_iter c = Top \<Longrightarrow>
    hook_step up low px y (set_conn k (c\<lparr>ac_phase := Flushing True\<rparr>) (y\<lparr>hk_pc := Awaiting (k # ks)\<rparr>))"
| FlushGone: "hk_pc y = Offering (k # ks) \<Longrightarrow> hk_conns y k = Some c \<Longrightarrow> ac_phase c = Ended \<Longrightarrow>
    hook_step up low px y (y\<lparr>hk_pc := Offering ks\<rparr>)"
| FlushAcked: "hk_pc y = Awaiting (k # ks) \<Longrightarrow> hk_conns y k = Some c \<Longrightarrow> ac_acked c \<or> ac_phase c = Ended \<Longrightarrow>
    hook_step up low px y (y\<lparr>hk_pc := Offering ks\<rparr>)"
| FlushTimeout: "hk_pc y \<in> {Offering (k # ks), Awaiting (k # ks)} \<Longrightarrow>
    hook_step up low px y (y\<lparr>hk_pc := CheckLen, hk_err := True\<rparr>)"
| FlushConnsDone: "hk_pc y = Offering [] \<Longrightarrow> hook_step up low px y (y\<lparr>hk_pc := CheckLen\<rparr>)"
| TestLen: "hk_pc y \<in> {CheckLen, RecheckLen} \<Longrightarrow> hook_step up low px y (y\<lparr>hk_pc := test_len (hk_pc y) (hk_ch y = [])\<rparr>)"
| TestInFlight: "hk_pc y \<in> {CheckInFlight, RecheckInFlight} \<Longrightarrow>
    hook_step up low px y (y\<lparr>hk_pc := test_inFlight (hk_pc y) (hk_inFlight y = 0)\<rparr>)"
| BarrierAcked: "hk_pc y = AwaitBarrier True \<Longrightarrow> hook_step up low px y (y\<lparr>hk_pc := RecheckLen\<rparr>)"
| BarrierGone: "hk_fw y = FGone \<Longrightarrow> hk_pc y \<in> {OfferBarrier, AwaitBarrier b} \<Longrightarrow>
    hook_step up low px y (y\<lparr>hk_pc := (if hk_pc y = OfferBarrier \<and> hk_inFlight y \<noteq> 0 then AwaitBarrier False else RecheckLen)\<rparr>)"
| DrainTimeout: "hk_pc y \<in> {OfferBarrier, AwaitBarrier b, Ticking} \<Longrightarrow>
    hook_step up low px y (y\<lparr>hk_pc := Flushed, hk_err := True\<rparr>)"
| Tick: "hk_pc y = Ticking \<Longrightarrow> hook_step up low px y (y\<lparr>hk_pc := CheckLen\<rparr>)"
| TickGone: "hk_pc y = Ticking \<Longrightarrow> hk_fw y = FGone \<Longrightarrow>
    hook_step up low px y (y\<lparr>hk_pc := (if hk_inFlight y = 0 then Flushed else CheckLen)\<rparr>)"

abbreviation hook_run :: "(nat \<Rightarrow> nat) \<Rightarrow> (nat \<Rightarrow> nat) \<Rightarrow> tcpProxy \<Rightarrow> hook \<Rightarrow> hook \<Rightarrow> bool" where
  "hook_run up low px \<equiv> (hook_step up low px)\<^sup>*\<^sup>*"

section \<open>Invariants\<close>

text \<open>What a connection has done: the parser state is that of its calls, and nothing is skipped.\<close>

definition conn_ok :: "(nat \<Rightarrow> nat) \<Rightarrow> (nat \<Rightarrow> nat) \<Rightarrow> tcpProxy \<Rightarrow> activeConn \<Rightarrow> bool" where
  "conn_ok up low px c \<longleftrightarrow>
     capture (parser_Feed up low) (px_newParser px) (ac_calls c) = (ac_parsed c, ac_parser c)
     \<and> ac_forwarded c = concat (map snd (ac_calls c)) \<and> (\<not> ac_broken c \<longrightarrow> ac_read c = ac_forwarded c)
     \<and> ac_next c \<le> length (ac_parsed c) \<and> (ac_iter c = Top \<longrightarrow> ac_next c = length (ac_parsed c))
     \<and> (ac_phase c = Ended \<longrightarrow> ac_iter c = Top) \<and> (\<not> ac_active c \<longrightarrow> ac_phase c = Ended \<and> \<not> ac_copying c)"

fun held :: "forwarder \<Rightarrow> tagged list" where
  "held (FTaken e) = [e]"
| "held (FCounted e) = [e]"
| "held f = []"

definition tags_of :: "hook \<Rightarrow> (nat \<times> nat) set" where
  "tags_of y = {(k, i) |k i c. hk_conns y k = Some c \<and> i < ac_next c}"

definition hook_inv :: "(nat \<Rightarrow> nat) \<Rightarrow> (nat \<Rightarrow> nat) \<Rightarrow> tcpProxy \<Rightarrow> hook \<Rightarrow> bool" where
  "hook_inv up low px y \<longleftrightarrow>
     (\<forall>k c. hk_conns y k = Some c \<longrightarrow> conn_ok up low px c)
     \<and> fst ` set (hk_sent y @ hk_dropped y) = tags_of y \<and> distinct (map fst (hk_sent y @ hk_dropped y))
     \<and> (\<forall>x\<in>set (hk_sent y @ hk_dropped y). \<exists>c. hk_conns y (fst (fst x)) = Some c \<and> snd x = ac_parsed c ! snd (fst x))
     \<and> (if hk_fw y = FGone then \<exists>lost. hk_sent y = hk_sink y @ lost @ hk_ch y
        else hk_sent y = hk_sink y @ held (hk_fw y) @ hk_ch y)
     \<and> length (hk_ch y) \<le> hook_cap
     \<and> hk_inFlight y = (case hk_fw y of FCounted e \<Rightarrow> 1 | FSent \<Rightarrow> 1 | _ \<Rightarrow> 0)
     \<and> (hk_closed y \<longrightarrow> hk_done y \<and> \<not> hk_accepting y \<and> hk_dialing y = 0 \<and> (\<forall>k c. hk_conns y k = Some c \<longrightarrow> \<not> ac_active c))"

lemma hook_inv_init: "hook_inv up low px hook_init"
  by (simp add: hook_inv_def hook_init_def tags_of_def)

lemma capture_snoc:
  "capture Feed s (calls @ [(now, d)]) =
     (fst (capture Feed s calls) @ fst (Feed now (snd (capture Feed s calls)) d), snd (Feed now (snd (capture Feed s calls)) d))"
proof (induction calls arbitrary: s)
  case (Cons x calls)
  then show ?case by (cases x) (simp add: Let_def case_prod_beta)
qed (simp add: Let_def case_prod_beta)

lemma conn_ok_new: "conn_ok up low px (new_conn px)"
  by (simp add: conn_ok_def new_conn_def)

lemma conn_ok_feed:
  "conn_ok up low px c \<Longrightarrow> ac_phase c \<noteq> Ended \<Longrightarrow> ac_iter c = Top \<Longrightarrow> conn_ok up low px (feed_conn up low now d err c)"
  by (auto simp: conn_ok_def feed_conn_def capture_snoc Let_def case_prod_beta)

lemma end_flush_sel [simp]:
  "ac_phase (end_flush b c) = Sniffing" "ac_iter (end_flush b c) = Top" "ac_next (end_flush b c) = ac_next c"
  "ac_parsed (end_flush b c) = ac_parsed c" "ac_active (end_flush b c) = ac_active c" "ac_acked (end_flush b c) = (ac_acked c \<or> b)"
  "ac_calls (end_flush b c) = ac_calls c" "ac_parser (end_flush b c) = ac_parser c" "ac_forwarded (end_flush b c) = ac_forwarded c"
  "ac_read (end_flush b c) = ac_read c" "ac_broken (end_flush b c) = ac_broken c" "ac_copying (end_flush b c) = ac_copying c"
  by (simp_all add: end_flush_def)

lemma conn_ok_end_flush:
  "conn_ok up low px c \<Longrightarrow> ac_phase c \<noteq> Ended \<Longrightarrow> ac_next c = length (ac_parsed c) \<Longrightarrow> conn_ok up low px (end_flush b c)"
  by (auto simp: conn_ok_def)

lemma conn_ok_write_failed:
  "conn_ok up low px c \<Longrightarrow> ac_phase c \<noteq> Ended \<Longrightarrow> ac_iter c = Top \<Longrightarrow> conn_ok up low px (write_failed d c)"
  by (auto simp: conn_ok_def Let_def split: sniff_phase.splits)

lemma conn_ok_end_iteration:
  "conn_ok up low px c \<Longrightarrow> ac_iter c = Emitting err \<Longrightarrow> ac_next c = length (ac_parsed c) \<Longrightarrow> conn_ok up low px (end_iteration err c)"
  by (auto simp: conn_ok_def split: sniff_phase.splits read_error.splits)

lemma loop_sel [simp]:
  "ac_next (feed_conn up low now d err c) = ac_next c" "ac_active (feed_conn up low now d err c) = ac_active c"
  "ac_acked (feed_conn up low now d err c) = ac_acked c" "ac_phase (feed_conn up low now d err c) = ac_phase c"
  "ac_next (write_failed d c) = ac_next c" "ac_active (write_failed d c) = ac_active c" "ac_parsed (write_failed d c) = ac_parsed c"
  "ac_next (end_iteration err c) = ac_next c" "ac_active (end_iteration err c) = ac_active c" "ac_parsed (end_iteration err c) = ac_parsed c"
  by (auto simp: feed_conn_def Let_def case_prod_beta split: sniff_phase.splits read_error.splits)

lemma feed_conn_parsed: "\<exists>es. ac_parsed (feed_conn up low now d err c) = ac_parsed c @ es"
  by (auto simp: feed_conn_def Let_def case_prod_beta)

lemma set_conn_sel [simp]:
  "hk_conns (set_conn k c y) = (hk_conns y)(k \<mapsto> c)" "hk_sent (set_conn k c y) = hk_sent y" "hk_dropped (set_conn k c y) = hk_dropped y"
  "hk_ch (set_conn k c y) = hk_ch y" "hk_fw (set_conn k c y) = hk_fw y" "hk_sink (set_conn k c y) = hk_sink y"
  "hk_inFlight (set_conn k c y) = hk_inFlight y" "hk_closed (set_conn k c y) = hk_closed y" "hk_done (set_conn k c y) = hk_done y"
  "hk_accepting (set_conn k c y) = hk_accepting y" "hk_dialing (set_conn k c y) = hk_dialing y" "hk_pc (set_conn k c y) = hk_pc y"
  "hk_err (set_conn k c y) = hk_err y" "hk_cancelled (set_conn k c y) = hk_cancelled y"
  by (simp_all add: set_conn_def)

lemma tags_of_set_conn:
  assumes "hk_conns y k = Some c" "ac_next c' = ac_next c"
  shows "tags_of (set_conn k c' y) = tags_of y"
  using assms by (auto simp: tags_of_def split: if_splits)

text \<open>A step of one connection that offers nothing keeps the invariant.\<close>

lemma hook_inv_set_conn:
  assumes inv: "hook_inv up low px y" and c: "hk_conns y k = Some c" and ok: "conn_ok up low px c \<Longrightarrow> conn_ok up low px c'"
    and n: "ac_next c' = ac_next c" and p: "\<exists>es. ac_parsed c' = ac_parsed c @ es" and a: "ac_active c' \<Longrightarrow> ac_active c"
  shows "hook_inv up low px (set_conn k c' y)"
proof -
  have okc: "conn_ok up low px c" using inv c by (simp add: hook_inv_def)
  have "\<exists>d. hk_conns (set_conn k c' y) (fst (fst x)) = Some d \<and> snd x = ac_parsed d ! snd (fst x)"
    if x: "x \<in> set (hk_sent y @ hk_dropped y)" for x
  proof -
    from inv x obtain d where d: "hk_conns y (fst (fst x)) = Some d" "snd x = ac_parsed d ! snd (fst x)"
      unfolding hook_inv_def by blast
    show ?thesis
    proof (cases "fst (fst x) = k")
      case True
      from x inv have "fst x \<in> tags_of y" unfolding hook_inv_def by blast
      with True c have "snd (fst x) < ac_next c" by (auto simp: tags_of_def)
      with okc have "snd (fst x) < length (ac_parsed c)" by (simp add: conn_ok_def)
      with True d c p show ?thesis by (auto simp: nth_append)
    qed (use d in simp)
  qed
  then show ?thesis
    using inv c ok a tags_of_set_conn [OF c n] unfolding hook_inv_def by auto
qed

lemma hook_inv_emit:
  assumes inv: "hook_inv up low px y" and c: "hk_conns y k = Some c" and n: "ac_next c < length (ac_parsed c)"
  shows "hook_inv up low px (emit_effect k c y)"
proof -
  let ?e = "((k, ac_next c), ac_parsed c ! ac_next c)" and ?c' = "c\<lparr>ac_next := Suc (ac_next c)\<rparr>"
  have okc: "conn_ok up low px c" using inv c by (simp add: hook_inv_def)
  with n have ok: "conn_ok up low px ?c'" by (auto simp: conn_ok_def)
  have tags: "tags_of (emit_effect k c y) = insert (k, ac_next c) (tags_of y)"
    using c by (auto simp: tags_of_def emit_effect_def Let_def less_Suc_eq split: if_splits)
  have new: "(k, ac_next c) \<notin> tags_of y" using c by (simp add: tags_of_def)
  have old: "\<exists>d. hk_conns (emit_effect k c y) (fst (fst x)) = Some d \<and> snd x = ac_parsed d ! snd (fst x)"
    if "x \<in> set (hk_sent y @ hk_dropped y)" for x
  proof -
    from inv that obtain d where "hk_conns y (fst (fst x)) = Some d" "snd x = ac_parsed d ! snd (fst x)"
      unfolding hook_inv_def by blast
    with c show ?thesis by (cases "fst (fst x) = k") (auto simp: emit_effect_def Let_def)
  qed
  have active: "ac_active c \<or> ac_next c = length (ac_parsed c)" using okc by (auto simp: conn_ok_def)
  have f: "fst ` set (hk_sent y @ hk_dropped y) = tags_of y" "distinct (map fst (hk_sent y @ hk_dropped y))"
    using inv by (simp_all add: hook_inv_def)
  show ?thesis
  proof (cases "length (hk_ch y) < hook_cap")
    case True
    then have s: "emit_effect k c y = (set_conn k ?c' y)\<lparr>hk_ch := hk_ch y @ [?e], hk_sent := hk_sent y @ [?e]\<rparr>"
      by (simp add: emit_effect_def Let_def)
    have "distinct (map fst ((hk_sent y @ [?e]) @ hk_dropped y))" using f new by auto
    moreover have "fst ` set ((hk_sent y @ [?e]) @ hk_dropped y) = insert (k, ac_next c) (tags_of y)" using f(1) by auto
    ultimately show ?thesis
      using inv ok old tags True active n c unfolding hook_inv_def s by (auto simp: hook_cap_def)
  next
    case False
    then have s: "emit_effect k c y = (set_conn k ?c' y)\<lparr>hk_dropped := hk_dropped y @ [?e]\<rparr>"
      by (simp add: emit_effect_def Let_def)
    have "distinct (map fst (hk_sent y @ hk_dropped y @ [?e]))" using f new by auto
    moreover have "fst ` set (hk_sent y @ hk_dropped y @ [?e]) = insert (k, ac_next c) (tags_of y)" using f(1) by auto
    ultimately show ?thesis
      using inv ok old tags False active n c unfolding hook_inv_def s by auto
  qed
qed

lemma tags_of_update [simp]:
  "tags_of (y\<lparr>hk_accepting := a\<rparr>) = tags_of y" "tags_of (y\<lparr>hk_dialing := n\<rparr>) = tags_of y" "tags_of (y\<lparr>hk_done := b\<rparr>) = tags_of y"
  "tags_of (y\<lparr>hk_closed := b\<rparr>) = tags_of y" "tags_of (y\<lparr>hk_ch := ch\<rparr>) = tags_of y" "tags_of (y\<lparr>hk_fw := f\<rparr>) = tags_of y"
  "tags_of (y\<lparr>hk_inFlight := i\<rparr>) = tags_of y" "tags_of (y\<lparr>hk_sink := ch\<rparr>) = tags_of y" "tags_of (y\<lparr>hk_cancelled := b\<rparr>) = tags_of y"
  "tags_of (y\<lparr>hk_pc := p\<rparr>) = tags_of y" "tags_of (y\<lparr>hk_err := b\<rparr>) = tags_of y"
  by (simp_all add: tags_of_def)

lemma hook_inv_pc: "hook_inv up low px y \<Longrightarrow> hook_inv up low px (y\<lparr>hk_pc := p\<rparr>)" "hook_inv up low px y \<Longrightarrow> hook_inv up low px (y\<lparr>hk_err := b\<rparr>)"
  by (simp_all add: hook_inv_def)

lemma hook_inv_register:
  assumes inv: "hook_inv up low px y" and d: "hk_dialing y = Suc n" and k: "hk_conns y k = None"
  shows "hook_inv up low px (set_conn k (new_conn px) (y\<lparr>hk_dialing := n\<rparr>))"
proof -
  let ?y = "set_conn k (new_conn px) (y\<lparr>hk_dialing := n\<rparr>)"
  have "tags_of ?y = tags_of y" using k by (auto simp: tags_of_def new_conn_def split: if_splits)
  moreover have "\<exists>d. hk_conns ?y (fst (fst x)) = Some d \<and> snd x = ac_parsed d ! snd (fst x)"
    if "x \<in> set (hk_sent y @ hk_dropped y)" for x
  proof -
    from inv that obtain d where "hk_conns y (fst (fst x)) = Some d" "snd x = ac_parsed d ! snd (fst x)"
      unfolding hook_inv_def by blast
    with k show ?thesis by auto
  qed
  ultimately show ?thesis using inv d conn_ok_new [of up low px] unfolding hook_inv_def by auto
qed

definition fw_ok :: "hook \<Rightarrow> bool" where
  "fw_ok y \<longleftrightarrow>
     (if hk_fw y = FGone then \<exists>lost. hk_sent y = hk_sink y @ lost @ hk_ch y
      else hk_sent y = hk_sink y @ held (hk_fw y) @ hk_ch y)
     \<and> length (hk_ch y) \<le> hook_cap
     \<and> hk_inFlight y = (case hk_fw y of FCounted e \<Rightarrow> 1 | FSent \<Rightarrow> 1 | _ \<Rightarrow> 0)"

lemma fw_okI: "hook_inv up low px y \<Longrightarrow> fw_ok y"
  by (simp add: hook_inv_def fw_ok_def)

text \<open>A step of the forwarder.\<close>

lemma hook_inv_fw:
  "hook_inv up low px y \<Longrightarrow> (fw_ok y \<Longrightarrow> fw_ok y') \<Longrightarrow> hk_conns y' = hk_conns y \<Longrightarrow> hk_sent y' = hk_sent y \<Longrightarrow>
   hk_dropped y' = hk_dropped y \<Longrightarrow> hk_closed y' = hk_closed y \<Longrightarrow> hk_done y' = hk_done y \<Longrightarrow>
   hk_accepting y' = hk_accepting y \<Longrightarrow> hk_dialing y' = hk_dialing y \<Longrightarrow> hook_inv up low px y'"
  unfolding hook_inv_def tags_of_def fw_ok_def by (simp only:) blast

lemma hook_inv_step: "hook_step up low px y y' \<Longrightarrow> hook_inv up low px y \<Longrightarrow> hook_inv up low px y'"
proof (induction rule: hook_step.induct)
  case (Register y n k)
  then show ?case by (intro hook_inv_register)
next
  case (Read y k c now d err)
  then show ?case
    by (intro hook_inv_set_conn [where c = c]) (auto intro: conn_ok_feed feed_conn_parsed simp: feed_conn_parsed)
next
  case (WriteFails y k c d)
  then show ?case by (intro hook_inv_set_conn [where c = c]) (auto intro: conn_ok_write_failed simp del: write_failed.simps)
next
  case (EmitOne y k c err)
  then show ?case by (intro hook_inv_emit)
next
  case (EndIteration y k c err)
  then show ?case by (intro hook_inv_set_conn [where c = c]) (auto intro: conn_ok_end_iteration simp del: end_iteration.simps)
next
  case (IdleExpired y k c ours)
  then show ?case by (intro hook_inv_set_conn [where c = c]) (auto intro!: conn_ok_end_flush simp: conn_ok_def)
next
  case (TakeOther y k c)
  then show ?case by (intro hook_inv_set_conn [where c = c]) (auto simp: conn_ok_def)
next
  case (CopyEnds y k c)
  then show ?case by (intro hook_inv_set_conn [where c = c]) (auto simp: conn_ok_def)
next
  case (Unregister y k c)
  then show ?case by (intro hook_inv_set_conn [where c = c]) (auto simp: conn_ok_def)
next
  case (StopReturns y)
  then show ?case by (auto simp: hook_inv_def ran_def)
next
  case (TakeFlush y k ks c)
  have "hook_inv up low px (y\<lparr>hk_pc := Awaiting (k # ks)\<rparr>)" using TakeFlush by (intro hook_inv_pc)
  then show ?case by (rule hook_inv_set_conn [where c = c]) (use TakeFlush in \<open>auto simp: conn_ok_def\<close>)
next
  case (FlushTimeout y k ks)
  then show ?case using hook_inv_pc(2) [OF hook_inv_pc(1)] by simp
next
  case (DrainTimeout y b)
  then show ?case using hook_inv_pc(2) [OF hook_inv_pc(1)] by simp
next
  case (Accept y)
  then show ?case by (auto simp: hook_inv_def)
next
  case (DialFails y n)
  then show ?case by (auto simp: hook_inv_def)
next
  case (AcceptorExit y)
  then show ?case by (simp add: hook_inv_def)
next
  case (StopCalled y)
  then show ?case by (simp add: hook_inv_def)
next
  case (Cancel y)
  then show ?case by (simp add: hook_inv_def)
next
  case (FwReceive y e es)
  then show ?case by - (rule hook_inv_fw [of up low px y], auto simp: fw_ok_def)
next
  case (FwCount y e)
  then show ?case by - (rule hook_inv_fw [of up low px y], auto simp: fw_ok_def)
next
  case (FwSend y e)
  then show ?case by - (rule hook_inv_fw [of up low px y], auto simp: fw_ok_def)
next
  case (FwUncount y)
  then show ?case by - (rule hook_inv_fw [of up low px y], auto simp: fw_ok_def)
next
  case (FwBarrier y)
  then show ?case by - (rule hook_inv_fw [of up low px y], auto simp: fw_ok_def)
next
  case (FwAck y)
  then show ?case by - (rule hook_inv_fw [of up low px y], auto simp: fw_ok_def)
next
  case (FwSourceClosed y)
  then show ?case by - (rule hook_inv_fw [of up low px y], auto simp: fw_ok_def)
next
  case (FwCancelled y)
  then show ?case by - (rule hook_inv_fw [of up low px y], auto simp: fw_ok_def)
next
  case (FwCancelledSending y e)
  then show ?case by - (rule hook_inv_fw [of up low px y], auto simp: fw_ok_def)
qed (rule hook_inv_pc, assumption)+

lemma hook_inv_run: "hook_run up low px y y' \<Longrightarrow> hook_inv up low px y \<Longrightarrow> hook_inv up low px y'"
  by (induction rule: rtranclp_induct) (auto intro: hook_inv_step)

section \<open>What a flush delivers\<close>

definition parsed_count :: "hook \<Rightarrow> nat \<Rightarrow> nat" where
  "parsed_count y k = (case hk_conns y k of None \<Rightarrow> 0 | Some c \<Rightarrow> length (ac_parsed c))"

definition next_count :: "hook \<Rightarrow> nat \<Rightarrow> nat" where
  "next_count y k = (case hk_conns y k of None \<Rightarrow> 0 | Some c \<Rightarrow> ac_next c)"

definition grows :: "hook \<Rightarrow> hook \<Rightarrow> bool" where
  "grows y y' \<longleftrightarrow>
     (\<forall>k. parsed_count y k \<le> parsed_count y' k \<and> next_count y k \<le> next_count y' k)
     \<and> set (hk_sink y) \<subseteq> set (hk_sink y') \<and> set (hk_dropped y) \<subseteq> set (hk_dropped y')
     \<and> (hk_fw y = FGone \<longrightarrow> hk_fw y' = FGone)
     \<and> (hk_fw y' \<noteq> FGone \<longrightarrow> set (hk_sink y) \<union> set (held (hk_fw y)) \<subseteq> set (hk_sink y') \<union> set (held (hk_fw y')))"

lemma grows_same:
  "hk_conns y' = hk_conns y \<Longrightarrow> hk_sink y' = hk_sink y \<Longrightarrow> hk_dropped y' = hk_dropped y \<Longrightarrow> hk_fw y' = hk_fw y \<Longrightarrow> grows y y'"
  by (simp add: grows_def parsed_count_def next_count_def)

lemma grows_fw:
  "hk_conns y' = hk_conns y \<Longrightarrow> hk_dropped y' = hk_dropped y \<Longrightarrow> hk_fw y \<noteq> FGone \<Longrightarrow> set (hk_sink y) \<subseteq> set (hk_sink y') \<Longrightarrow>
   hk_fw y' = FGone \<or> set (held (hk_fw y)) \<subseteq> set (hk_sink y') \<union> set (held (hk_fw y')) \<Longrightarrow> grows y y'"
  by (auto simp: grows_def parsed_count_def next_count_def)

lemma grows_conn:
  assumes "hk_conns y k = Some c" "hk_conns y' = (hk_conns y)(k \<mapsto> c')" "hk_sink y' = hk_sink y" "hk_fw y' = hk_fw y"
    "set (hk_dropped y) \<subseteq> set (hk_dropped y')" "ac_next c \<le> ac_next c'" "length (ac_parsed c) \<le> length (ac_parsed c')"
  shows "grows y y'"
  using assms by (auto simp: grows_def parsed_count_def next_count_def)

lemma grows_step: "hook_step up low px y y' \<Longrightarrow> grows y y'"
proof (induction rule: hook_step.induct)
  case (Register y n k)
  then show ?case by (auto simp: grows_def parsed_count_def next_count_def)
next
  case (Read y k c now d err)
  obtain es where "ac_parsed (feed_conn up low now d err c) = ac_parsed c @ es" using feed_conn_parsed by blast
  with Read show ?case by (intro grows_conn [of _ k c _ "feed_conn up low now d err c"]) simp_all
next
  case (WriteFails y k c d)
  then show ?case by (intro grows_conn [of _ k c _ "write_failed d c"]) (simp_all del: write_failed.simps)
next
  case (EmitOne y k c err)
  then show ?case by (intro grows_conn [of _ k c _ "c\<lparr>ac_next := Suc (ac_next c)\<rparr>"]) (auto simp: emit_effect_def Let_def)
next
  case (EndIteration y k c err)
  then show ?case by (intro grows_conn [of _ k c _ "end_iteration err c"]) (simp_all del: end_iteration.simps)
next
  case (IdleExpired y k c ours)
  then show ?case by (intro grows_conn [of _ k c _ "end_flush ours c"]) simp_all
next
  case (TakeOther y k c)
  then show ?case by (intro grows_conn [of _ k c _ "c\<lparr>ac_phase := Flushing False\<rparr>"]) simp_all
next
  case (CopyEnds y k c)
  then show ?case by (intro grows_conn [of _ k c _ "c\<lparr>ac_copying := False\<rparr>"]) simp_all
next
  case (Unregister y k c)
  then show ?case by (intro grows_conn [of _ k c _ "c\<lparr>ac_active := False\<rparr>"]) simp_all
next
  case (TakeFlush y k ks c)
  then show ?case by (intro grows_conn [of _ k c _ "c\<lparr>ac_phase := Flushing True\<rparr>"]) simp_all
next
  case (FwReceive y e es)
  then show ?case by (intro grows_fw) simp_all
next
  case (FwCount y e)
  then show ?case by (intro grows_fw) simp_all
next
  case (FwSend y e)
  then show ?case by (intro grows_fw) auto
next
  case (FwUncount y)
  then show ?case by (intro grows_fw) simp_all
next
  case (FwBarrier y)
  then show ?case by (intro grows_fw) simp_all
next
  case (FwAck y)
  then show ?case by (intro grows_fw) simp_all
next
  case (FwSourceClosed y)
  then show ?case by (intro grows_fw) simp_all
next
  case (FwCancelled y)
  then show ?case by (intro grows_fw) simp_all
next
  case (FwCancelledSending y e)
  then show ?case by (intro grows_fw) simp_all
qed (rule grows_same; simp)+

definition reaches :: "(nat \<Rightarrow> nat) \<Rightarrow> hook \<Rightarrow> tagged set \<Rightarrow> bool" where
  "reaches n0 y S \<longleftrightarrow> (\<forall>k i. i < n0 k \<longrightarrow> (k, i) \<in> fst ` (S \<union> set (hk_dropped y)))"

definition offered :: "(nat \<Rightarrow> nat) \<Rightarrow> hook \<Rightarrow> bool" where
  "offered n0 y \<longleftrightarrow> (\<forall>k. n0 k \<le> next_count y k)"

definition flush_ok :: "(nat \<Rightarrow> nat) \<Rightarrow> hook \<Rightarrow> bool" where
  "flush_ok n0 y \<longleftrightarrow>
     (case hk_pc y of
        Outside \<Rightarrow> True
      | Offering ks \<Rightarrow> \<forall>k. k \<in> set ks \<or> n0 k \<le> next_count y k
      | Awaiting ks \<Rightarrow> \<forall>k. k \<in> set ks \<or> n0 k \<le> next_count y k
      | CheckLen \<Rightarrow> hk_err y \<or> offered n0 y
      | Ticking \<Rightarrow> hk_err y \<or> offered n0 y
      | CheckInFlight \<Rightarrow> hk_err y \<or> offered n0 y \<and> (hk_fw y = FGone \<or> reaches n0 y (set (hk_sink y) \<union> set (held (hk_fw y))))
      | OfferBarrier \<Rightarrow> hk_err y \<or> offered n0 y \<and> (hk_fw y = FGone \<or> reaches n0 y (set (hk_sink y) \<union> set (held (hk_fw y))))
      | _ \<Rightarrow> hk_err y \<or> offered n0 y \<and> (hk_fw y = FGone \<or> reaches n0 y (set (hk_sink y))))"

lemma offered_grows: "grows y y' \<Longrightarrow> offered n0 y \<Longrightarrow> offered n0 y'"
  by (meson grows_def le_trans offered_def)

lemma reaches_mono: "reaches n0 y S \<Longrightarrow> S \<subseteq> S' \<Longrightarrow> set (hk_dropped y) \<subseteq> set (hk_dropped y') \<Longrightarrow> reaches n0 y' S'"
  unfolding reaches_def by blast

lemma flush_ok_grows:
  assumes g: "grows y y'" and pc: "hk_pc y' = hk_pc y" "hk_err y' = hk_err y" and f: "flush_ok n0 y"
  shows "flush_ok n0 y'"
proof -
  have n: "\<forall>k. k \<in> K \<or> n0 k \<le> next_count y' k" if "\<forall>k. k \<in> K \<or> n0 k \<le> next_count y k" for K
    using that g by (meson grows_def le_trans)
  have r: "hk_fw y' = FGone \<or> reaches n0 y' (set (hk_sink y') \<union> set (held (hk_fw y')))"
    if "hk_fw y = FGone \<or> reaches n0 y (set (hk_sink y) \<union> set (held (hk_fw y)))"
    using that g reaches_mono [of n0 y _ _ y'] unfolding grows_def by blast
  have s: "hk_fw y' = FGone \<or> reaches n0 y' (set (hk_sink y'))"
    if "hk_fw y = FGone \<or> reaches n0 y (set (hk_sink y))"
    using that g reaches_mono [of n0 y _ _ y'] unfolding grows_def by blast
  from f offered_grows [OF g] n r s show ?thesis unfolding flush_ok_def pc by (cases "hk_pc y") auto
qed

definition ack_inv :: "(nat \<Rightarrow> nat) \<Rightarrow> hook \<Rightarrow> bool" where
  "ack_inv n0 y \<longleftrightarrow>
     (\<forall>k. n0 k \<le> parsed_count y k)
     \<and> (\<forall>k c. hk_conns y k = Some c \<longrightarrow> (ac_acked c \<longrightarrow> n0 k \<le> ac_next c)
          \<and> (hk_pc y = Outside \<longrightarrow> \<not> ac_acked c \<and> ac_phase c \<noteq> Flushing True))"

lemma ack_inv_same: "ack_inv n0 y \<Longrightarrow> hk_conns y' = hk_conns y \<Longrightarrow> hk_pc y' = hk_pc y \<or> hk_pc y' \<noteq> Outside \<Longrightarrow> ack_inv n0 y'"
  by (auto simp: ack_inv_def parsed_count_def)

lemma ack_inv_conn:
  assumes inv: "ack_inv n0 y" and c: "hk_conns y k = Some c"
    and y': "hk_conns y' = (hk_conns y)(k \<mapsto> c')" "hk_pc y' = hk_pc y \<or> hk_pc y' \<noteq> Outside"
    and n: "ac_next c \<le> ac_next c'" "length (ac_parsed c) \<le> length (ac_parsed c')"
    and a: "ac_acked c' \<longrightarrow> ac_acked c \<or> ac_phase c = Flushing True \<and> ac_next c' = length (ac_parsed c')"
    and f: "ac_phase c' = Flushing True \<longrightarrow> ac_phase c = Flushing True \<or> hk_pc y' \<noteq> Outside"
  shows "ack_inv n0 y'"
proof -
  have p: "n0 k \<le> length (ac_parsed c)" using inv c by (auto simp: ack_inv_def parsed_count_def dest: spec [of _ k])
  have "n0 j \<le> parsed_count y' j" for j
    using inv p n y'(1) by (cases "j = k") (auto simp: ack_inv_def parsed_count_def)
  moreover have "(ac_acked d \<longrightarrow> n0 j \<le> ac_next d) \<and> (hk_pc y' = Outside \<longrightarrow> \<not> ac_acked d \<and> ac_phase d \<noteq> Flushing True)"
    if d: "hk_conns y' j = Some d" for j d
  proof (cases "j = k")
    case True
    then have [simp]: "d = c'" using d y'(1) by simp
    have c2: "(ac_acked c \<longrightarrow> n0 k \<le> ac_next c)" "hk_pc y = Outside \<longrightarrow> \<not> ac_acked c \<and> ac_phase c \<noteq> Flushing True"
      using inv c unfolding ack_inv_def by blast+
    from True show ?thesis using c2 p n a f y'(2) by (cases "ac_acked c'") auto
  next
    case False
    then have "hk_conns y j = Some d" using d y'(1) by simp
    with inv y'(2) show ?thesis unfolding ack_inv_def by auto
  qed
  ultimately show ?thesis by (simp add: ack_inv_def)
qed

lemma ack_inv_step: "hook_step up low px y y' \<Longrightarrow> hook_inv up low px y \<Longrightarrow> ack_inv n0 y \<Longrightarrow> ack_inv n0 y'"
proof (induction rule: hook_step.induct)
  case (Register y n k)
  have [simp]: "\<not> ac_acked (new_conn px)" "ac_phase (new_conn px) = Sniffing" by (simp_all add: new_conn_def)
  have "n0 k = 0" using Register by (auto simp: ack_inv_def parsed_count_def dest: spec [of _ k])
  with Register show ?case by (auto simp: ack_inv_def parsed_count_def)
next
  case (Read y k c now d err)
  obtain es where "ac_parsed (feed_conn up low now d err c) = ac_parsed c @ es" using feed_conn_parsed by blast
  with Read show ?case by - (rule ack_inv_conn [of n0 y k c _ "feed_conn up low now d err c"], simp_all)
next
  case (WriteFails y k c d)
  then have n: "ac_next c = length (ac_parsed c)" by (auto simp: hook_inv_def conn_ok_def)
  show ?case
    by (rule ack_inv_conn [of n0 y k c _ "write_failed d c"])
      (use WriteFails n in \<open>auto simp del: write_failed.simps simp: write_failed.simps [of d c] Let_def split: sniff_phase.splits\<close>)
next
  case (EmitOne y k c err)
  then show ?case
    by - (rule ack_inv_conn [of n0 y k c _ "c\<lparr>ac_next := Suc (ac_next c)\<rparr>"], auto simp: emit_effect_def Let_def)
next
  case (EndIteration y k c err)
  show ?case
    by (rule ack_inv_conn [of n0 y k c _ "end_iteration err c"])
      (use EndIteration in \<open>auto split: sniff_phase.splits read_error.splits\<close>)
next
  case (IdleExpired y k c ours)
  then have n: "ac_next c = length (ac_parsed c)" by (auto simp: hook_inv_def conn_ok_def)
  show ?case by (rule ack_inv_conn [of n0 y k c _ "end_flush ours c"]) (use IdleExpired n in auto)
next
  case (TakeOther y k c)
  then show ?case by - (rule ack_inv_conn [of n0 y k c _ "c\<lparr>ac_phase := Flushing False\<rparr>"], simp_all)
next
  case (CopyEnds y k c)
  then show ?case by - (rule ack_inv_conn [of n0 y k c _ "c\<lparr>ac_copying := False\<rparr>"], simp_all)
next
  case (Unregister y k c)
  then show ?case by - (rule ack_inv_conn [of n0 y k c _ "c\<lparr>ac_active := False\<rparr>"], simp_all)
next
  case (TakeFlush y k ks c)
  then show ?case by - (rule ack_inv_conn [of n0 y k c _ "c\<lparr>ac_phase := Flushing True\<rparr>"], simp_all)
next
  case (TestLen y)
  then show ?case by - (rule ack_inv_same [of n0 y], auto split: if_splits)
next
  case (TestInFlight y)
  then show ?case by - (rule ack_inv_same [of n0 y], auto split: if_splits)
qed (rule ack_inv_same, assumption, simp, simp)+

lemma flush_ok_step:
  assumes "hook_step up low px y y'" "hook_inv up low px y" "ack_inv n0 y" "flush_ok n0 y"
  shows "flush_ok n0 y'"
  using assms grows_step [OF assms(1)]
proof (induction rule: hook_step.induct)
  case (FwBarrier y)
  then show ?case by (auto simp: flush_ok_def offered_def next_count_def reaches_def)
next
  case (FwAck y)
  show ?case
  proof (cases "hk_pc y = AwaitBarrier False")
    case True
    with FwAck show ?thesis by (auto simp: flush_ok_def offered_def next_count_def reaches_def)
  next
    case False
    then have "y\<lparr>hk_fw := FIdle, hk_pc := (if hk_pc y = AwaitBarrier False then AwaitBarrier True else hk_pc y)\<rparr> = y\<lparr>hk_fw := FIdle\<rparr>"
      by simp
    with flush_ok_grows [of y "y\<lparr>hk_fw := FIdle\<rparr>" n0] grows_fw [of "y\<lparr>hk_fw := FIdle\<rparr>" y] FwAck show ?thesis by simp
  qed
next
  case (FlushCall y ks)
  have "k \<in> set ks \<or> n0 k \<le> next_count y k" for k
  proof (cases "hk_conns y k")
    case None
    with FlushCall.prems(2) show ?thesis by (auto simp: ack_inv_def parsed_count_def next_count_def dest: spec [of _ k])
  next
    case (Some c)
    show ?thesis
    proof (cases "ac_active c")
      case True
      with Some FlushCall.hyps(2) show ?thesis by (auto simp: snapshotActiveConns_def)
    next
      case False
      with Some FlushCall.prems(1) have "ac_next c = length (ac_parsed c)" by (auto simp: hook_inv_def conn_ok_def)
      with Some FlushCall.prems(2) show ?thesis by (auto simp: ack_inv_def parsed_count_def next_count_def dest: spec [of _ k])
    qed
  qed
  then show ?case by (simp add: flush_ok_def next_count_def)
next
  case (TakeFlush y k ks c)
  then show ?case by (auto simp: flush_ok_def next_count_def)
next
  case (FlushGone y k ks c)
  then have "ac_next c = length (ac_parsed c)" by (auto simp: hook_inv_def conn_ok_def)
  with FlushGone have "n0 k \<le> next_count y k" by (auto simp: ack_inv_def parsed_count_def next_count_def dest: spec [of _ k])
  moreover have "\<forall>j. j \<in> set (k # ks) \<or> n0 j \<le> next_count y j" using FlushGone by (simp add: flush_ok_def)
  ultimately have "\<forall>j. j \<in> set ks \<or> n0 j \<le> next_count y j" by auto
  then show ?case by (simp add: flush_ok_def next_count_def)
next
  case (FlushAcked y k ks c)
  have "n0 k \<le> next_count y k"
  proof (cases "ac_acked c")
    case True
    with FlushAcked show ?thesis by (auto simp: ack_inv_def next_count_def)
  next
    case False
    with FlushAcked have "ac_next c = length (ac_parsed c)" by (auto simp: hook_inv_def conn_ok_def)
    with FlushAcked show ?thesis by (auto simp: ack_inv_def parsed_count_def next_count_def dest: spec [of _ k])
  qed
  moreover have "\<forall>j. j \<in> set (k # ks) \<or> n0 j \<le> next_count y j" using FlushAcked by (simp add: flush_ok_def)
  ultimately have "\<forall>j. j \<in> set ks \<or> n0 j \<le> next_count y j" by auto
  then show ?case by (simp add: flush_ok_def next_count_def)
next
  case (TestLen y)
  show ?case
  proof (cases "hk_pc y = CheckLen \<and> hk_ch y = [] \<and> \<not> hk_err y")
    case True
    then have o: "offered n0 y" using TestLen by (simp add: flush_ok_def)
    have "hk_fw y = FGone \<or> reaches n0 y (set (hk_sink y) \<union> set (held (hk_fw y)))"
    proof (cases "hk_fw y = FGone")
      case False
      have t: "fst ` set (hk_sent y @ hk_dropped y) = tags_of y"
        using TestLen.prems(1) unfolding hook_inv_def by blast
      have s: "hk_sent y = hk_sink y @ held (hk_fw y)"
        using fw_okI [OF TestLen.prems(1)] True False by (simp add: fw_ok_def)
      have "(k, i) \<in> tags_of y" if "i < n0 k" for k i
        using o that by (auto simp: offered_def next_count_def tags_of_def dest!: spec [of _ k] split: option.splits)
      then have "(k, i) \<in> fst ` set (hk_sent y @ hk_dropped y)" if "i < n0 k" for k i using that t by blast
      then show ?thesis by (simp add: reaches_def s image_Un)
    qed simp
    with True o show ?thesis by (auto simp: flush_ok_def offered_def next_count_def reaches_def)
  next
    case False
    with TestLen show ?thesis by (auto simp: flush_ok_def offered_def next_count_def reaches_def)
  qed
next
  case (TestInFlight y)
  then show ?case by (auto simp: flush_ok_def offered_def next_count_def reaches_def)
next
  case (BarrierAcked y)
  then show ?case by (auto simp: flush_ok_def offered_def next_count_def reaches_def)
next
  case (BarrierGone y b)
  then show ?case by (auto simp: flush_ok_def offered_def next_count_def reaches_def)
next
  case (Tick y)
  then show ?case by (simp add: flush_ok_def offered_def next_count_def)
next
  case (TickGone y)
  then show ?case by (auto simp: flush_ok_def offered_def next_count_def)
next
  case (FlushConnsDone y)
  then show ?case by (simp add: flush_ok_def offered_def next_count_def)
next
  case (FlushTimeout y k ks)
  then show ?case by (simp add: flush_ok_def)
next
  case (DrainTimeout y b)
  then show ?case by (simp add: flush_ok_def)
next
  case (EmitOne y k c err)
  then show ?case by - (rule flush_ok_grows, assumption, auto simp: emit_effect_def Let_def)
qed (rule flush_ok_grows, assumption, simp, simp, assumption)+

section \<open>Groups\<close>

text \<open>
  \<^verbatim>\<open>Group.Flush\<close> flushes every hook and then waits for every forwarder; \<^verbatim>\<open>Group.Stop\<close> stops every hook.
  An error does not end the loop; the first one is returned. The calls act on a state \<open>'s\<close>.
\<close>

fun call_each :: "('h \<Rightarrow> 's \<Rightarrow> 's \<times> 'e option) \<Rightarrow> 'h list \<Rightarrow> 's \<Rightarrow> 'e option \<Rightarrow> 's \<times> 'e option" where
  "call_each call [] s firstErr = (s, firstErr)"
| "call_each call (h # hs) s firstErr =
     (let (s', err) = call h s in call_each call hs s' (if firstErr = None then err else firstErr))"

definition Group_Flush ::
  "('h \<Rightarrow> 's \<Rightarrow> 's \<times> 'e option) \<Rightarrow> ('f \<Rightarrow> 's \<Rightarrow> 's \<times> 'e option) \<Rightarrow> 'h list \<Rightarrow> 'f list \<Rightarrow> 's \<Rightarrow> 's \<times> 'e option" where
  "Group_Flush Flush WaitDrained hooks forwarders s =
     (let (s', firstErr) = call_each Flush hooks s None in call_each WaitDrained forwarders s' firstErr)"

definition Group_Stop :: "('h \<Rightarrow> 's \<Rightarrow> 's \<times> 'e option) \<Rightarrow> 'h list \<Rightarrow> 's \<Rightarrow> 's \<times> 'e option" where
  "Group_Stop Stop hooks s = call_each Stop hooks s None"

text \<open>Every call is made, in order, and the state and the error are those of the calls one after another.\<close>

fun states_of :: "('h \<Rightarrow> 's \<Rightarrow> 's \<times> 'e option) \<Rightarrow> 'h list \<Rightarrow> 's \<Rightarrow> 's list" where
  "states_of call [] s = []"
| "states_of call (h # hs) s = s # states_of call hs (fst (call h s))"

lemma call_each_state: "fst (call_each call hs s e) = foldl (\<lambda>s h. fst (call h s)) s hs"
  by (induction hs arbitrary: s e) (simp_all add: Let_def case_prod_beta)

lemma call_each_None:
  "snd (call_each call hs s e) = None \<longleftrightarrow>
     e = None \<and> (\<forall>x\<in>set (zip hs (states_of call hs s)). snd (call (fst x) (snd x)) = None)"
  by (induction hs arbitrary: s e) (auto simp: Let_def case_prod_beta)

lemma Group_Flush_all:
  "snd (Group_Flush Flush WaitDrained hooks forwarders s) = None \<longleftrightarrow>
     (\<forall>x\<in>set (zip hooks (states_of Flush hooks s)). snd (Flush (fst x) (snd x)) = None)
     \<and> (let s' = foldl (\<lambda>s h. fst (Flush h s)) s hooks
        in \<forall>x\<in>set (zip forwarders (states_of WaitDrained forwarders s')). snd (WaitDrained (fst x) (snd x)) = None)"
  by (simp add: Group_Flush_def call_each_state call_each_None Let_def case_prod_beta)

section \<open>Streams and the hooks of their type\<close>

text \<open>What a client of a database sends, and the effects that are to be captured from it.\<close>

datatype client_stream =
    MySQLStream "mysql_packet list"
  | PostgresStream pg_message "pg_message list"
  | RedisStream "bytes list list"
  | MongoStream "mongo_msg list"

fun stream_type :: "client_stream \<Rightarrow> string" where
  "stream_type (MySQLStream ms) = MySQL"
| "stream_type (PostgresStream m ms) = Postgres"
| "stream_type (RedisStream ms) = Redis"
| "stream_type (MongoStream ms) = Mongo"

fun stream_ok :: "client_stream \<Rightarrow> bool" where
  "stream_ok (MySQLStream ms) = list_all mysql_ok ms"
| "stream_ok (PostgresStream m ms) = (pg_ok True m \<and> list_all (pg_ok False) ms)"
| "stream_ok (RedisStream ms) = list_all redis_ok ms"
| "stream_ok (MongoStream ms) = list_all mongo_ok ms"

fun stream_bytes :: "client_stream \<Rightarrow> bytes" where
  "stream_bytes (MySQLStream ms) = concat (map mysql_enc ms)"
| "stream_bytes (PostgresStream m ms) = pg_enc m @ concat (map pg_enc ms)"
| "stream_bytes (RedisStream ms) = concat (map redis_enc ms)"
| "stream_bytes (MongoStream ms) = concat (map mongo_enc ms)"

fun stream_effects :: "(nat \<Rightarrow> nat) \<Rightarrow> (nat \<Rightarrow> nat) \<Rightarrow> client_stream \<Rightarrow> SideEffect list" where
  "stream_effects up low (MySQLStream ms) = map (\<lambda>q. NewSQLSideEffect MySQL q 0) (concat (map mysql_emit ms))"
| "stream_effects up low (PostgresStream m ms) = map (\<lambda>q. NewSQLSideEffect Postgres q 0) (concat (map pg_emit ms))"
| "stream_effects up low (RedisStream ms) = map (\<lambda>c. redis_effect c 0) (concat (map (redis_emit up low) ms))"
| "stream_effects up low (MongoStream ms) = map (\<lambda>p. NewMongoSideEffect p 0) (concat (map mongo_emit ms))"

lemma capture_wrap:
  assumes "\<And>now p d. F now (mk p) d = (fst (G now p d), mk (snd (G now p d)))"
  shows "capture F (mk p) calls = (fst (capture G p calls), mk (snd (capture G p calls)))"
proof (induction calls arbitrary: p)
  case (Cons x calls)
  then show ?case by (cases x) (simp add: assms Let_def case_prod_beta)
qed simp

lemmas parser_wrap =
  capture_wrap [where F = "parser_Feed up low" and mk = MySQLParser and G = mysql_Feed for up low]
  capture_wrap [where F = "parser_Feed up low" and mk = PostgresParser and G = pg_Feed for up low]
  capture_wrap [where F = "parser_Feed up low" and mk = RedisParser and G = "redis_Feed up low" for up low]
  capture_wrap [where F = "parser_Feed up low" and mk = MongoParser and G = mongo_Feed for up low]

lemma parser_stream:
  assumes "NewHook cfg = Inr px" "hc_DBType cfg = stream_type s" "stream_ok s" "concat (map snd calls) = stream_bytes s"
  shows "map untimed (fst (capture (parser_Feed up low) (px_newParser px) calls)) = stream_effects up low s"
proof (cases s)
  case (MySQLStream ms)
  with assms have p: "px_newParser px = MySQLParser []" by (auto simp: NewHook_def hookConstructors_def NewMySQLHook_def newTCPProxy_def)
  have "capture (parser_Feed up low) (MySQLParser []) calls = (fst (capture mysql_Feed [] calls), MySQLParser (snd (capture mysql_Feed [] calls)))"
    by (rule parser_wrap(1)) (simp add: Let_def case_prod_beta)
  with p MySQLStream assms mysql_stream [of ms calls] show ?thesis by simp
next
  case (PostgresStream m ms)
  with assms have p: "px_newParser px = PostgresParser (True, [])"
    by (auto simp: NewHook_def hookConstructors_def NewPostgresHook_def newTCPProxy_def Postgres_def MySQL_def)
  have "capture (parser_Feed up low) (PostgresParser (True, [])) calls
      = (fst (capture pg_Feed (True, []) calls), PostgresParser (snd (capture pg_Feed (True, []) calls)))"
    by (rule parser_wrap(2)) (simp add: Let_def case_prod_beta)
  with p PostgresStream assms postgres_stream [of m ms calls] show ?thesis by simp
next
  case (RedisStream ms)
  with assms have p: "px_newParser px = RedisParser (True, [])"
    by (auto simp: NewHook_def hookConstructors_def NewRedisHook_def newTCPProxy_def Postgres_def MySQL_def Mongo_def Redis_def)
  have "capture (parser_Feed up low) (RedisParser (True, [])) calls
      = (fst (capture (redis_Feed up low) (True, []) calls), RedisParser (snd (capture (redis_Feed up low) (True, []) calls)))"
    by (rule parser_wrap(3)) (simp add: Let_def case_prod_beta)
  with p RedisStream assms redis_stream [of ms calls up low] show ?thesis by simp
next
  case (MongoStream ms)
  with assms have p: "px_newParser px = MongoParser []"
    by (auto simp: NewHook_def hookConstructors_def NewMongoHook_def newTCPProxy_def Postgres_def MySQL_def Mongo_def)
  have "capture (parser_Feed up low) (MongoParser []) calls = (fst (capture mongo_Feed [] calls), MongoParser (snd (capture mongo_Feed [] calls)))"
    by (rule parser_wrap(4)) (simp add: Let_def case_prod_beta)
  with p MongoStream assms mongo_stream [of ms calls] show ?thesis by simp
qed

section \<open>Properties\<close>

lemma conn_grows_step:
  "hook_step up low px y y' \<Longrightarrow> hk_conns y k = Some c \<Longrightarrow> \<exists>c'. hk_conns y' k = Some c' \<and> prefix (ac_parsed c) (ac_parsed c')"
proof (induction rule: hook_step.induct)
  case (Read y j d now x err)
  then show ?case using feed_conn_parsed [of up low now x err d] by (cases "j = k") auto
qed (auto simp: emit_effect_def Let_def simp del: write_failed.simps end_iteration.simps)

lemma conn_grows_run:
  "hook_run up low px y y' \<Longrightarrow> hk_conns y k = Some c \<Longrightarrow> \<exists>c'. hk_conns y' k = Some c' \<and> prefix (ac_parsed c) (ac_parsed c')"
proof (induction rule: rtranclp_induct)
  case (step y y')
  then show ?case using conn_grows_step [of up low px y y' k] by (meson prefix_order.order_trans)
qed auto

lemma flush_run:
  assumes "hook_run up low px y0 y" "hook_inv up low px y0" "ack_inv n0 y0" "hk_pc y0 = Outside"
  shows "hook_inv up low px y \<and> ack_inv n0 y \<and> flush_ok n0 y"
  using assms
proof (induction rule: rtranclp_induct)
  case base
  then show ?case by (simp add: flush_ok_def)
next
  case (step y y')
  then show ?case using hook_inv_step ack_inv_step flush_ok_step by blast
qed

lemma no_acks:
  assumes "hook_run up low px hook_init y" "hk_pc y = Outside"
  shows "ack_inv (parsed_count y) y"
proof -
  have "ack_inv (\<lambda>k. 0) hook_init" by (simp add: ack_inv_def hook_init_def)
  with flush_run [OF assms(1) hook_inv_init] have "ack_inv (\<lambda>k. 0) y" by (simp add: hook_init_def)
  with assms(2) show ?thesis by (auto simp: ack_inv_def)
qed

lemma delivered_effect:
  assumes inv: "hook_inv up low px y" and c: "hk_conns y k = Some c" and x: "(k, i) \<in> fst ` (set (hk_sink y) \<union> set (hk_dropped y))"
  shows "((k, i), ac_parsed c ! i) \<in> set (hk_sink y) \<union> set (hk_dropped y)"
proof -
  from x have "\<exists>e. ((k, i), e) \<in> set (hk_sink y) \<union> set (hk_dropped y)" by auto
  then obtain e where e: "((k, i), e) \<in> set (hk_sink y) \<union> set (hk_dropped y)" by blast
  have "set (hk_sink y) \<subseteq> set (hk_sent y)" using fw_okI [OF inv] by (auto simp: fw_ok_def split: if_splits)
  with e have "((k, i), e) \<in> set (hk_sent y @ hk_dropped y)" by auto
  with inv have "\<exists>c. hk_conns y (fst (fst ((k, i), e))) = Some c \<and> snd ((k, i), e) = ac_parsed c ! snd (fst ((k, i), e))"
    unfolding hook_inv_def by blast
  with c e show ?thesis by simp
qed

text \<open>
  C9. A flush delivers. If a call of \<^verbatim>\<open>Flush\<close> returns without an error while the forwarder runs, then
  every effect that any connection of the hook had parsed before the call is in the recorder's
  channel, or was dropped because the hook's channel was full; this holds for every interleaving
  of the connections, the forwarder, other callers and \<^verbatim>\<open>Stop\<close>.
\<close>

theorem Flush_delivers:
  assumes "hook_run up low px hook_init y0" and "hk_pc y0 = Outside" and "hk_conns y0 k = Some c" and "i < length (ac_parsed c)"
    and "hook_run up low px y0 y" and "hk_pc y = Flushed" and "\<not> hk_err y" and "hk_fw y \<noteq> FGone"
  shows "((k, i), ac_parsed c ! i) \<in> set (hk_sink y) \<union> set (hk_dropped y)"
proof -
  note inv0 = hook_inv_run [OF assms(1) hook_inv_init]
  from flush_run [OF assms(5) inv0 no_acks [OF assms(1,2)] assms(2)]
  have inv: "hook_inv up low px y" and f: "flush_ok (parsed_count y0) y" by simp_all
  have "reaches (parsed_count y0) y (set (hk_sink y))" using f assms(6-8) by (simp add: flush_ok_def)
  moreover have "i < parsed_count y0 k" using assms(3,4) by (simp add: parsed_count_def)
  ultimately have x: "(k, i) \<in> fst ` (set (hk_sink y) \<union> set (hk_dropped y))" by (simp add: reaches_def)
  obtain c' where c': "hk_conns y k = Some c'" "prefix (ac_parsed c) (ac_parsed c')"
    using conn_grows_run [OF assms(5,3)] by blast
  from delivered_effect [OF inv c'(1) x] c'(2) assms(4) show ?thesis by (auto simp: prefix_def nth_append)
qed

text \<open>
  C10. What a hook does with a connection, in every reachable state: the server has got exactly the
  bytes that the parser was fed, all that was read unless a write failed; what was parsed is what
  the parser of the hook makes of these bytes; each effect is offered to the channel once and in
  order, and is then sent or dropped; the recorder's channel gets them in the order of sending; the
  hook's channel never holds more than 1000.
\<close>

theorem hook_captures:
  assumes "hook_run up low px hook_init y"
  shows "(\<forall>k. case hk_conns y k of None \<Rightarrow> True | Some c \<Rightarrow>
            ac_forwarded c = concat (map snd (ac_calls c)) \<and> (ac_broken c \<or> ac_read c = ac_forwarded c)
            \<and> ac_parsed c = fst (capture (parser_Feed up low) (px_newParser px) (ac_calls c))
            \<and> {i. (k, i) \<in> fst ` set (hk_sent y @ hk_dropped y)} = {..<ac_next c} \<and> ac_next c \<le> length (ac_parsed c))
     \<and> distinct (map fst (hk_sent y @ hk_dropped y)) \<and> prefix (hk_sink y) (hk_sent y) \<and> length (hk_ch y) \<le> hook_cap"
proof -
  have inv: "hook_inv up low px y" by (rule hook_inv_run [OF assms hook_inv_init])
  have t: "fst ` set (hk_sent y @ hk_dropped y) = tags_of y" using inv unfolding hook_inv_def by blast
  have "{i. (k, i) \<in> fst ` set (hk_sent y @ hk_dropped y)} = {..<ac_next c}" if "hk_conns y k = Some c" for k c
    using that unfolding t by (auto simp: tags_of_def)
  moreover have "conn_ok up low px c" if "hk_conns y k = Some c" for k c using inv that by (simp add: hook_inv_def)
  moreover have "prefix (hk_sink y) (hk_sent y)" "length (hk_ch y) \<le> hook_cap"
    using fw_okI [OF inv] by (auto simp: fw_ok_def split: if_splits)
  moreover have "distinct (map fst (hk_sent y @ hk_dropped y))" using inv unfolding hook_inv_def by blast
  ultimately show ?thesis by (auto simp: conn_ok_def split: option.splits)
qed



section \<open>Instances\<close>

text \<open>A connection of a MySQL hook on which one statement has been read.\<close>

definition demo_hook_cfg :: Config where
  "demo_hook_cfg = \<lparr>hc_DBType = ''mysql'', hc_ListenAddr = ''l'', hc_TargetAddr = ''t''\<rparr>"

definition demo_px :: tcpProxy where
  "demo_px = NewMySQLHook ''l'' ''t''"

definition demo_stream :: client_stream where
  "demo_stream = MySQLStream [(CHR 0x00, CHR 0x03 # ''SELECT 1'')]"

definition demo_conn :: activeConn where
  "demo_conn = feed_conn id id (\<lambda>i. 7) (stream_bytes demo_stream) NoError (new_conn demo_px)"

definition demo_tagged :: tagged where
  "demo_tagged = ((0, 0), ac_parsed demo_conn ! 0)"

definition demo_state :: "activeConn \<Rightarrow> tagged list \<Rightarrow> forwarder \<Rightarrow> int \<Rightarrow> tagged list \<Rightarrow> bool \<Rightarrow> flush_pc \<Rightarrow> hook" where
  "demo_state c ch fw n sink cancelled pc =
     \<lparr>hk_conns = [0 \<mapsto> c], hk_accepting = True, hk_dialing = 0, hk_done = False, hk_closed = False, hk_ch = ch,
      hk_fw = fw, hk_inFlight = n, hk_sink = sink, hk_cancelled = cancelled, hk_pc = pc, hk_err = False,
      hk_sent = [demo_tagged], hk_dropped = []\<rparr>"

lemma demo_hook: "NewHook demo_hook_cfg = Inr demo_px"
  by (simp add: NewHook_def hookConstructors_def demo_hook_cfg_def demo_px_def)

lemma demo_stream_ok: "hc_DBType demo_hook_cfg = stream_type demo_stream" "stream_ok demo_stream" "stream_bytes demo_stream \<noteq> []"
  "stream_effects id id demo_stream = [NewSQLSideEffect MySQL ''SELECT 1'' 0]"
  using mysql_enc_nonempty [of "(CHR 0x00, CHR 0x03 # ''SELECT 1'')"]
  by (simp_all add: demo_hook_cfg_def demo_stream_def mysql_ok_def maxMySQLPacketSize_def mysql_emit_def mysqlComQuery_def)

lemma demo_conn_sel:
  "ac_phase demo_conn = Sniffing" "ac_iter demo_conn = Emitting NoError" "ac_next demo_conn = 0" "ac_active demo_conn"
  "ac_forwarded demo_conn = stream_bytes demo_stream" "\<not> ac_acked demo_conn" "parser_alive (ac_parser demo_conn)"
  using demo_stream_ok(3)
  by (simp_all add: demo_conn_def feed_conn_def new_conn_def Let_def case_prod_beta demo_px_def NewMySQLHook_def newTCPProxy_def)

lemma demo_conn_parsed: "map untimed (ac_parsed demo_conn) = [NewSQLSideEffect MySQL ''SELECT 1'' 0]"
proof -
  have "ac_parsed demo_conn = fst (capture (parser_Feed id id) (px_newParser demo_px) [(\<lambda>i. 7, stream_bytes demo_stream)])"
    using demo_stream_ok(3) by (simp add: demo_conn_def feed_conn_def new_conn_def Let_def case_prod_beta)
  with parser_stream [OF demo_hook demo_stream_ok(1,2), of "[(\<lambda>i. 7, stream_bytes demo_stream)]" id id] show ?thesis
    by (simp add: demo_stream_ok(4))
qed

lemma demo_conn_length: "length (ac_parsed demo_conn) = 1"
  using arg_cong [OF demo_conn_parsed, of length] by simp

abbreviation demo_idle :: activeConn where
  "demo_idle \<equiv> demo_conn\<lparr>ac_next := 1, ac_iter := Top\<rparr>"

abbreviation demo_acked :: activeConn where
  "demo_acked \<equiv> demo_idle\<lparr>ac_acked := True\<rparr>"

abbreviation demo_step :: "hook \<Rightarrow> hook \<Rightarrow> bool" where
  "demo_step \<equiv> hook_step id id demo_px"

abbreviation demo_hook_run :: "hook \<Rightarrow> hook \<Rightarrow> bool" where
  "demo_hook_run \<equiv> hook_run id id demo_px"

lemma demo_parsed_run: "demo_hook_run hook_init (demo_state demo_idle [demo_tagged] FIdle 0 [] False Outside)"
proof -
  let ?y1 = "hook_init\<lparr>hk_dialing := 1\<rparr>" and ?y2 = "hook_init\<lparr>hk_conns := [0 \<mapsto> new_conn demo_px]\<rparr>"
  let ?y3 = "hook_init\<lparr>hk_conns := [0 \<mapsto> demo_conn]\<rparr>"
  let ?y4 = "demo_state (demo_conn\<lparr>ac_next := 1\<rparr>) [demo_tagged] FIdle 0 [] False Outside"
  have 1: "demo_step hook_init ?y1" using hook_step.Accept [of hook_init] by (simp add: hook_init_def)
  have 2: "demo_step ?y1 ?y2"
    using hook_step.Register [of ?y1 0 0 id id demo_px] by (simp add: hook_init_def set_conn_def)
  have 3: "demo_step ?y2 ?y3"
    using hook_step.Read [of ?y2 0 "new_conn demo_px" id id "\<lambda>i. 7" "stream_bytes demo_stream" NoError demo_px, folded demo_conn_def]
    by (simp add: hook_init_def set_conn_def demo_conn_sel) (simp add: new_conn_def)
  have 4: "demo_step ?y3 ?y4"
    using hook_step.EmitOne [of ?y3 0 demo_conn NoError id id demo_px]
    by (simp add: emit_effect_def Let_def set_conn_def demo_conn_sel demo_conn_length hook_init_def demo_state_def demo_tagged_def hook_cap_def)
  have 5: "demo_step ?y4 (demo_state demo_idle [demo_tagged] FIdle 0 [] False Outside)"
    using hook_step.EndIteration [of ?y4 0 "demo_conn\<lparr>ac_next := 1\<rparr>" NoError id id demo_px]
    by (simp add: set_conn_def demo_conn_sel demo_conn_length hook_init_def demo_state_def)
  from 1 2 3 4 5 show ?thesis by (meson rtranclp.rtrancl_into_rtrancl rtranclp.rtrancl_refl)
qed

lemma demo_snapshot: "snapshotActiveConns (demo_state demo_idle ch fw n sink b pc) [0]"
  by (auto simp: snapshotActiveConns_def demo_state_def demo_conn_sel)

lemma demo_end_flush: "end_flush True (demo_idle\<lparr>ac_phase := Flushing True\<rparr>) = demo_acked"
  using demo_conn_sel(1,6) by (cases demo_conn) (simp add: end_flush_def)

lemma demo_flush_run:
  "demo_hook_run (demo_state demo_idle [demo_tagged] FIdle 0 [] False Outside) (demo_state demo_acked [demo_tagged] FIdle 0 [] False CheckLen)"
proof -
  let ?S = "\<lambda>c pc. demo_state c [demo_tagged] FIdle 0 [] False pc"
  have 1: "demo_step (?S demo_idle Outside) (?S demo_idle (Offering [0]))"
    using hook_step.FlushCall [of "?S demo_idle Outside" "[0]" id id demo_px, OF _ demo_snapshot]
    by (simp add: demo_state_def)
  have 2: "demo_step (?S demo_idle (Offering [0])) (?S (demo_idle\<lparr>ac_phase := Flushing True\<rparr>) (Awaiting [0]))"
    using hook_step.TakeFlush [of "?S demo_idle (Offering [0])" 0 "[]" demo_idle id id demo_px]
    by (simp add: demo_state_def demo_conn_sel set_conn_def)
  have 3: "demo_step (?S (demo_idle\<lparr>ac_phase := Flushing True\<rparr>) (Awaiting [0])) (?S demo_acked (Awaiting [0]))"
    using hook_step.IdleExpired [of "?S (demo_idle\<lparr>ac_phase := Flushing True\<rparr>) (Awaiting [0])" 0 "demo_idle\<lparr>ac_phase := Flushing True\<rparr>" True id id demo_px]
    by (simp add: demo_state_def set_conn_def demo_end_flush [simplified])
  have 4: "demo_step (?S demo_acked (Awaiting [0])) (?S demo_acked (Offering []))"
    using hook_step.FlushAcked [of "?S demo_acked (Awaiting [0])" 0 "[]" demo_acked id id demo_px] by (simp add: demo_state_def)
  have 5: "demo_step (?S demo_acked (Offering [])) (?S demo_acked CheckLen)"
    using hook_step.FlushConnsDone [of "?S demo_acked (Offering [])" id id demo_px] by (simp add: demo_state_def)
  from 1 2 3 4 5 show ?thesis by (meson rtranclp.rtrancl_into_rtrancl rtranclp.rtrancl_refl)
qed

lemma demo_drain_run:
  "demo_hook_run (demo_state demo_acked [demo_tagged] FIdle 0 [] False CheckLen) (demo_state demo_acked [] FIdle 0 [demo_tagged] False Flushed)"
proof -
  let ?S = "\<lambda>ch fw n sink pc. demo_state demo_acked ch fw n sink False pc"
  let ?t = "[demo_tagged]"
  have 1: "demo_step (?S ?t FIdle 0 [] CheckLen) (?S [] (FTaken demo_tagged) 0 [] CheckLen)"
    using hook_step.FwReceive [of "?S ?t FIdle 0 [] CheckLen"] by (simp add: demo_state_def)
  have 2: "demo_step (?S [] (FTaken demo_tagged) 0 [] CheckLen) (?S [] (FCounted demo_tagged) 1 [] CheckLen)"
    using hook_step.FwCount [of "?S [] (FTaken demo_tagged) 0 [] CheckLen"] by (simp add: demo_state_def)
  have 3: "demo_step (?S [] (FCounted demo_tagged) 1 [] CheckLen) (?S [] FSent 1 ?t CheckLen)"
    using hook_step.FwSend [of "?S [] (FCounted demo_tagged) 1 [] CheckLen"] by (simp add: demo_state_def)
  have 4: "demo_step (?S [] FSent 1 ?t CheckLen) (?S [] FIdle 0 ?t CheckLen)"
    using hook_step.FwUncount [of "?S [] FSent 1 ?t CheckLen"] by (simp add: demo_state_def)
  have 5: "demo_step (?S [] FIdle 0 ?t CheckLen) (?S [] FIdle 0 ?t CheckInFlight)"
    using hook_step.TestLen [of "?S [] FIdle 0 ?t CheckLen"] by (simp add: demo_state_def)
  have 6: "demo_step (?S [] FIdle 0 ?t CheckInFlight) (?S [] FIdle 0 ?t OfferBarrier)"
    using hook_step.TestInFlight [of "?S [] FIdle 0 ?t CheckInFlight"] by (simp add: demo_state_def)
  have 7: "demo_step (?S [] FIdle 0 ?t OfferBarrier) (?S [] FBarrier 0 ?t (AwaitBarrier False))"
    using hook_step.FwBarrier [of "?S [] FIdle 0 ?t OfferBarrier"] by (simp add: demo_state_def)
  have 8: "demo_step (?S [] FBarrier 0 ?t (AwaitBarrier False)) (?S [] FIdle 0 ?t (AwaitBarrier True))"
    using hook_step.FwAck [of "?S [] FBarrier 0 ?t (AwaitBarrier False)"] by (simp add: demo_state_def)
  have 9: "demo_step (?S [] FIdle 0 ?t (AwaitBarrier True)) (?S [] FIdle 0 ?t RecheckLen)"
    using hook_step.BarrierAcked [of "?S [] FIdle 0 ?t (AwaitBarrier True)"] by (simp add: demo_state_def)
  have 10: "demo_step (?S [] FIdle 0 ?t RecheckLen) (?S [] FIdle 0 ?t RecheckInFlight)"
    using hook_step.TestLen [of "?S [] FIdle 0 ?t RecheckLen"] by (simp add: demo_state_def)
  have 11: "demo_step (?S [] FIdle 0 ?t RecheckInFlight) (?S [] FIdle 0 ?t Flushed)"
    using hook_step.TestInFlight [of "?S [] FIdle 0 ?t RecheckInFlight"] by (simp add: demo_state_def)
  from 1 2 3 4 5 6 have "demo_hook_run (?S ?t FIdle 0 [] CheckLen) (?S [] FIdle 0 ?t OfferBarrier)"
    by (meson rtranclp.rtrancl_into_rtrancl rtranclp.rtrancl_refl)
  with 7 8 9 10 11 show ?thesis by (meson rtranclp.rtrancl_into_rtrancl)
qed

theorem Flush_delivers_witness:
  "((0, 0), ac_parsed demo_idle ! 0) \<in> set (hk_sink (demo_state demo_acked [] FIdle 0 [demo_tagged] False Flushed))"
  using Flush_delivers [OF demo_parsed_run _ _ _ rtranclp_trans [OF demo_flush_run demo_drain_run], of 0 demo_idle 0]
  by (simp add: demo_state_def demo_conn_length)

theorem hook_captures_witness:
  "ac_forwarded demo_idle = concat (map snd (ac_calls demo_idle)) \<and> ac_next demo_idle = 1"
  using spec [OF conjunct1 [OF hook_captures [OF demo_parsed_run]], of 0] by (simp add: demo_state_def demo_conn_length)


text \<open>
  When the context of the hooks is cancelled, as when the duration of a recording is over
  while requests are still being served, a flush reports success although an effect that was
  parsed before it stays in the hook's channel for ever.
\<close>

theorem cancelled_flush_loses:
  "\<exists>y0 y. hook_run id id demo_px hook_init y0 \<and> hk_pc y0 = Outside \<and> hook_run id id demo_px y0 y
     \<and> hk_pc y = Flushed \<and> \<not> hk_err y \<and> hk_fw y = FGone \<and> hk_sent y0 = [demo_tagged] \<and> hk_ch y = [demo_tagged]
     \<and> hk_sink y = [] \<and> hk_dropped y = []"
proof -
  let ?S = "\<lambda>fw b pc. demo_state demo_acked [demo_tagged] fw 0 [] b pc"
  have 1: "demo_step (?S FIdle False CheckLen) (?S FIdle True CheckLen)"
    using hook_step.Cancel [of id id demo_px "?S FIdle False CheckLen"] by (simp add: demo_state_def)
  have 2: "demo_step (?S FIdle True CheckLen) (?S FGone True CheckLen)"
    using hook_step.FwCancelled [of "?S FIdle True CheckLen"] by (simp add: demo_state_def)
  have 3: "demo_step (?S FGone True CheckLen) (?S FGone True Ticking)"
    using hook_step.TestLen [of "?S FGone True CheckLen"] by (simp add: demo_state_def)
  have 4: "demo_step (?S FGone True Ticking) (?S FGone True Flushed)"
    using hook_step.TickGone [of "?S FGone True Ticking"] by (simp add: demo_state_def)
  from demo_flush_run 1 2 3 4
  have "demo_hook_run (demo_state demo_idle [demo_tagged] FIdle 0 [] False Outside) (?S FGone True Flushed)"
    by (meson rtranclp.rtrancl_into_rtrancl)
  with demo_parsed_run show ?thesis
    by (intro exI [of _ "demo_state demo_idle [demo_tagged] FIdle 0 [] False Outside"] exI [of _ "?S FGone True Flushed"])
      (simp add: demo_state_def)
qed

text \<open>A hook that is stopped after its one connection has ended on both sides.\<close>

definition demo_ended :: activeConn where
  "demo_ended = (new_conn demo_px)\<lparr>ac_phase := Ended, ac_copying := False, ac_active := False\<rparr>"

definition demo_stopped :: hook where
  "demo_stopped = hook_init\<lparr>hk_conns := [0 \<mapsto> demo_ended], hk_accepting := False, hk_done := True, hk_closed := True\<rparr>"

lemma demo_stop_run: "demo_hook_run hook_init demo_stopped"
proof -
  let ?c = "new_conn demo_px"
  let ?S = "\<lambda>c d a cl. hook_init\<lparr>hk_conns := [0 \<mapsto> c], hk_accepting := a, hk_done := d, hk_closed := cl\<rparr>"
  let ?c1 = "?c\<lparr>ac_iter := Emitting OtherError\<rparr>"
  have 1: "demo_step hook_init (hook_init\<lparr>hk_dialing := 1\<rparr>)" using hook_step.Accept [of hook_init] by (simp add: hook_init_def)
  have 2: "demo_step (hook_init\<lparr>hk_dialing := 1\<rparr>) (?S ?c False True False)"
    using hook_step.Register [of "hook_init\<lparr>hk_dialing := 1\<rparr>" 0 0 id id demo_px] by (simp add: hook_init_def set_conn_def)
  have 3: "demo_step (?S ?c False True False) (?S ?c1 False True False)"
    using hook_step.Read [of "?S ?c False True False" 0 ?c id id "\<lambda>i. 7" "[]" OtherError demo_px]
    by (simp add: hook_init_def set_conn_def feed_conn_def new_conn_def demo_px_def NewMySQLHook_def newTCPProxy_def)
  have 4: "demo_step (?S ?c1 False True False) (?S (?c\<lparr>ac_phase := Ended\<rparr>) False True False)"
    using hook_step.EndIteration [of "?S ?c1 False True False" 0 ?c1 OtherError id id demo_px]
    by (simp add: hook_init_def set_conn_def new_conn_def)
  have 5: "demo_step (?S (?c\<lparr>ac_phase := Ended\<rparr>) False True False) (?S (?c\<lparr>ac_phase := Ended, ac_copying := False\<rparr>) False True False)"
    using hook_step.CopyEnds [of "?S (?c\<lparr>ac_phase := Ended\<rparr>) False True False" 0 "?c\<lparr>ac_phase := Ended\<rparr>" id id demo_px]
    by (simp add: hook_init_def set_conn_def)
  have 6: "demo_step (?S (?c\<lparr>ac_phase := Ended, ac_copying := False\<rparr>) False True False) (?S demo_ended False True False)"
    using hook_step.Unregister [of "?S (?c\<lparr>ac_phase := Ended, ac_copying := False\<rparr>) False True False" 0
        "?c\<lparr>ac_phase := Ended, ac_copying := False\<rparr>" id id demo_px]
    by (simp add: hook_init_def set_conn_def demo_ended_def)
  have 7: "demo_step (?S demo_ended False True False) (?S demo_ended True True False)"
    using hook_step.StopCalled [of id id demo_px "?S demo_ended False True False"] by (simp add: hook_init_def)
  have 8: "demo_step (?S demo_ended True True False) (?S demo_ended True False False)"
    using hook_step.AcceptorExit [of "?S demo_ended True True False"] by (simp add: hook_init_def)
  have 9: "demo_step (?S demo_ended True False False) demo_stopped"
    using hook_step.StopReturns [of "?S demo_ended True False False"] by (simp add: hook_init_def demo_stopped_def demo_ended_def ran_def)
  from 1 2 3 4 5 have "demo_hook_run hook_init (?S (?c\<lparr>ac_phase := Ended, ac_copying := False\<rparr>) False True False)"
    by (meson rtranclp.rtrancl_into_rtrancl rtranclp.rtrancl_refl)
  with 6 7 8 9 show ?thesis by (meson rtranclp.rtrancl_into_rtrancl)
qed


end
