(* ===== verification/File_System.thy ===== *)
theory File_System
  imports Prelude
begin

text \<open>
  The part of \<^verbatim>\<open>os\<close>, \<^verbatim>\<open>path/filepath\<close> and \<^verbatim>\<open>bufio\<close> that the storage layer uses. A file system
  maps absolute paths, as lists of path elements, to files and directories. The errors modelled
  are the ones that the state of the tree determines (a missing file or parent, a directory
  where a file is wanted); failures of the device or of permissions are not.
\<close>

type_synonym path = "string list"

datatype node = File bytes | Dir

type_synonym fs = "(path, node) gomap"

datatype fs_error = NotExist path | IsDirectory path | NotDirectory path

section \<open>Paths\<close>

fun split_slash :: "string \<Rightarrow> string list" where
  "split_slash [] = [[]]"
| "split_slash (c # s) =
     (if c = CHR ''/'' then [] # split_slash s
      else case split_slash s of
             x # xs \<Rightarrow> (c # x) # xs
           | [] \<Rightarrow> [[c]])"

text \<open>
  The loop of \<^verbatim>\<open>filepath.Clean\<close> over the elements of a path, with the elements kept so far as a
  stack.
\<close>

fun clean_elems :: "bool \<Rightarrow> string list \<Rightarrow> string list \<Rightarrow> string list" where
  "clean_elems rooted stack [] = rev stack"
| "clean_elems rooted stack (e # es) =
     (if e = '''' \<or> e = ''.'' then clean_elems rooted stack es
      else if e = ''..'' then
        (case stack of
           t # ts \<Rightarrow> if t = ''..'' then clean_elems rooted (e # stack) es else clean_elems rooted ts es
         | [] \<Rightarrow> if rooted then clean_elems rooted [] es else clean_elems rooted [e] es)
      else clean_elems rooted (e # stack) es)"

text \<open>\<^verbatim>\<open>filepath.Clean\<close>: whether the path is rooted, and its elements. An empty relative result is ".".\<close>

definition Clean :: "string \<Rightarrow> bool \<times> path" where
  "Clean s =
     (let rooted = (case s of c # _ \<Rightarrow> c = CHR ''/'' | [] \<Rightarrow> False)
      in (rooted, clean_elems rooted [] (split_slash s)))"

text \<open>\<^verbatim>\<open>filepath.Join\<close> of an absolute path and further elements.\<close>

definition JoinPath :: "path \<Rightarrow> string list \<Rightarrow> path" where
  "JoinPath base elems = clean_elems True [] (base @ concat (map split_slash elems))"

text \<open>
  \<^verbatim>\<open>filepath.Rel\<close> of two clean absolute paths: one ".." for each element of the base that is not
  shared, then the rest of the target.
\<close>

fun RelPath :: "path \<Rightarrow> path \<Rightarrow> path" where
  "RelPath (b # bs) (t # ts) = (if b = t then RelPath bs ts else replicate (length (b # bs)) ''..'' @ t # ts)"
| "RelPath bs ts = replicate (length bs) ''..'' @ ts"

definition plain_name :: "string \<Rightarrow> bool" where
  "plain_name s = (s \<noteq> '''' \<and> s \<noteq> ''.'' \<and> s \<noteq> ''..'' \<and> CHR ''/'' \<notin> set s)"

definition clean_path :: "path \<Rightarrow> bool" where
  "clean_path p = list_all plain_name p"

section \<open>Files\<close>

definition parent :: "path \<Rightarrow> path" where
  "parent p = butlast p"

text \<open>
  The error for a path that is not there: a missing element, or an element that is a file where
  a directory is wanted, which \<^verbatim>\<open>os.IsNotExist\<close> does not accept.
\<close>

definition missing :: "fs \<Rightarrow> path \<Rightarrow> fs_error" where
  "missing fs p =
     (case find (\<lambda>q. case map_of fs q of Some (File _) \<Rightarrow> True | _ \<Rightarrow> False) (prefixes p) of
        Some q \<Rightarrow> NotDirectory q
      | None \<Rightarrow> NotExist p)"

fun IsNotExist :: "fs_error \<Rightarrow> bool" where
  "IsNotExist (NotExist p) = True"
| "IsNotExist (IsDirectory p) = False"
| "IsNotExist (NotDirectory p) = False"

definition ReadFile :: "fs \<Rightarrow> path \<Rightarrow> fs_error + bytes" where
  "ReadFile fs p =
     (case map_of fs p of
        Some (File data) \<Rightarrow> Inr data
      | Some Dir \<Rightarrow> Inl (IsDirectory p)
      | None \<Rightarrow> Inl (missing fs p))"

definition WriteFile :: "fs \<Rightarrow> path \<Rightarrow> bytes \<Rightarrow> fs_error + fs" where
  "WriteFile fs p data =
     (case map_of fs (parent p) of
        None \<Rightarrow> Inl (missing fs (parent p))
      | Some (File _) \<Rightarrow> Inl (NotDirectory (parent p))
      | Some Dir \<Rightarrow>
          (case map_of fs p of
             Some Dir \<Rightarrow> Inl (IsDirectory p)
           | _ \<Rightarrow> Inr (put p (File data) fs)))"

text \<open>
  Opening with \<^verbatim>\<open>O_CREATE|O_APPEND|O_WRONLY\<close> and writing once: the file exists afterwards, with
  the data at its end.
\<close>

definition AppendFile :: "fs \<Rightarrow> path \<Rightarrow> bytes \<Rightarrow> fs_error + fs" where
  "AppendFile fs p data =
     (case map_of fs p of
        Some (File old) \<Rightarrow> WriteFile fs p (old @ data)
      | _ \<Rightarrow> WriteFile fs p data)"

fun MkdirAll :: "fs \<Rightarrow> path \<Rightarrow> path \<Rightarrow> fs_error + fs" where
  "MkdirAll fs done [] = Inr fs"
| "MkdirAll fs done (e # es) =
     (let p = done @ [e]
      in case map_of fs p of
           Some (File _) \<Rightarrow> Inl (NotDirectory p)
         | Some Dir \<Rightarrow> MkdirAll fs p es
         | None \<Rightarrow> MkdirAll (put p Dir fs) p es)"

definition RemoveAll :: "fs \<Rightarrow> path \<Rightarrow> fs" where
  "RemoveAll fs p = filter (\<lambda>(q, n). \<not> prefix p q) fs"

text \<open>The names of the directories in a directory, sorted, as \<^verbatim>\<open>os.ReadDir\<close> and \<^verbatim>\<open>IsDir\<close> give them.\<close>

definition subdirs :: "fs \<Rightarrow> path \<Rightarrow> string list" where
  "subdirs fs p =
     sort (remdups (map (last \<circ> fst) (filter (\<lambda>(q, n). q \<noteq> [] \<and> butlast q = p \<and> map_of fs q = Some Dir) fs)))"

definition ReadDirs :: "fs \<Rightarrow> path \<Rightarrow> fs_error + string list" where
  "ReadDirs fs p =
     (case map_of fs p of
        Some Dir \<Rightarrow> Inr (subdirs fs p)
      | Some (File _) \<Rightarrow> Inl (NotDirectory p)
      | None \<Rightarrow> Inl (missing fs p))"

section \<open>Lines\<close>

fun split_lines :: "bytes \<Rightarrow> bytes list" where
  "split_lines [] = [[]]"
| "split_lines (c # s) =
     (if c = CHR 0x0A then [] # split_lines s
      else case split_lines s of x # xs \<Rightarrow> (c # x) # xs | [] \<Rightarrow> [[c]])"

text \<open>
  The tokens of a \<^verbatim>\<open>bufio.Scanner\<close>: the lines without their line feed and at most one carriage
  return, and no last line if it is empty. A line that does not fit the buffer stops the scan
  with an error.
\<close>

definition dropCR :: "bytes \<Rightarrow> bytes" where
  "dropCR l = (if l \<noteq> [] \<and> last l = CHR 0x0D then butlast l else l)"

fun scan_tokens :: "nat \<Rightarrow> bytes list \<Rightarrow> bytes list \<times> bool" where
  "scan_tokens limit [] = ([], True)"
| "scan_tokens limit [l] =
     (if limit \<le> length l then ([], False) else if l = [] then ([], True) else ([dropCR l], True))"
| "scan_tokens limit (l # ls) =
     (if limit \<le> length l then ([], False)
      else let (ts, ok) = scan_tokens limit ls in (dropCR l # ts, ok))"

definition Scan :: "nat \<Rightarrow> bytes \<Rightarrow> bytes list \<times> bool" where
  "Scan limit data = scan_tokens limit (split_lines data)"

section \<open>Facts\<close>

lemma map_of_RemoveAll [simp]: "map_of (RemoveAll fs p) q = (if prefix p q then None else map_of fs q)"
  by (induction fs) (auto simp: RemoveAll_def)

lemma WriteFile_Inr: "WriteFile fs p data = Inr fs' \<Longrightarrow> fs' = put p (File data) fs"
  by (auto simp: WriteFile_def split: option.splits node.splits)

lemma ReadFile_WriteFile: "WriteFile fs p data = Inr fs' \<Longrightarrow> ReadFile fs' p = Inr data"
  by (auto dest!: WriteFile_Inr simp: ReadFile_def)

lemma ReadFile_missing: "map_of fs p = None \<Longrightarrow> map_of fs (parent p) = Some Dir \<Longrightarrow>
  \<forall>q. strict_prefix q (parent p) \<longrightarrow> (\<forall>d. map_of fs q \<noteq> Some (File d)) \<Longrightarrow> p \<noteq> [] \<Longrightarrow> ReadFile fs p = Inl (NotExist p)"
proof -
  assume a: "map_of fs p = None" "map_of fs (parent p) = Some Dir" "p \<noteq> []"
    and b: "\<forall>q. strict_prefix q (parent p) \<longrightarrow> (\<forall>d. map_of fs q \<noteq> Some (File d))"
  have "q = p \<or> q = parent p \<or> strict_prefix q (parent p)" if "prefix q p" for q
    using that \<open>p \<noteq> []\<close> by (cases p rule: rev_cases) (auto simp: parent_def prefix_snoc strict_prefix_def)
  then have "find (\<lambda>q. case map_of fs q of Some (File _) \<Rightarrow> True | _ \<Rightarrow> False) (prefixes p) = None"
    unfolding find_None_iff in_set_prefixes using a b
    by (fastforce split: option.splits node.splits)
  with a show ?thesis by (simp add: ReadFile_def missing_def)
qed

lemma ReadFile_put_other:
  "q \<noteq> p \<Longrightarrow> \<not> strict_prefix p q \<Longrightarrow> ReadFile (put p n fs) q = ReadFile fs q"
proof -
  assume "q \<noteq> p" "\<not> strict_prefix p q"
  then have "p \<notin> set (prefixes q)" by (simp add: in_set_prefixes)
  then have "find (\<lambda>r. case map_of (put p n fs) r of Some (File _) \<Rightarrow> True | _ \<Rightarrow> False) (prefixes q)
      = find (\<lambda>r. case map_of fs r of Some (File _) \<Rightarrow> True | _ \<Rightarrow> False) (prefixes q)"
    by (intro find_cong) auto
  with \<open>q \<noteq> p\<close> show ?thesis by (auto simp: ReadFile_def missing_def split: option.splits node.splits)
qed

lemma WriteFile_ok:
  "map_of fs (parent p) = Some Dir \<Longrightarrow> map_of fs p \<noteq> Some Dir \<Longrightarrow> WriteFile fs p data = Inr (put p (File data) fs)"
  by (auto simp: WriteFile_def split: option.splits node.splits)

lemma split_lines_not_Nil [simp]: "split_lines s \<noteq> []"
  by (cases s) (auto split: list.split)

lemma split_lines_line: "CHR 0x0A \<notin> set l \<Longrightarrow> split_lines (l @ CHR 0x0A # s) = l # split_lines s"
  by (induction l) auto

lemma split_lines_single: "CHR 0x0A \<notin> set l \<Longrightarrow> split_lines l = [l]"
  by (induction l) auto

definition unlines :: "bytes list \<Rightarrow> bytes" where
  "unlines ls = concat (map (\<lambda>l. l @ [CHR 0x0A]) ls)"

lemma unlines_simps [simp]: "unlines [] = []" "unlines (l # ls) = l @ CHR 0x0A # unlines ls"
  "unlines (ls @ ls') = unlines ls @ unlines ls'"
  by (simp_all add: unlines_def)

lemma split_lines_unlines: "list_all (\<lambda>l. CHR 0x0A \<notin> set l) ls \<Longrightarrow> split_lines (unlines ls) = ls @ [[]]"
  by (induction ls) (auto simp: split_lines_line)

lemma scan_tokens_ok:
  "list_all (\<lambda>l. length l < limit) ls \<Longrightarrow> 0 < limit \<Longrightarrow> scan_tokens limit (ls @ [[]]) = (map dropCR ls, True)"
proof (induction ls)
  case Nil
  then show ?case by simp
next
  case (Cons l ls)
  then show ?case by (cases "ls @ [[] :: bytes]") (auto simp: Let_def)
qed

lemma Scan_unlines:
  "list_all (\<lambda>l. CHR 0x0A \<notin> set l \<and> length l < limit) ls \<Longrightarrow> 0 < limit \<Longrightarrow>
   Scan limit (unlines ls) = (map dropCR ls, True)"
  by (simp add: Scan_def split_lines_unlines scan_tokens_ok list_all_iff)

lemma scan_tokens_long:
  "\<exists>l\<in>set ls. limit \<le> length l \<Longrightarrow> snd (scan_tokens limit ls) = False"
  by (induction limit ls rule: scan_tokens.induct) (auto simp: Let_def case_prod_beta)

lemma Scan_long:
  "l \<in> set ls \<Longrightarrow> limit \<le> length l \<Longrightarrow> list_all (\<lambda>l. CHR 0x0A \<notin> set l) ls \<Longrightarrow> snd (Scan limit (unlines ls)) = False"
  using scan_tokens_long [of "ls @ [[]]" limit] by (auto simp: Scan_def split_lines_unlines)

lemma subdirs_set: "set (subdirs fs p) = {e. map_of fs (p @ [e]) = Some Dir}"
proof -
  have "\<exists>q n. (q, n) \<in> set fs \<and> q \<noteq> [] \<and> butlast q = p \<and> map_of fs q = Some Dir \<and> e = last q"
    if "map_of fs (p @ [e]) = Some Dir" for e
    using that map_of_SomeD [OF that] by fastforce
  moreover have "map_of fs (p @ [last q]) = Some Dir" if "q \<noteq> []" "butlast q = p" "map_of fs q = Some Dir" for q
    using that append_butlast_last_id [of q] by simp
  ultimately show ?thesis by (auto simp: subdirs_def image_iff)
qed

lemma subdirs_distinct [simp]: "distinct (subdirs fs p)"
  by (simp add: subdirs_def)

section \<open>Facts on clean paths\<close>

lemma split_slash_plain: "CHR ''/'' \<notin> set s \<Longrightarrow> split_slash s = [s]"
  by (induction s) auto

lemma clean_elems_plain: "clean_path es \<Longrightarrow> clean_elems r st es = rev st @ es"
  by (induction es arbitrary: st) (auto simp: clean_path_def plain_name_def)

lemma clean_elems_append:
  "clean_path es \<Longrightarrow> clean_elems r st (es @ fs) = clean_elems r (rev es @ st) fs"
  by (induction es arbitrary: st) (auto simp: clean_path_def plain_name_def)

lemma split_slash_no_slash: "e \<in> set (split_slash s) \<Longrightarrow> CHR ''/'' \<notin> set e"
  by (induction s arbitrary: e) (auto split: if_splits list.splits)

lemma clean_elems_rooted:
  "clean_path st \<Longrightarrow> (\<And>e. e \<in> set es \<Longrightarrow> CHR ''/'' \<notin> set e) \<Longrightarrow> clean_path (clean_elems True st es)"
proof (induction True st es rule: clean_elems.induct)
  case (1 stack)
  then show ?case by (simp add: clean_path_def list_all_iff)
next
  case (2 stack e es)
  show ?case
  proof (cases "e = '''' \<or> e = ''.''")
    case True
    with 2 show ?thesis by auto
  next
    case f1: False
    show ?thesis
    proof (cases "e = ''..''")
      case True
      with 2 show ?thesis
        by (auto simp: clean_path_def plain_name_def split: list.split)
    next
      case False
      with f1 2 show ?thesis by (auto simp: clean_path_def plain_name_def)
    qed
  qed
qed

lemma JoinPath_plain: "clean_path base \<Longrightarrow> clean_path es \<Longrightarrow> JoinPath base es = base @ es"
proof -
  assume b: "clean_path base" and e: "clean_path es"
  then have "concat (map split_slash es) = es"
    by (induction es) (auto simp: clean_path_def plain_name_def split_slash_plain)
  with b e show ?thesis
    by (simp add: JoinPath_def clean_elems_plain clean_path_def)
qed

lemma RelPath_prefix: "RelPath bs (bs @ ts) = ts"
proof (induction bs)
  case Nil
  show ?case by (cases ts) simp_all
next
  case (Cons b bs)
  then show ?case by simp
qed

section \<open>Trees\<close>

text \<open>Every node other than the root stands in a directory.\<close>

definition tree_ok :: "fs \<Rightarrow> bool" where
  "tree_ok fs =
     (map_of fs [] = Some Dir \<and> list_all (\<lambda>p. p = [] \<or> map_of fs (butlast p) = Some Dir) (map fst fs))"

lemma tree_ok_iff:
  "tree_ok fs \<longleftrightarrow>
     map_of fs [] = Some Dir \<and> (\<forall>p e n. map_of fs (p @ [e]) = Some n \<longrightarrow> map_of fs p = Some Dir)"
    (is "_ \<longleftrightarrow> _ \<and> ?up")
proof -
  have "?up" if "list_all (\<lambda>p. p = [] \<or> map_of fs (butlast p) = Some Dir) (map fst fs)"
    using that by (fastforce simp: list_all_iff dest: map_of_SomeD)
  moreover have "p = [] \<or> map_of fs (butlast p) = Some Dir" if up: ?up and "p \<in> fst ` set fs" for p
  proof (cases p rule: rev_cases)
    case (snoc q e)
    moreover obtain n where "map_of fs p = Some n"
      using \<open>p \<in> fst ` set fs\<close> by (metis map_of_eq_None_iff not_None_eq)
    ultimately show ?thesis using up by auto
  qed simp
  ultimately show ?thesis unfolding tree_ok_def list_all_iff by fastforce
qed

lemma tree_ancestor: "tree_ok fs \<Longrightarrow> map_of fs p = Some n \<Longrightarrow> strict_prefix q p \<Longrightarrow> map_of fs q = Some Dir"
proof (induction p arbitrary: n rule: rev_induct)
  case (snoc e p)
  then have "map_of fs p = Some Dir" by (auto simp: tree_ok_iff)
  moreover have "q = p \<or> strict_prefix q p"
    using snoc.prems(3) by (auto simp: strict_prefix_def prefix_snoc)
  ultimately show ?case using snoc by blast
qed simp

lemma tree_ok_put:
  "tree_ok fs \<Longrightarrow> map_of fs p = Some Dir \<Longrightarrow> map_of fs (p @ [e]) \<noteq> Some Dir \<or> n = Dir \<Longrightarrow> tree_ok (put (p @ [e]) n fs)"
  by (auto simp: tree_ok_iff)

lemma tree_ok_RemoveAll: "tree_ok fs \<Longrightarrow> p \<noteq> [] \<Longrightarrow> tree_ok (RemoveAll fs p)"
  by (auto simp: tree_ok_iff prefix_snoc)

lemma MkdirAll_map_of:
  "MkdirAll fs d es = Inr fs' \<Longrightarrow>
   map_of fs' q = (if strict_prefix d q \<and> prefix q (d @ es) then Some Dir else map_of fs q)"
proof (induction fs d es arbitrary: fs' rule: MkdirAll.induct)
  case (1 fs d)
  then show ?case by (auto simp: strict_prefix_def dest: prefix_order.antisym)
next
  case (2 fs d e es)
  have range: "strict_prefix d q \<and> prefix q (d @ e # es)
      \<longleftrightarrow> q = d @ [e] \<or> strict_prefix (d @ [e]) q \<and> prefix q (d @ e # es)"
    by (auto simp: strict_prefix_def prefix_def append_eq_append_conv2 Cons_eq_append_conv append_eq_Cons_conv)
  show ?case
  proof (cases "map_of fs (d @ [e])")
    case None
    with 2 show ?thesis unfolding range by (auto simp: Let_def)
  next
    case (Some n)
    with 2 show ?thesis unfolding range by (cases n) (auto simp: Let_def)
  qed
qed

lemma MkdirAll_no_file:
  "MkdirAll fs d es = Inr fs' \<Longrightarrow> strict_prefix d q \<Longrightarrow> prefix q (d @ es) \<Longrightarrow> map_of fs q \<noteq> Some (File x)"
proof (induction fs d es arbitrary: fs' rule: MkdirAll.induct)
  case (1 fs d)
  then show ?case by (auto simp: strict_prefix_def dest: prefix_order.antisym)
next
  case (2 fs d e es)
  have "q = d @ [e] \<or> strict_prefix (d @ [e]) q"
    using "2.prems"(2,3)
    by (auto simp: strict_prefix_def prefix_def append_eq_append_conv2 Cons_eq_append_conv append_eq_Cons_conv)
  moreover have "prefix q ((d @ [e]) @ es)" using "2.prems"(3) by simp
  ultimately show ?case
  proof (cases "map_of fs (d @ [e])")
    case None
    with "2.IH"(1) [OF refl None, of fs'] "2.prems"(1) \<open>q = _ \<or> _\<close> \<open>prefix q ((d @ [e]) @ es)\<close> show ?thesis
      by (auto simp: Let_def split: if_splits)
  next
    case (Some n)
    with "2.IH"(2) [OF refl Some, of fs'] "2.prems"(1) \<open>q = _ \<or> _\<close> \<open>prefix q ((d @ [e]) @ es)\<close> show ?thesis
      by (cases n) (auto simp: Let_def)
  qed
qed

lemma MkdirAll_tree_ok:
  "MkdirAll fs d es = Inr fs' \<Longrightarrow> tree_ok fs \<Longrightarrow> map_of fs d = Some Dir \<Longrightarrow> tree_ok fs'"
proof (induction fs d es arbitrary: fs' rule: MkdirAll.induct)
  case (2 fs d e es)
  then show ?case
    by (cases "map_of fs (d @ [e])") (auto simp: Let_def tree_ok_put split: node.splits)
qed simp

lemma MkdirAll_total:
  "(\<And>q x. strict_prefix d q \<Longrightarrow> prefix q (d @ es) \<Longrightarrow> map_of fs q \<noteq> Some (File x)) \<Longrightarrow>
   \<exists>fs'. MkdirAll fs d es = Inr fs'"
proof (induction fs d es rule: MkdirAll.induct)
  case (2 fs d e es)
  have sub: "strict_prefix d q \<and> prefix q (d @ e # es)" if "strict_prefix (d @ [e]) q" "prefix q ((d @ [e]) @ es)" for q
    using that by (auto simp: strict_prefix_def dest: append_prefixD prefix_order.antisym)
  have "map_of fs (d @ [e]) \<noteq> Some (File x)" for x
    by (rule "2.prems") (auto simp: strict_prefix_def)
  then consider "map_of fs (d @ [e]) = None" | "map_of fs (d @ [e]) = Some Dir"
    by (metis node.exhaust option.exhaust)
  then show ?case
  proof cases
    case 1
    have "\<exists>fs'. MkdirAll (put (d @ [e]) Dir fs) (d @ [e]) es = Inr fs'"
      by (rule "2.IH"(1) [OF refl 1]) (use 1 sub "2.prems" in auto)
    with 1 show ?thesis by (simp add: Let_def)
  next
    case 2
    have "\<exists>fs'. MkdirAll fs (d @ [e]) es = Inr fs'"
      by (rule "2.IH"(2) [OF refl 2 refl]) (use sub "2.prems" in auto)
    with 2 show ?thesis by (simp add: Let_def)
  qed
qed simp

text \<open>Reading depends on the node and on which of its ancestors are files.\<close>

lemma ReadFile_cong:
  assumes "map_of fs p = map_of fs' p"
    and "\<And>q x. strict_prefix q p \<Longrightarrow> map_of fs q = Some (File x) \<longleftrightarrow> map_of fs' q = Some (File x)"
  shows "ReadFile fs p = ReadFile fs' p"
proof -
  let ?file = "\<lambda>fs q. case map_of fs q of Some (File _) \<Rightarrow> True | _ \<Rightarrow> False"
  have is_file: "?file fs q \<longleftrightarrow> (\<exists>x. map_of fs q = Some (File x))" for fs q
    by (auto split: option.splits node.splits)
  have "?file fs q = ?file fs' q" if "q \<in> set (prefixes p)" for q
    using that assms unfolding is_file by (cases "q = p") (auto simp: strict_prefix_def)
  then have "find (?file fs) (prefixes p) = find (?file fs') (prefixes p)"
    by (intro find_cong) auto
  then have "missing fs p = missing fs' p" by (simp add: missing_def)
  with assms(1) show ?thesis by (simp add: ReadFile_def split: option.split)
qed

lemma ReadFile_None:
  assumes "tree_ok fs" "map_of fs p = None" "p \<noteq> []" "map_of fs (butlast p) = Some Dir"
  shows "ReadFile fs p = Inl (NotExist p)"
  using ReadFile_missing [of fs p] assms tree_ancestor [OF assms(1,4)] by (auto simp: parent_def)

section \<open>Joining below a path\<close>

lemma clean_elems_rooted_append:
  "clean_elems True st (xs @ ys) = clean_elems True (rev (clean_elems True st xs)) ys"
  by (induction True st xs rule: clean_elems.induct) (auto split: list.splits)

lemma split_slash_clean: "clean_path es \<Longrightarrow> concat (map split_slash es) = es"
  by (induction es) (auto simp: clean_path_def plain_name_def split_slash_plain)

lemma JoinPath_below: "clean_path es \<Longrightarrow> JoinPath base (s # es) = JoinPath base [s] @ es"
  using clean_elems_rooted_append [of "[]" "base @ split_slash s" es]
  by (simp add: JoinPath_def split_slash_clean clean_elems_plain)

lemma clean_elems_relative:
  "clean_path ps \<Longrightarrow> list_all (\<lambda>e. CHR ''/'' \<notin> set e) es \<Longrightarrow>
   \<exists>n ps'. clean_elems False (rev ps @ replicate m ''..'') es = replicate n ''..'' @ ps' \<and> clean_path ps'"
proof (induction es arbitrary: ps m)
  case Nil
  then show ?case by auto
next
  case (Cons e es)
  consider "e = '''' \<or> e = ''.''" | "e = ''..''" | "plain_name e"
    using Cons.prems(2) by (auto simp: plain_name_def)
  then show ?case
  proof cases
    case 1
    with Cons show ?thesis by auto
  next
    case 2
    show ?thesis
    proof (cases ps rule: rev_cases)
      case Nil
      with 2 Cons.IH [of "[]" "Suc m"] Cons.prems show ?thesis by (cases m) auto
    next
      case (snoc qs q)
      with 2 Cons.IH [of qs m] Cons.prems show ?thesis by (auto simp: clean_path_def plain_name_def)
    qed
  next
    case 3
    with Cons.IH [of "ps @ [e]" m] Cons.prems show ?thesis by (auto simp: clean_path_def plain_name_def)
  qed
qed

lemma Clean_inside:
  assumes "Clean ref = (rooted, es)" and "\<not> (\<not> rooted \<and> (case es of [] \<Rightarrow> True | e # _ \<Rightarrow> e = ''..''))"
  shows "clean_path es"
proof (cases rooted)
  case True
  with assms(1) clean_elems_rooted [of "[]" "split_slash ref"] split_slash_no_slash show ?thesis
    by (auto simp: Clean_def Let_def clean_path_def)
next
  case False
  with assms(1) have es: "es = clean_elems False [] (split_slash ref)" by (auto simp: Clean_def Let_def)
  with clean_elems_relative [of "[]" "split_slash ref" 0] split_slash_no_slash [of _ ref]
  obtain n ps where "es = replicate n ''..'' @ ps" "clean_path ps" by (auto simp: clean_path_def list_all_iff)
  with assms(2) False show ?thesis by (cases n) auto
qed

lemma split_slash_append: "CHR ''/'' \<notin> set a \<Longrightarrow> split_slash (a @ CHR ''/'' # s) = a # split_slash s"
  by (induction a) auto

end
