(* ===== verification/Storage.thy ===== *)
theory Storage
  imports Model Go_Strings File_System
begin

text \<open>
  The file store (\<^verbatim>\<open>internal/storage/filestore.go\<close>) and the three interfaces of
  \<^verbatim>\<open>internal/storage/store.go\<close>. The store keeps each session in a directory
  \<^verbatim>\<open>{baseDir}/{id}\<close> with \<^verbatim>\<open>session.json\<close>, \<^verbatim>\<open>records.jsonl\<close>, \<^verbatim>\<open>replay-records.jsonl\<close>,
  \<^verbatim>\<open>diff-results.json\<close> and the request bodies under \<^verbatim>\<open>artifacts\<close>. Every method holds the lock of
  the store from its first to its last access, so a method is one step on the file system here.
  The JSON encodings of the three stored types are a parameter (\<^verbatim>\<open>json_codec\<close>), the generated id
  and the clock are arguments. A nil slice or map and an empty one are the same value.
\<close>

section \<open>Types\<close>

record json_codec =
  marshalSession :: "Session \<Rightarrow> bytes option"
  unmarshalSession :: "bytes \<Rightarrow> Session option"
  marshalRecord :: "Record \<Rightarrow> bytes option"
  unmarshalRecord :: "bytes \<Rightarrow> Record option"
  marshalResults :: "DiffResult list \<Rightarrow> bytes option"
  unmarshalResults :: "bytes \<Rightarrow> DiffResult list option"

datatype storage_error =
    FsError fs_error
  | MarshalError
  | UnmarshalError
  | ErrTooLong
  | RecordNotFound string
  | ArtifactPathEmpty
  | InvalidArtifactPath string
  | SourceError

record FileStore =
  store_baseDir :: path

definition NewFileStore :: "fs \<Rightarrow> path \<Rightarrow> storage_error + (fs \<times> FileStore)" where
  "NewFileStore fs baseDir =
     (let dir = JoinPath baseDir [''sessions'']
      in case MkdirAll fs [] dir of
           Inl e \<Rightarrow> Inl (FsError e)
         | Inr fs' \<Rightarrow> Inr (fs', \<lparr>store_baseDir = dir\<rparr>))"

section \<open>Sessions\<close>

definition loadSession :: "json_codec \<Rightarrow> FileStore \<Rightarrow> fs \<Rightarrow> string \<Rightarrow> storage_error + Session" where
  "loadSession json st fs sid =
     (case ReadFile fs (JoinPath (store_baseDir st) [sid, ''session.json'']) of
        Inl e \<Rightarrow> Inl (FsError e)
      | Inr data \<Rightarrow>
          (case unmarshalSession json data of
             None \<Rightarrow> Inl UnmarshalError
           | Some sess \<Rightarrow> Inr sess))"

definition saveSession :: "json_codec \<Rightarrow> FileStore \<Rightarrow> fs \<Rightarrow> Session \<Rightarrow> fs \<times> storage_error option" where
  "saveSession json st fs sess =
     (case marshalSession json sess of
        None \<Rightarrow> (fs, Some MarshalError)
      | Some data \<Rightarrow>
          (case WriteFile fs (JoinPath (store_baseDir st) [sess_ID sess, ''session.json'']) data of
             Inl e \<Rightarrow> (fs, Some (FsError e))
           | Inr fs' \<Rightarrow> (fs', None)))"

text \<open>The session is a pointer: the caller sees the fields that \<^verbatim>\<open>Create\<close> and \<^verbatim>\<open>Update\<close> fill in.\<close>

definition fill_session :: "string \<Rightarrow> int \<Rightarrow> Session \<Rightarrow> Session" where
  "fill_session uuid now session =
     (let session = (if sess_ID session = '''' then session\<lparr>sess_ID := take 8 uuid\<rparr> else session);
          session = (if sess_CreatedAt session = 0 then session\<lparr>sess_CreatedAt := now\<rparr> else session)
      in session\<lparr>sess_UpdatedAt := now\<rparr>)"

definition Create ::
  "json_codec \<Rightarrow> FileStore \<Rightarrow> string \<Rightarrow> int \<Rightarrow> fs \<Rightarrow> Session \<Rightarrow> fs \<times> Session \<times> storage_error option" where
  "Create json st uuid now fs session =
     (let session = fill_session uuid now session
      in case MkdirAll fs [] (JoinPath (store_baseDir st) [sess_ID session]) of
           Inl e \<Rightarrow> (fs, session, Some (FsError e))
         | Inr fs' \<Rightarrow> (let (fs'', e) = saveSession json st fs' session in (fs'', session, e)))"

definition Get :: "json_codec \<Rightarrow> FileStore \<Rightarrow> fs \<Rightarrow> string \<Rightarrow> storage_error + Session" where
  "Get json st fs sid = loadSession json st fs sid"

definition Update ::
  "json_codec \<Rightarrow> FileStore \<Rightarrow> int \<Rightarrow> fs \<Rightarrow> Session \<Rightarrow> fs \<times> Session \<times> storage_error option" where
  "Update json st now fs session =
     (let session = session\<lparr>sess_UpdatedAt := now\<rparr>;
          (fs', e) = saveSession json st fs session
      in (fs', session, e))"

definition Delete :: "FileStore \<Rightarrow> fs \<Rightarrow> string \<Rightarrow> fs" where
  "Delete st fs sid = RemoveAll fs (JoinPath (store_baseDir st) [sid])"

fun hasAnyTag_loop :: "string list \<Rightarrow> string list \<Rightarrow> bool" where
  "hasAnyTag_loop tagSet [] = False"
| "hasAnyTag_loop tagSet (t # filterTags) = (if t \<in> set tagSet then True else hasAnyTag_loop tagSet filterTags)"

definition hasAnyTag :: "string list \<Rightarrow> string list \<Rightarrow> bool" where
  "hasAnyTag sessionTags filterTags = hasAnyTag_loop sessionTags filterTags"

definition filter_keeps :: "SessionFilter option \<Rightarrow> Session \<Rightarrow> bool" where
  "filter_keeps flt sess =
     (case flt of
        None \<Rightarrow> True
      | Some f \<Rightarrow>
          if flt_Name f \<noteq> '''' \<and> \<not> Contains (sess_Name sess) (flt_Name f) then False
          else if flt_Status f \<noteq> '''' \<and> status_string (sess_Status sess) \<noteq> flt_Status f then False
          else if flt_Tags f \<noteq> [] \<and> \<not> hasAnyTag (sess_Tags sess) (flt_Tags f) then False
          else True)"

text \<open>
  The loop over the directory entries that \<^verbatim>\<open>List\<close> and \<^verbatim>\<open>PruneOldest\<close> share: a session that does
  not load is skipped.
\<close>

fun load_entries ::
  "json_codec \<Rightarrow> FileStore \<Rightarrow> fs \<Rightarrow> SessionFilter option \<Rightarrow> string list \<Rightarrow> Session list" where
  "load_entries json st fs flt [] = []"
| "load_entries json st fs flt (name # entries) =
     (case loadSession json st fs name of
        Inl e \<Rightarrow> load_entries json st fs flt entries
      | Inr sess \<Rightarrow>
          if filter_keeps flt sess then sess # load_entries json st fs flt entries
          else load_entries json st fs flt entries)"

text \<open>
  \<^verbatim>\<open>sort.Slice\<close> leaves the order of equal keys open (below thirteen elements it is an insertion
  sort, which keeps it); the model takes the stable order, and no theorem depends on it.
\<close>

definition ListSessions ::
  "json_codec \<Rightarrow> FileStore \<Rightarrow> fs \<Rightarrow> SessionFilter option \<Rightarrow> storage_error + Session list" where
  "ListSessions json st fs flt =
     (case ReadDirs fs (store_baseDir st) of
        Inl e \<Rightarrow> Inl (FsError e)
      | Inr entries \<Rightarrow>
          Inr (sort_key (\<lambda>s. - sess_UpdatedAt s) (load_entries json st fs flt entries)))"

fun prune_loop :: "FileStore \<Rightarrow> nat \<Rightarrow> fs \<Rightarrow> Session list \<Rightarrow> fs" where
  "prune_loop st toDelete fs [] = fs"
| "prune_loop st toDelete fs (sess # sessions) =
     (if toDelete = 0 then fs
      else if sess_Status sess = SessionRecording then prune_loop st toDelete fs sessions
      else prune_loop st (toDelete - 1) (RemoveAll fs (JoinPath (store_baseDir st) [sess_ID sess])) sessions)"

definition PruneOldest :: "json_codec \<Rightarrow> FileStore \<Rightarrow> fs \<Rightarrow> int \<Rightarrow> fs \<times> storage_error option" where
  "PruneOldest json st fs maxSessions =
     (if maxSessions < 1 then (fs, None)
      else case ReadDirs fs (store_baseDir st) of
             Inl e \<Rightarrow> (fs, Some (FsError e))
           | Inr entries \<Rightarrow>
               (let sessions = load_entries json st fs None entries
                in if int (length sessions) \<le> maxSessions then (fs, None)
                   else (prune_loop st (length sessions - nat maxSessions) fs (sort_key sess_UpdatedAt sessions), None)))"

section \<open>Records\<close>

definition appendRecord ::
  "json_codec \<Rightarrow> FileStore \<Rightarrow> fs \<Rightarrow> string \<Rightarrow> string \<Rightarrow> Record \<Rightarrow> fs \<times> storage_error option" where
  "appendRecord json st fs sessionID filename record =
     (let path = JoinPath (store_baseDir st) [sessionID, filename]
      in case AppendFile fs path [] of
           Inl e \<Rightarrow> (fs, Some (FsError e))
         | Inr fs' \<Rightarrow>
             (case marshalRecord json record of
                None \<Rightarrow> (fs', Some MarshalError)
              | Some data \<Rightarrow>
                  (case AppendFile fs' path (data @ [CHR 0x0A]) of
                     Inl e \<Rightarrow> (fs', Some (FsError e))
                   | Inr fs'' \<Rightarrow> (fs'', None))))"

definition AppendRecord where
  "AppendRecord json st fs sessionID record = appendRecord json st fs sessionID ''records.jsonl'' record"

definition AppendReplayRecord where
  "AppendReplayRecord json st fs sessionID record = appendRecord json st fs sessionID ''replay-records.jsonl'' record"

definition scan_limit :: nat where
  "scan_limit = 10 * 1024 * 1024"

fun decode_lines :: "json_codec \<Rightarrow> bytes list \<Rightarrow> Record list" where
  "decode_lines json [] = []"
| "decode_lines json (line # ls) =
     (if line = [] then decode_lines json ls
      else case unmarshalRecord json line of
             None \<Rightarrow> decode_lines json ls
           | Some rec \<Rightarrow> rec # decode_lines json ls)"

definition listRecords ::
  "json_codec \<Rightarrow> FileStore \<Rightarrow> fs \<Rightarrow> string \<Rightarrow> string \<Rightarrow> Record list \<times> storage_error option" where
  "listRecords json st fs sessionID filename =
     (case ReadFile fs (JoinPath (store_baseDir st) [sessionID, filename]) of
        Inl e \<Rightarrow> if IsNotExist e then ([], None) else ([], Some (FsError e))
      | Inr data \<Rightarrow>
          (let (ls, ok) = Scan scan_limit data
           in (decode_lines json ls, if ok then None else Some ErrTooLong)))"

definition ListRecords where
  "ListRecords json st fs sessionID = listRecords json st fs sessionID ''records.jsonl''"

definition ListReplayRecords where
  "ListReplayRecords json st fs sessionID = listRecords json st fs sessionID ''replay-records.jsonl''"

fun find_record :: "string \<Rightarrow> Record list \<Rightarrow> Record option" where
  "find_record recordID [] = None"
| "find_record recordID (r # records) = (if rec_ID r = recordID then Some r else find_record recordID records)"

definition GetRecord :: "json_codec \<Rightarrow> FileStore \<Rightarrow> fs \<Rightarrow> string \<Rightarrow> string \<Rightarrow> storage_error + Record" where
  "GetRecord json st fs sessionID recordID =
     (case ListRecords json st fs sessionID of
        (records, Some e) \<Rightarrow> Inl e
      | (records, None) \<Rightarrow>
          (case find_record recordID records of
             Some r \<Rightarrow> Inr r
           | None \<Rightarrow> Inl (RecordNotFound recordID)))"

definition CountRecords :: "json_codec \<Rightarrow> FileStore \<Rightarrow> fs \<Rightarrow> string \<Rightarrow> storage_error + nat" where
  "CountRecords json st fs sessionID =
     (case ListRecords json st fs sessionID of
        (records, Some e) \<Rightarrow> Inl e
      | (records, None) \<Rightarrow> Inr (length records))"

section \<open>Request bodies\<close>

definition requestBodyArtifactPath :: "FileStore \<Rightarrow> string \<Rightarrow> string \<Rightarrow> storage_error + path" where
  "requestBodyArtifactPath st sessionID ref =
     (if ref = '''' then Inl ArtifactPathEmpty
      else let (rooted, clean) = Clean ref
           in if \<not> rooted \<and> (case clean of [] \<Rightarrow> True | e # _ \<Rightarrow> e = ''..'') then Inl (InvalidArtifactPath ref)
              else let fullPath = JoinPath (store_baseDir st) (sessionID # clean);
                       sessionRoot = JoinPath (store_baseDir st) [sessionID];
                       rel = RelPath sessionRoot fullPath
                   in if (case rel of [] \<Rightarrow> False | e # _ \<Rightarrow> e = ''..'') then Inl (InvalidArtifactPath ref)
                      else Inr fullPath)"

text \<open>The source is the bytes it delivers and whether it then ends without an error.\<close>

definition SaveRequestBodyArtifact ::
  "FileStore \<Rightarrow> fs \<Rightarrow> string \<Rightarrow> string \<Rightarrow> bytes \<times> bool \<Rightarrow> fs \<times> (storage_error + string)" where
  "SaveRequestBodyArtifact st fs sessionID recordID src =
     (let relPath = clean_elems False [] ([''artifacts'', ''request-bodies''] @ split_slash (recordID @ ''.bin''));
          fullPath = JoinPath (store_baseDir st) (sessionID # relPath)
      in case MkdirAll fs [] (parent fullPath) of
           Inl e \<Rightarrow> (fs, Inl (FsError e))
         | Inr fs1 \<Rightarrow>
             (case WriteFile fs1 fullPath (fst src) of
                Inl e \<Rightarrow> (fs1, Inl (FsError e))
              | Inr fs2 \<Rightarrow> if snd src then (fs2, Inr (Join relPath ''/'')) else (fs2, Inl SourceError)))"

definition OpenRequestBodyArtifact :: "FileStore \<Rightarrow> fs \<Rightarrow> string \<Rightarrow> string \<Rightarrow> storage_error + bytes" where
  "OpenRequestBodyArtifact st fs sessionID ref =
     (case requestBodyArtifactPath st sessionID ref of
        Inl e \<Rightarrow> Inl e
      | Inr fullPath \<Rightarrow>
          (case ReadFile fs fullPath of
             Inl e \<Rightarrow> Inl (FsError e)
           | Inr data \<Rightarrow> Inr data))"

section \<open>Diff results\<close>

definition SaveResults ::
  "json_codec \<Rightarrow> FileStore \<Rightarrow> fs \<Rightarrow> string \<Rightarrow> DiffResult list \<Rightarrow> fs \<times> storage_error option" where
  "SaveResults json st fs sessionID results =
     (case marshalResults json results of
        None \<Rightarrow> (fs, Some MarshalError)
      | Some data \<Rightarrow>
          (case WriteFile fs (JoinPath (store_baseDir st) [sessionID, ''diff-results.json'']) data of
             Inl e \<Rightarrow> (fs, Some (FsError e))
           | Inr fs' \<Rightarrow> (fs', None)))"

definition LoadResults ::
  "json_codec \<Rightarrow> FileStore \<Rightarrow> fs \<Rightarrow> string \<Rightarrow> storage_error + DiffResult list" where
  "LoadResults json st fs sessionID =
     (case ReadFile fs (JoinPath (store_baseDir st) [sessionID, ''diff-results.json'']) of
        Inl e \<Rightarrow> if IsNotExist e then Inr [] else Inl (FsError e)
      | Inr data \<Rightarrow>
          (case unmarshalResults json data of
             None \<Rightarrow> Inl UnmarshalError
           | Some results \<Rightarrow> Inr results))"

section \<open>The layout of the store\<close>

text \<open>
  The invariant of a store: its base is a directory of a proper tree, the nodes in the base are
  directories with proper names, and the four files of a session are not directories.
\<close>

definition store_files :: "string list" where
  "store_files = [''session.json'', ''records.jsonl'', ''replay-records.jsonl'', ''diff-results.json'']"

definition node_ok :: "path \<Rightarrow> path \<Rightarrow> node \<Rightarrow> bool" where
  "node_ok base p n =
     (strict_prefix base p \<longrightarrow>
        (case drop (length base) p of
           [e] \<Rightarrow> n = Dir \<and> plain_name e
         | [e, f] \<Rightarrow> f \<in> set store_files \<longrightarrow> n \<noteq> Dir
         | _ \<Rightarrow> True))"

definition store_inv :: "FileStore \<Rightarrow> fs \<Rightarrow> bool" where
  "store_inv st fs =
     (tree_ok fs \<and> clean_path (store_baseDir st) \<and> map_of fs (store_baseDir st) = Some Dir
      \<and> list_all (\<lambda>p. \<forall>n\<in>set_option (map_of fs p). node_ok (store_baseDir st) p n) (map fst fs))"

lemma store_inv_iff:
  "store_inv st fs \<longleftrightarrow> tree_ok fs \<and> clean_path (store_baseDir st) \<and> map_of fs (store_baseDir st) = Some Dir
     \<and> (\<forall>p n. map_of fs p = Some n \<longrightarrow> node_ok (store_baseDir st) p n)"
proof -
  have "p \<in> set (map fst fs)" if "map_of fs p = Some n" for p n
    using map_of_SomeD [OF that] by force
  then show ?thesis unfolding store_inv_def list_all_iff by auto
qed

lemma plain_store_file: "f \<in> set store_files \<Longrightarrow> plain_name f"
  by (auto simp: store_files_def plain_name_def)

lemma store_path:
  "store_inv st fs \<Longrightarrow> plain_name sid \<Longrightarrow> JoinPath (store_baseDir st) [sid] = store_baseDir st @ [sid]"
  "store_inv st fs \<Longrightarrow> plain_name sid \<Longrightarrow> plain_name f \<Longrightarrow> JoinPath (store_baseDir st) [sid, f] = store_baseDir st @ [sid, f]"
  by (auto simp: store_inv_def clean_path_def intro!: JoinPath_plain [unfolded clean_path_def])

lemma store_inv_put:
  assumes inv: "store_inv st fs" and "map_of fs (store_baseDir st @ [sid]) = Some Dir"
    and "map_of fs (store_baseDir st @ [sid, f]) \<noteq> Some Dir"
  shows "store_inv st (put (store_baseDir st @ [sid, f]) (File d) fs)"
proof -
  have "tree_ok (put ((store_baseDir st @ [sid]) @ [f]) (File d) fs)"
    by (rule tree_ok_put) (use assms in \<open>auto simp: store_inv_iff\<close>)
  with assms show ?thesis by (auto simp: store_inv_iff node_ok_def)
qed

lemma store_inv_MkdirAll:
  assumes inv: "store_inv st fs" and mk: "MkdirAll fs [] (store_baseDir st @ [sid]) = Inr fs'" and plain: "plain_name sid"
  shows "store_inv st fs'" "map_of fs' (store_baseDir st @ [sid]) = Some Dir"
    and "q \<noteq> store_baseDir st @ [sid] \<Longrightarrow> map_of fs' q = map_of fs q"
proof -
  note upd = MkdirAll_map_of [OF mk]
  have "map_of fs q = Some Dir" if "prefix q (store_baseDir st)" for q
    using that inv tree_ancestor [of fs "store_baseDir st" Dir q] by (cases "q = store_baseDir st") (auto simp: store_inv_iff strict_prefix_def)
  then show other: "map_of fs' q = map_of fs q" if "q \<noteq> store_baseDir st @ [sid]" for q
    using that unfolding upd by (auto simp: prefix_snoc)
  show new: "map_of fs' (store_baseDir st @ [sid]) = Some Dir" by (simp add: upd strict_prefix_def)
  have "tree_ok fs'" using MkdirAll_tree_ok [OF mk] inv by (auto simp: store_inv_iff tree_ok_iff)
  moreover have "node_ok (store_baseDir st) p n" if "map_of fs' p = Some n" for p n
    using that inv other new plain by (cases "p = store_baseDir st @ [sid]") (auto simp: store_inv_iff node_ok_def)
  ultimately show "store_inv st fs'" using inv other by (auto simp: store_inv_iff)
qed

lemma store_inv_nodes:
  assumes "store_inv st fs"
  shows "map_of fs (store_baseDir st @ [sid]) \<noteq> Some (File x)"
    and "map_of fs (store_baseDir st @ [sid]) = Some Dir \<Longrightarrow> plain_name sid"
    and "f \<in> set store_files \<Longrightarrow> map_of fs (store_baseDir st @ [sid, f]) \<noteq> Some Dir"
proof -
  have n: "node_ok (store_baseDir st) p n" if "map_of fs p = Some n" for p n
    using that assms by (simp add: store_inv_iff)
  show "map_of fs (store_baseDir st @ [sid]) \<noteq> Some (File x)"
    using n [of "store_baseDir st @ [sid]" "File x"] by (auto simp: node_ok_def strict_prefix_def)
  show "plain_name sid" if "map_of fs (store_baseDir st @ [sid]) = Some Dir"
    using n [OF that] by (auto simp: node_ok_def strict_prefix_def)
  show "map_of fs (store_baseDir st @ [sid, f]) \<noteq> Some Dir" if "f \<in> set store_files"
    using n [of "store_baseDir st @ [sid, f]" Dir] that by (auto simp: node_ok_def strict_prefix_def)
qed

lemma store_inv_RemoveAll:
  "store_inv st fs \<Longrightarrow> store_inv st (RemoveAll fs (store_baseDir st @ [sid]))"
  by (auto simp: store_inv_iff tree_ok_RemoveAll prefix_def)

lemma ReadFile_RemoveAll_other: "\<not> prefix p q \<Longrightarrow> ReadFile (RemoveAll fs p) q = ReadFile fs q"
  by (rule ReadFile_cong) (auto simp: strict_prefix_def dest: prefix_order.trans)

lemma ReadFile_RemoveAll_gone: "prefix p q \<Longrightarrow> \<exists>e. ReadFile (RemoveAll fs p) q = Inl e"
  by (simp add: ReadFile_def)

lemma ReadFile_MkdirAll:
  assumes "store_inv st fs" "MkdirAll fs [] (store_baseDir st @ [sid]) = Inr fs'" "plain_name sid"
    "q \<noteq> store_baseDir st @ [sid]"
  shows "ReadFile fs' q = ReadFile fs q"
proof (rule ReadFile_cong)
  fix r x
  assume "strict_prefix r q"
  show "map_of fs' r = Some (File x) \<longleftrightarrow> map_of fs r = Some (File x)"
    using store_inv_MkdirAll [OF assms(1,2,3)] MkdirAll_no_file [OF assms(2), of r x]
    by (cases "r = store_baseDir st @ [sid]") (auto simp: strict_prefix_def)
qed (use store_inv_MkdirAll(3) [OF assms] in simp)

lemma WriteFile_session:
  assumes inv: "store_inv st fs" and dir: "map_of fs (store_baseDir st @ [sid]) = Some Dir" and f: "f \<in> set store_files"
  shows "WriteFile fs (store_baseDir st @ [sid, f]) d = Inr (put (store_baseDir st @ [sid, f]) (File d) fs)"
    and "store_inv st (put (store_baseDir st @ [sid, f]) (File d) fs)"
proof -
  have "map_of fs (store_baseDir st @ [sid, f]) \<noteq> Some Dir" by (rule store_inv_nodes(3) [OF inv f])
  then show "WriteFile fs (store_baseDir st @ [sid, f]) d = Inr (put (store_baseDir st @ [sid, f]) (File d) fs)"
    and "store_inv st (put (store_baseDir st @ [sid, f]) (File d) fs)"
    using inv dir by (auto intro!: WriteFile_ok store_inv_put simp: parent_def butlast_append)
qed

lemma WriteFile_session_Inr:
  assumes inv: "store_inv st fs" and w: "WriteFile fs (store_baseDir st @ [sid, f]) d = Inr fs'" and f: "f \<in> set store_files"
  shows "fs' = put (store_baseDir st @ [sid, f]) (File d) fs" "store_inv st fs'"
    "map_of fs (store_baseDir st @ [sid]) = Some Dir"
proof -
  show "map_of fs (store_baseDir st @ [sid]) = Some Dir"
    using w by (auto simp: WriteFile_def parent_def butlast_append split: option.splits node.splits)
  with WriteFile_session [OF inv _ f] w show "fs' = put (store_baseDir st @ [sid, f]) (File d) fs" "store_inv st fs'"
    by auto
qed

section \<open>Refinement of a store\<close>

text \<open>
  What a client may rely on of a store: the operations keep its invariant, and on the abstract
  contents they act as the specification says. Both carry over to a sequence of operations.
\<close>

fun run_ops :: "('s \<Rightarrow> 'o \<Rightarrow> 's option) \<Rightarrow> 's \<Rightarrow> 'o list \<Rightarrow> 's option" where
  "run_ops step s [] = Some s"
| "run_ops step s (x # xs) = (case step s x of None \<Rightarrow> None | Some s' \<Rightarrow> run_ops step s' xs)"

locale store_contract =
  fixes inv :: "'s \<Rightarrow> bool" and ok :: "'o \<Rightarrow> bool" and step :: "'s \<Rightarrow> 'o \<Rightarrow> 's option"
    and contents :: "'s \<Rightarrow> 'a" and spec :: "'a \<Rightarrow> 'o \<Rightarrow> 'a"
  assumes step_inv: "inv s \<Longrightarrow> ok x \<Longrightarrow> step s x = Some s' \<Longrightarrow> inv s'"
    and step_spec: "inv s \<Longrightarrow> ok x \<Longrightarrow> step s x = Some s' \<Longrightarrow> contents s' = spec (contents s) x"
begin

lemma run_refines:
  "run_ops step s xs = Some s' \<Longrightarrow> inv s \<Longrightarrow> list_all ok xs \<Longrightarrow>
   inv s' \<and> contents s' = foldl spec (contents s) xs"
proof (induction xs arbitrary: s)
  case (Cons x xs)
  then obtain s1 where "step s x = Some s1" "run_ops step s1 xs = Some s'"
    by (auto split: option.splits)
  with Cons step_inv [of s x s1] step_spec [of s x s1] show ?case by simp
qed simp

end

locale total_store = store_contract +
  assumes step_total: "inv s \<Longrightarrow> ok x \<Longrightarrow> \<exists>s'. step s x = Some s'"
begin

lemma run_total:
  "inv s \<Longrightarrow> list_all ok xs \<Longrightarrow>
   \<exists>s'. run_ops step s xs = Some s' \<and> inv s' \<and> contents s' = foldl spec (contents s) xs"
proof (induction xs arbitrary: s)
  case (Cons x xs)
  then obtain s1 where "step s x = Some s1" using step_total by fastforce
  with Cons step_inv [of s x s1] step_spec [of s x s1] show ?case by fastforce
qed simp

end

section \<open>Sessions as a finite map\<close>

datatype session_op = CreateOp string int Session | UpdateOp int Session | DeleteOp string

fun session_step :: "json_codec \<Rightarrow> FileStore \<Rightarrow> fs \<Rightarrow> session_op \<Rightarrow> fs option" where
  "session_step json st fs (CreateOp uuid now s) =
     (case Create json st uuid now fs s of (fs', s', None) \<Rightarrow> Some fs' | (fs', s', Some e) \<Rightarrow> None)"
| "session_step json st fs (UpdateOp now s) =
     (case Update json st now fs s of (fs', s', None) \<Rightarrow> Some fs' | (fs', s', Some e) \<Rightarrow> None)"
| "session_step json st fs (DeleteOp sid) = Some (Delete st fs sid)"

fun session_spec :: "(string \<Rightarrow> Session option) \<Rightarrow> session_op \<Rightarrow> (string \<Rightarrow> Session option)" where
  "session_spec m (CreateOp uuid now s) = m(sess_ID (fill_session uuid now s) \<mapsto> fill_session uuid now s)"
| "session_spec m (UpdateOp now s) = m(sess_ID s \<mapsto> s\<lparr>sess_UpdatedAt := now\<rparr>)"
| "session_spec m (DeleteOp sid) = m(sid := None)"

text \<open>
  The session survives its JSON encoding, and its id is the name of a directory.
\<close>

definition session_ok :: "json_codec \<Rightarrow> Session \<Rightarrow> bool" where
  "session_ok json s =
     (plain_name (sess_ID s) \<and>
      (case marshalSession json s of None \<Rightarrow> False | Some d \<Rightarrow> unmarshalSession json d = Some s))"

fun session_op_ok :: "json_codec \<Rightarrow> session_op \<Rightarrow> bool" where
  "session_op_ok json (CreateOp uuid now s) = session_ok json (fill_session uuid now s)"
| "session_op_ok json (UpdateOp now s) = session_ok json (s\<lparr>sess_UpdatedAt := now\<rparr>)"
| "session_op_ok json (DeleteOp sid) = plain_name sid"

definition session_map :: "json_codec \<Rightarrow> FileStore \<Rightarrow> fs \<Rightarrow> string \<Rightarrow> Session option" where
  "session_map json st fs sid =
     (if plain_name sid then (case Get json st fs sid of Inl e \<Rightarrow> None | Inr s \<Rightarrow> Some s) else None)"

lemma session_json_file [simp]: "''session.json'' \<in> set store_files" "plain_name ''session.json''"
  by (simp_all add: store_files_def plain_name_def)

lemma saveSession_spec:
  assumes inv: "store_inv st fs" and ok: "session_ok json s" and dir: "map_of fs (store_baseDir st @ [sess_ID s]) = Some Dir"
  shows "\<exists>fs'. saveSession json st fs s = (fs', None) \<and> store_inv st fs'
           \<and> session_map json st fs' = (session_map json st fs)(sess_ID s \<mapsto> s)"
proof -
  let ?p = "\<lambda>sid. store_baseDir st @ [sid, ''session.json'']"
  from ok obtain d where d: "plain_name (sess_ID s)" "marshalSession json s = Some d" "unmarshalSession json d = Some s"
    by (auto simp: session_ok_def split: option.splits)
  let ?fs = "put (?p (sess_ID s)) (File d) fs"
  note w = WriteFile_session [OF inv dir session_json_file(1), of d]
  have "saveSession json st fs s = (?fs, None)"
    using d w(1) by (simp add: saveSession_def store_path(2) [OF inv])
  moreover have "session_map json st ?fs = (session_map json st fs)(sess_ID s \<mapsto> s)"
  proof
    fix sid
    show "session_map json st ?fs sid = ((session_map json st fs)(sess_ID s \<mapsto> s)) sid"
      using d by (cases "sid = sess_ID s")
        (auto simp: session_map_def Get_def loadSession_def store_path(2) [OF inv] ReadFile_put_other strict_prefix_def prefix_def
          ReadFile_WriteFile [OF w(1)])
  qed
  ultimately show ?thesis using w(2) by blast
qed

lemma Create_spec:
  assumes inv: "store_inv st fs" and ok: "session_ok json (fill_session uuid now s)"
  shows "\<exists>fs'. Create json st uuid now fs s = (fs', fill_session uuid now s, None) \<and> store_inv st fs'
           \<and> session_map json st fs' = (session_map json st fs)(sess_ID (fill_session uuid now s) \<mapsto> fill_session uuid now s)"
proof -
  let ?s = "fill_session uuid now s"
  have plain: "plain_name (sess_ID ?s)" using ok by (simp add: session_ok_def)
  have "map_of fs q \<noteq> Some (File x)" if "prefix q (store_baseDir st @ [sess_ID ?s])" for q x
  proof (cases "q = store_baseDir st @ [sess_ID ?s]")
    case True
    then show ?thesis using store_inv_nodes(1) [OF inv] by simp
  next
    case False
    with that have "prefix q (store_baseDir st)" by (simp add: prefix_snoc)
    with inv tree_ancestor [of fs "store_baseDir st" Dir q] show ?thesis
      by (cases "q = store_baseDir st") (auto simp: store_inv_iff strict_prefix_def)
  qed
  with MkdirAll_total [of "[]" "store_baseDir st @ [sess_ID ?s]" fs]
  obtain fs1 where mk: "MkdirAll fs [] (store_baseDir st @ [sess_ID ?s]) = Inr fs1" by auto
  note m = store_inv_MkdirAll [OF inv mk plain]
  have "session_map json st fs1 = session_map json st fs"
    by (auto simp: session_map_def Get_def loadSession_def fun_eq_iff store_path(2) [OF inv] ReadFile_MkdirAll [OF inv mk plain])
  with saveSession_spec [OF m(1) ok m(2)] mk plain show ?thesis
    by (auto simp: Create_def store_path(1) [OF inv])
qed

lemma Update_spec:
  assumes inv: "store_inv st fs" and ok: "session_ok json (s\<lparr>sess_UpdatedAt := now\<rparr>)"
    and upd: "Update json st now fs s = (fs', s', None)"
  shows "store_inv st fs'" "session_map json st fs' = (session_map json st fs)(sess_ID s \<mapsto> s\<lparr>sess_UpdatedAt := now\<rparr>)"
proof -
  from ok obtain d where d: "plain_name (sess_ID s)" "marshalSession json (s\<lparr>sess_UpdatedAt := now\<rparr>) = Some d"
    by (auto simp: session_ok_def split: option.splits)
  with upd have "WriteFile fs (store_baseDir st @ [sess_ID s, ''session.json'']) d = Inr fs'"
    by (auto simp: Update_def saveSession_def store_path(2) [OF inv] split: sum.splits)
  from WriteFile_session_Inr(3) [OF inv this] saveSession_spec [OF inv ok] upd
  show "store_inv st fs'" "session_map json st fs' = (session_map json st fs)(sess_ID s \<mapsto> s\<lparr>sess_UpdatedAt := now\<rparr>)"
    by (auto simp: Update_def)
qed

lemma Delete_spec:
  assumes inv: "store_inv st fs" and "plain_name sid"
  shows "store_inv st (Delete st fs sid)" "session_map json st (Delete st fs sid) = (session_map json st fs)(sid := None)"
proof -
  have "ReadFile (RemoveAll fs (store_baseDir st @ [sid])) (store_baseDir st @ [sid', f])
      = (if sid' = sid then Inl (missing (RemoveAll fs (store_baseDir st @ [sid])) (store_baseDir st @ [sid', f]))
         else ReadFile fs (store_baseDir st @ [sid', f]))" for sid' f
  proof (cases "sid' = sid")
    case True
    then show ?thesis by (simp add: ReadFile_def prefix_def)
  next
    case False
    then show ?thesis by (auto intro!: ReadFile_RemoveAll_other simp: prefix_def)
  qed
  with assms show "session_map json st (Delete st fs sid) = (session_map json st fs)(sid := None)"
    by (auto simp: fun_eq_iff session_map_def Get_def loadSession_def Delete_def store_path [OF inv])
  from assms show "store_inv st (Delete st fs sid)"
    by (simp add: Delete_def store_path(1) [OF inv] store_inv_RemoveAll)
qed

interpretation sessions: store_contract "store_inv st" "session_op_ok json" "session_step json st" "session_map json st" session_spec
  for json st
proof unfold_locales
  fix fs x fs'
  assume a: "store_inv st fs" "session_op_ok json x" "session_step json st fs x = Some fs'"
  have "store_inv st fs' \<and> session_map json st fs' = session_spec (session_map json st fs) x"
  proof (cases x)
    case (CreateOp uuid now s)
    with a Create_spec [of st fs json uuid now s] show ?thesis by (auto split: option.splits)
  next
    case (UpdateOp now s)
    with a show ?thesis using Update_spec [of st fs json now s fs'] by (auto split: option.splits prod.splits)
  next
    case (DeleteOp sid)
    with a Delete_spec [of st fs sid] show ?thesis by auto
  qed
  then show "store_inv st fs'" "session_map json st fs' = session_spec (session_map json st fs) x" by auto
qed

section \<open>Records as a list\<close>

text \<open>
  The JSON of a record is a line: not empty, without a line feed, not ending in a carriage
  return, shorter than the limit of the scanner; and it decodes to the record.
\<close>

definition record_ok :: "json_codec \<Rightarrow> Record \<Rightarrow> bool" where
  "record_ok json r =
     (case marshalRecord json r of
        None \<Rightarrow> False
      | Some d \<Rightarrow> d \<noteq> [] \<and> CHR 0x0A \<notin> set d \<and> dropCR d = d \<and> length d < scan_limit \<and> unmarshalRecord json d = Some r)"

definition lines_ok :: "bytes \<Rightarrow> bool" where
  "lines_ok data =
     (unlines (butlast (split_lines data)) = data \<and> list_all (\<lambda>l. length l < scan_limit) (split_lines data))"

text \<open>A session directory whose file holds complete lines that fit the scanner.\<close>

definition records_inv :: "FileStore \<Rightarrow> string \<Rightarrow> string \<Rightarrow> fs \<Rightarrow> bool" where
  "records_inv st sid f fs =
     (store_inv st fs \<and> plain_name sid \<and> f \<in> set store_files \<and> map_of fs (store_baseDir st @ [sid]) = Some Dir
      \<and> (case map_of fs (store_baseDir st @ [sid, f]) of Some (File data) \<Rightarrow> lines_ok data | _ \<Rightarrow> True))"

definition append_step :: "json_codec \<Rightarrow> FileStore \<Rightarrow> string \<Rightarrow> string \<Rightarrow> fs \<Rightarrow> Record \<Rightarrow> fs option" where
  "append_step json st sid f fs r =
     (case appendRecord json st fs sid f r of (fs', None) \<Rightarrow> Some fs' | (fs', Some e) \<Rightarrow> None)"

lemma lines_ok_iff:
  "lines_ok data \<longleftrightarrow> (\<exists>ls. data = unlines ls \<and> list_all (\<lambda>l. CHR 0x0A \<notin> set l \<and> length l < scan_limit) ls)"
proof
  have no_lf: "CHR 0x0A \<notin> set l" if "l \<in> set (split_lines s)" for l s
    using that by (induction s arbitrary: l) (auto split: if_splits list.splits)
  assume "lines_ok data"
  then show "\<exists>ls. data = unlines ls \<and> list_all (\<lambda>l. CHR 0x0A \<notin> set l \<and> length l < scan_limit) ls"
    by (intro exI [of _ "butlast (split_lines data)"])
      (auto simp: lines_ok_def list_all_iff dest!: in_set_butlastD dest: no_lf)
next
  assume "\<exists>ls. data = unlines ls \<and> list_all (\<lambda>l. CHR 0x0A \<notin> set l \<and> length l < scan_limit) ls"
  then obtain ls where ls: "data = unlines ls" "list_all (\<lambda>l. CHR 0x0A \<notin> set l \<and> length l < scan_limit) ls" by blast
  then have "split_lines data = ls @ [[]]" by (simp add: split_lines_unlines list_all_iff)
  with ls show "lines_ok data" by (simp add: lines_ok_def list_all_iff scan_limit_def)
qed

lemma decode_lines_append [simp]: "decode_lines json (xs @ ys) = decode_lines json xs @ decode_lines json ys"
  by (induction xs) (auto split: option.splits)

lemma appendRecord_ok:
  assumes inv: "records_inv st sid f fs" and ok: "record_ok json r"
  defines "p \<equiv> store_baseDir st @ [sid, f]"
  obtains d old where "marshalRecord json r = Some d"
    "old = (case map_of fs p of Some (File data) \<Rightarrow> data | _ \<Rightarrow> [])"
    "appendRecord json st fs sid f r = (put p (File (old @ d @ [CHR 0x0A])) (put p (File old) fs), None)"
proof -
  from ok obtain d where d: "marshalRecord json r = Some d"
    by (auto simp: record_ok_def split: option.splits)
  from inv have s: "store_inv st fs" "plain_name sid" "f \<in> set store_files"
    and dir: "map_of fs (store_baseDir st @ [sid]) = Some Dir"
    by (auto simp: records_inv_def)
  define old where "old = (case map_of fs p of Some (File data) \<Rightarrow> data | _ \<Rightarrow> [])"
  have nd: "map_of fs p \<noteq> Some Dir" using store_inv_nodes(3) [OF s(1,3)] by (simp add: p_def)
  have path: "JoinPath (store_baseDir st) [sid, f] = p"
    using s plain_store_file by (simp add: store_path(2) p_def)
  have a1: "AppendFile fs p [] = Inr (put p (File old) fs)"
    using nd WriteFile_session(1) [OF s(1) dir s(3)]
    by (auto simp: AppendFile_def old_def p_def [symmetric] split: option.splits node.splits)
  have dir1: "map_of (put p (File old) fs) (store_baseDir st @ [sid]) = Some Dir"
    using dir by (simp add: p_def)
  have a2: "AppendFile (put p (File old) fs) p (d @ [CHR 0x0A])
      = Inr (put p (File (old @ d @ [CHR 0x0A])) (put p (File old) fs))"
    using WriteFile_session(1) [OF WriteFile_session(2) [OF s(1) dir s(3)] _ s(3), of old] dir1
    by (simp add: AppendFile_def p_def)
  show thesis
    by (rule that [OF d old_def]) (simp add: appendRecord_def Let_def path a1 a2 d)
qed

lemma listRecords_unlines:
  assumes inv: "records_inv st sid f fs"
    and ls: "(case map_of fs (store_baseDir st @ [sid, f]) of Some (File data) \<Rightarrow> data | _ \<Rightarrow> []) = unlines ls"
      "list_all (\<lambda>l. CHR 0x0A \<notin> set l \<and> length l < scan_limit) ls"
  shows "listRecords json st fs sid f = (decode_lines json (map dropCR ls), None)"
proof -
  let ?p = "store_baseDir st @ [sid, f]"
  from inv have s: "store_inv st fs" "plain_name sid" "f \<in> set store_files" "map_of fs (store_baseDir st @ [sid]) = Some Dir"
    by (auto simp: records_inv_def)
  then have path: "JoinPath (store_baseDir st) [sid, f] = ?p" by (simp add: store_path(2) plain_store_file)
  have pos: "0 < scan_limit" by (simp add: scan_limit_def)
  show ?thesis
  proof (cases "map_of fs ?p")
    case None
    with s ReadFile_None [of fs ?p] have "ReadFile fs ?p = Inl (NotExist ?p)"
      by (simp add: store_inv_iff butlast_append)
    moreover have "ls = []" using ls None by (cases ls) auto
    ultimately show ?thesis by (simp add: listRecords_def path)
  next
    case (Some n)
    with store_inv_nodes(3) [OF s(1,3)] obtain data where "map_of fs ?p = Some (File data)" by (cases n) auto
    with ls Scan_unlines [OF ls(2) pos] show ?thesis
      by (simp add: listRecords_def path ReadFile_def)
  qed
qed

lemma append_step_spec:
  assumes inv: "records_inv st sid f fs" and ok: "record_ok json r"
  shows "\<exists>fs'. append_step json st sid f fs r = Some fs' \<and> records_inv st sid f fs'
           \<and> listRecords json st fs' sid f = (fst (listRecords json st fs sid f) @ [r], None)
           \<and> (\<forall>q. q \<noteq> store_baseDir st @ [sid, f] \<longrightarrow> map_of fs' q = map_of fs q)"
proof -
  let ?p = "store_baseDir st @ [sid, f]"
  from inv have s: "store_inv st fs" "plain_name sid" "f \<in> set store_files" "map_of fs (store_baseDir st @ [sid]) = Some Dir"
    by (auto simp: records_inv_def)
  obtain d old where d: "marshalRecord json r = Some d"
    and old: "old = (case map_of fs ?p of Some (File data) \<Rightarrow> data | _ \<Rightarrow> [])"
    and app: "appendRecord json st fs sid f r = (put ?p (File (old @ d @ [CHR 0x0A])) (put ?p (File old) fs), None)"
    by (rule appendRecord_ok [OF inv ok])
  define fs' where "fs' = put ?p (File (old @ d @ [CHR 0x0A])) (put ?p (File old) fs)"
  have "lines_ok old"
    using inv by (auto simp: old records_inv_def lines_ok_def scan_limit_def split: option.splits node.splits)
  then obtain ls where ls: "old = unlines ls" "list_all (\<lambda>l. CHR 0x0A \<notin> set l \<and> length l < scan_limit) ls"
    by (auto simp: lines_ok_iff)
  have dd: "d \<noteq> []" "CHR 0x0A \<notin> set d" "dropCR d = d" "length d < scan_limit" "unmarshalRecord json d = Some r"
    using ok d by (auto simp: record_ok_def)
  have new: "unlines ls @ d @ [CHR 0x0A] = unlines (ls @ [d])"
    "list_all (\<lambda>l. CHR 0x0A \<notin> set l \<and> length l < scan_limit) (ls @ [d])"
    using ls dd by simp_all
  have "store_inv st fs'"
    unfolding fs'_def using s by (intro store_inv_put) (auto dest: store_inv_nodes(3))
  moreover have "lines_ok (old @ d @ [CHR 0x0A])" using ls new unfolding lines_ok_iff by blast
  ultimately have inv': "records_inv st sid f fs'" using s by (simp add: records_inv_def fs'_def)
  have "listRecords json st fs sid f = (decode_lines json (map dropCR ls), None)"
    by (rule listRecords_unlines [OF inv]) (use ls old in auto)
  moreover have "listRecords json st fs' sid f = (decode_lines json (map dropCR (ls @ [d])), None)"
    by (rule listRecords_unlines [OF inv']) (use ls new in \<open>auto simp: fs'_def\<close>)
  ultimately show ?thesis using app inv' dd by (simp add: append_step_def fs'_def)
qed

interpretation records: total_store "records_inv st sid f" "record_ok json" "append_step json st sid f"
    "\<lambda>fs. fst (listRecords json st fs sid f)" "\<lambda>rs r. rs @ [r]" for json st sid f
  by unfold_locales (metis append_step_spec fst_conv option.inject)+

lemma foldl_snoc [simp]: "foldl (\<lambda>rs r. rs @ [r]) xs ys = xs @ ys"
  by (induction ys arbitrary: xs) auto

lemma append_frame:
  assumes "run_ops (append_step json st sid f) fs rs = Some fs'" "records_inv st sid f fs" "list_all (record_ok json) rs"
    and "q \<noteq> store_baseDir st @ [sid, f]"
  shows "map_of fs' q = map_of fs q"
  using assms
proof (induction rs arbitrary: fs)
  case (Cons r rs)
  with append_step_spec [of st sid f fs json r] show ?case by (auto split: option.splits)
qed simp

lemma listRecords_no_error: "records_inv st sid f fs \<Longrightarrow> snd (listRecords json st fs sid f) = None"
proof -
  assume inv: "records_inv st sid f fs"
  then have "lines_ok (case map_of fs (store_baseDir st @ [sid, f]) of Some (File data) \<Rightarrow> data | _ \<Rightarrow> [])"
    by (auto simp: records_inv_def lines_ok_def scan_limit_def split: option.splits node.splits)
  with listRecords_unlines [OF inv] show ?thesis by (auto simp: lines_ok_iff)
qed

section \<open>Listing and pruning\<close>

text \<open>The id in each session file is the name of its directory, as \<^verbatim>\<open>Create\<close> writes it.\<close>

definition ids_match :: "json_codec \<Rightarrow> FileStore \<Rightarrow> fs \<Rightarrow> bool" where
  "ids_match json st fs =
     list_all (\<lambda>name. case loadSession json st fs name of Inl e \<Rightarrow> True | Inr s \<Rightarrow> sess_ID s = name)
       (subdirs fs (store_baseDir st))"

lemma session_map_dir: "store_inv st fs \<Longrightarrow> session_map json st fs sid = Some s \<Longrightarrow> sid \<in> set (subdirs fs (store_baseDir st))"
proof -
  assume inv: "store_inv st fs" and s: "session_map json st fs sid = Some s"
  then have "plain_name sid" by (auto simp: session_map_def split: if_splits)
  with inv s obtain d where "map_of fs ((store_baseDir st @ [sid]) @ [''session.json'']) = Some (File d)"
    by (auto simp: session_map_def Get_def loadSession_def store_path(2) [OF inv] ReadFile_def
        split: sum.splits option.splits node.splits)
  with inv have "map_of fs (store_baseDir st @ [sid]) = Some Dir" unfolding store_inv_iff tree_ok_iff by blast
  then show ?thesis by (simp add: subdirs_set)
qed

lemma subdirs_plain: "store_inv st fs \<Longrightarrow> name \<in> set (subdirs fs (store_baseDir st)) \<Longrightarrow> plain_name name"
  by (auto simp: subdirs_set dest: store_inv_nodes(2))

lemma load_entries_set:
  assumes "store_inv st fs"
  shows "set (load_entries json st fs flt (subdirs fs (store_baseDir st)))
           = {s. \<exists>sid. session_map json st fs sid = Some s \<and> filter_keeps flt s}"
proof -
  have *: "set (load_entries json st fs flt names)
      = {s. \<exists>sid\<in>set names. session_map json st fs sid = Some s \<and> filter_keeps flt s}"
    if "list_all plain_name names" for names
    using that by (induction names) (auto simp: session_map_def Get_def split: sum.splits)
  have "list_all plain_name (subdirs fs (store_baseDir st))"
    using subdirs_plain [OF assms] by (simp add: list_all_iff)
  from * [OF this] show ?thesis using session_map_dir [OF assms] by blast
qed

lemma load_entries_IDs:
  assumes "ids_match json st fs"
  shows "distinct (map sess_ID (load_entries json st fs flt (subdirs fs (store_baseDir st))))"
proof -
  have "sess_ID ` set (load_entries json st fs flt names) \<subseteq> set names
      \<and> distinct (map sess_ID (load_entries json st fs flt names))"
    if "distinct names" "list_all (\<lambda>name. case loadSession json st fs name of Inl e \<Rightarrow> True | Inr s \<Rightarrow> sess_ID s = name) names" for names
    using that by (induction names) (auto split: sum.splits)
  from this [of "subdirs fs (store_baseDir st)"] show ?thesis using assms by (auto simp: ids_match_def)
qed

lemma ids_match_session_map:
  "store_inv st fs \<Longrightarrow> ids_match json st fs \<Longrightarrow> session_map json st fs sid = Some s \<Longrightarrow> sess_ID s = sid"
  using session_map_dir [of st fs json sid s]
  by (auto simp: ids_match_def list_all_iff session_map_def Get_def split: if_splits sum.splits) 

lemma hasAnyTag_iff: "hasAnyTag a b \<longleftrightarrow> set a \<inter> set b \<noteq> {}"
  unfolding hasAnyTag_def by (induction b) auto

definition victims :: "nat \<Rightarrow> Session list \<Rightarrow> Session list" where
  "victims k ss = take k (filter (\<lambda>s. sess_Status s \<noteq> SessionRecording) ss)"

lemma prune_loop_victims:
  "prune_loop st k fs ss = foldl (\<lambda>fs s. Delete st fs (sess_ID s)) fs (victims k ss)"
proof (induction ss arbitrary: k fs)
  case (Cons s ss)
  then show ?case by (cases k) (auto simp: victims_def Delete_def)
qed (simp add: victims_def)

lemma Delete_all:
  assumes "store_inv st fs" "list_all (\<lambda>s. plain_name (sess_ID s)) ss"
  shows "store_inv st (foldl (\<lambda>fs s. Delete st fs (sess_ID s)) fs ss)
       \<and> session_map json st (foldl (\<lambda>fs s. Delete st fs (sess_ID s)) fs ss)
         = (\<lambda>sid. if sid \<in> sess_ID ` set ss then None else session_map json st fs sid)"
  using assms
proof (induction ss arbitrary: fs)
  case (Cons s ss)
  with Delete_spec [of st fs "sess_ID s"] show ?case by (auto simp: fun_eq_iff)
qed auto

text \<open>
  The sessions that a call of \<^verbatim>\<open>PruneOldest\<close> deletes: as many of the non-recording ones, oldest
  first, as the limit asks for.
\<close>

definition pruned :: "json_codec \<Rightarrow> FileStore \<Rightarrow> fs \<Rightarrow> int \<Rightarrow> Session list" where
  "pruned json st fs maxSessions =
     (let sessions = load_entries json st fs None (subdirs fs (store_baseDir st))
      in victims (length sessions - nat maxSessions) (sort_key sess_UpdatedAt sessions))"

lemma PruneOldest_pruned:
  assumes inv: "store_inv st fs" and ids: "ids_match json st fs" and m: "1 \<le> maxSessions"
  shows "\<exists>fs'. PruneOldest json st fs maxSessions = (fs', None) \<and> store_inv st fs'
           \<and> session_map json st fs' = (\<lambda>sid. if sid \<in> sess_ID ` set (pruned json st fs maxSessions) then None else session_map json st fs sid)"
proof -
  let ?ss = "load_entries json st fs None (subdirs fs (store_baseDir st))"
  have read: "ReadDirs fs (store_baseDir st) = Inr (subdirs fs (store_baseDir st))"
    using inv by (simp add: ReadDirs_def store_inv_iff)
  have "plain_name (sess_ID s)" if "s \<in> set ?ss" for s
    using that load_entries_set [OF inv] ids_match_session_map [OF inv ids] by (auto simp: session_map_def split: if_splits)
  then have "list_all (\<lambda>s. plain_name (sess_ID s)) (pruned json st fs maxSessions)"
    by (auto simp: list_all_iff pruned_def victims_def Let_def dest!: in_set_takeD)
  from Delete_all [OF inv this] have "store_inv st (prune_loop st (length ?ss - nat maxSessions) fs (sort_key sess_UpdatedAt ?ss))"
    and "session_map json st (prune_loop st (length ?ss - nat maxSessions) fs (sort_key sess_UpdatedAt ?ss))
      = (\<lambda>sid. if sid \<in> sess_ID ` set (pruned json st fs maxSessions) then None else session_map json st fs sid)"
    unfolding prune_loop_victims by (simp_all add: pruned_def Let_def)
  moreover have "pruned json st fs maxSessions = []" if "int (length ?ss) \<le> maxSessions"
    using that by (simp add: pruned_def victims_def)
  ultimately show ?thesis using m inv read by (auto simp: PruneOldest_def Let_def)
qed

lemma pruned_facts:
  fixes json st fs and m :: int
  defines "L \<equiv> load_entries json st fs None (subdirs fs (store_baseDir st))"
  shows "set (pruned json st fs m) \<subseteq> {s \<in> set L. sess_Status s \<noteq> SessionRecording}"
    and "length (pruned json st fs m)
           = min (length L - nat m) (length L - length (filter (\<lambda>s. sess_Status s = SessionRecording) L))"
    and "s \<in> set (pruned json st fs m) \<Longrightarrow> t \<in> set L - set (pruned json st fs m) \<Longrightarrow>
           sess_Status t \<noteq> SessionRecording \<Longrightarrow> sess_UpdatedAt s \<le> sess_UpdatedAt t"
    and "ids_match json st fs \<Longrightarrow> distinct (map sess_ID (pruned json st fs m))"
proof -
  define N where "N = filter (\<lambda>s. sess_Status s \<noteq> SessionRecording) (sort_key sess_UpdatedAt L)"
  define k where "k = length L - nat m"
  have p: "pruned json st fs m = take k N"
    by (simp add: pruned_def victims_def N_def k_def L_def Let_def)
  have N: "set N = {s \<in> set L. sess_Status s \<noteq> SessionRecording}" by (simp add: N_def)
  show "set (pruned json st fs m) \<subseteq> {s \<in> set L. sess_Status s \<noteq> SessionRecording}"
    unfolding p using N by (auto dest: in_set_takeD)
  have "length N = length (filter (\<lambda>s. \<not> sess_Status s = SessionRecording) L)"
    unfolding N_def by (metis mset_filter mset_sort size_mset)
  then have "length N = length L - length (filter (\<lambda>s. sess_Status s = SessionRecording) L)"
    using sum_length_filter_compl [of "\<lambda>s. sess_Status s = SessionRecording" L] by simp
  then show "length (pruned json st fs m) = min (length L - nat m) (length L - length (filter (\<lambda>s. sess_Status s = SessionRecording) L))"
    unfolding p k_def by (simp add: min.commute)
  have "sorted (map sess_UpdatedAt N)" unfolding N_def by (intro sorted_filter) simp
  then have srt: "sorted (map sess_UpdatedAt (take k N) @ map sess_UpdatedAt (drop k N))"
    by (simp flip: map_append)
  show "sess_UpdatedAt s \<le> sess_UpdatedAt t"
    if "s \<in> set (pruned json st fs m)" "t \<in> set L - set (pruned json st fs m)" "sess_Status t \<noteq> SessionRecording"
  proof -
    have "t \<in> set (take k N @ drop k N)" using that N by simp
    then have "t \<in> set (drop k N)" using that unfolding p set_append by blast
    with srt that show ?thesis unfolding p sorted_append by simp
  qed
  assume "ids_match json st fs"
  then have "distinct (map sess_ID L)" unfolding L_def by (rule load_entries_IDs)
  then have "distinct (map sess_ID (sort_key sess_UpdatedAt L))"
    by (metis mset_map mset_sort mset_eq_imp_distinct_iff)
  then show "distinct (map sess_ID (pruned json st fs m))"
    unfolding p N_def by (simp add: distinct_map_filter distinct_take flip: take_map)
qed

lemma prune_count: "r \<le> n \<Longrightarrow> n - min (n - k) (n - r) = max r (min n k)" for r n k :: nat
  by (auto simp: min_def max_def)

lemma SaveResults_spec:
  assumes inv: "store_inv st fs" and sid: "plain_name sid" "map_of fs (store_baseDir st @ [sid]) = Some Dir"
    and json: "marshalResults json rs = Some d" "unmarshalResults json d = Some rs"
  shows "\<exists>fs'. SaveResults json st fs sid rs = (fs', None) \<and> store_inv st fs' \<and> LoadResults json st fs' sid = Inr rs
           \<and> session_map json st fs' = session_map json st fs
           \<and> (\<forall>s. plain_name s \<longrightarrow> ListRecords json st fs' s = ListRecords json st fs s
                                  \<and> ListReplayRecords json st fs' s = ListReplayRecords json st fs s)"
proof -
  let ?p = "store_baseDir st @ [sid, ''diff-results.json'']"
  have f: "''diff-results.json'' \<in> set store_files" "plain_name ''diff-results.json''"
    "plain_name ''records.jsonl''" "plain_name ''replay-records.jsonl''"
    by (simp_all add: store_files_def plain_name_def)
  note w = WriteFile_session [OF inv sid(2) f(1), of d]
  have other: "ReadFile (put ?p (File d) fs) (store_baseDir st @ [s, g]) = ReadFile fs (store_baseDir st @ [s, g])"
    if "g \<noteq> ''diff-results.json''" for s g
    using that by (intro ReadFile_put_other) (auto simp: strict_prefix_def prefix_def)
  have "SaveResults json st fs sid rs = (put ?p (File d) fs, None)"
    using json w(1) by (simp add: SaveResults_def store_path(2) [OF inv sid(1) f(2)])
  moreover have "LoadResults json st (put ?p (File d) fs) sid = Inr rs"
    using json by (simp add: LoadResults_def store_path(2) [OF inv sid(1) f(2)] ReadFile_def)
  moreover have "session_map json st (put ?p (File d) fs) = session_map json st fs"
    by (auto simp: fun_eq_iff session_map_def Get_def loadSession_def store_path(2) [OF inv] other)
  moreover have "ListRecords json st (put ?p (File d) fs) s = ListRecords json st fs s
      \<and> ListReplayRecords json st (put ?p (File d) fs) s = ListReplayRecords json st fs s" if "plain_name s" for s
    using that f by (simp add: ListRecords_def ListReplayRecords_def listRecords_def store_path(2) [OF inv] other)
  ultimately show ?thesis using w(2) by blast
qed

section \<open>Properties\<close>

text \<open>
  C12. The session operations refine a finite map: from a store in its invariant, any sequence of
  creations, updates and deletions that succeeds keeps the invariant, and \<^verbatim>\<open>Get\<close> then returns for
  every id what the same sequence leaves in the map; in particular a session reads back as it was
  written and no operation touches another session.
\<close>

theorem sessions_refine_map:
  assumes "store_inv st fs" and "list_all (session_op_ok json) ops"
    and "run_ops (session_step json st) fs ops = Some fs'"
  shows "store_inv st fs' \<and> session_map json st fs' = foldl session_spec (session_map json st fs) ops"
  using sessions.run_refines [OF assms(3,1,2)] .

text \<open>
  Creating a session succeeds in every store in its invariant, and the stored session has the
  given id or the first eight characters of the generated one, keeps a creation time that is set,
  and is the one that \<^verbatim>\<open>Get\<close> returns.
\<close>

theorem Create_then_Get:
  assumes "store_inv st fs" and "session_ok json (fill_session uuid now s)"
  shows "\<exists>fs' s'. Create json st uuid now fs s = (fs', s', None) \<and> store_inv st fs'
     \<and> Get json st fs' (sess_ID s') = Inr s'
     \<and> sess_ID s' = (if sess_ID s = '''' then take 8 uuid else sess_ID s)
     \<and> sess_CreatedAt s' = (if sess_CreatedAt s = 0 then now else sess_CreatedAt s) \<and> sess_UpdatedAt s' = now"
proof -
  from Create_spec [OF assms] obtain fs' where
    "Create json st uuid now fs s = (fs', fill_session uuid now s, None)" "store_inv st fs'"
    and m: "session_map json st fs' (sess_ID (fill_session uuid now s)) = Some (fill_session uuid now s)"
    by auto
  moreover from m have "Get json st fs' (sess_ID (fill_session uuid now s)) = Inr (fill_session uuid now s)"
    by (auto simp: session_map_def split: if_splits sum.splits)
  moreover have "sess_ID (fill_session uuid now s) = (if sess_ID s = '''' then take 8 uuid else sess_ID s)"
    "sess_CreatedAt (fill_session uuid now s) = (if sess_CreatedAt s = 0 then now else sess_CreatedAt s)"
    "sess_UpdatedAt (fill_session uuid now s) = now"
    by (simp_all add: fill_session_def Let_def)
  ultimately show ?thesis by blast
qed

text \<open>
  C20. Appending records to a session always succeeds, and listing the session then returns the old
  records followed by the new ones in order, with no error, and the count of them; the replay
  records of the session are unchanged.
\<close>

theorem AppendRecord_ListRecords:
  assumes "records_inv st sid ''records.jsonl'' fs" and "list_all (record_ok json) rs"
  shows "\<exists>fs'. run_ops (\<lambda>fs r. case AppendRecord json st fs sid r of (fs', None) \<Rightarrow> Some fs' | (fs', Some e) \<Rightarrow> None) fs rs = Some fs'
     \<and> records_inv st sid ''records.jsonl'' fs'
     \<and> ListRecords json st fs' sid = (fst (ListRecords json st fs sid) @ rs, None)
     \<and> CountRecords json st fs' sid = Inr (length (fst (ListRecords json st fs sid)) + length rs)
     \<and> ListReplayRecords json st fs' sid = ListReplayRecords json st fs sid"
proof -
  have step: "(\<lambda>fs r. case AppendRecord json st fs sid r of (fs', None) \<Rightarrow> Some fs' | (fs', Some e) \<Rightarrow> None)
      = append_step json st sid ''records.jsonl''"
    by (simp add: fun_eq_iff append_step_def AppendRecord_def)
  obtain fs' where run: "run_ops (append_step json st sid ''records.jsonl'') fs rs = Some fs'"
    and inv': "records_inv st sid ''records.jsonl'' fs'"
    and list: "fst (listRecords json st fs' sid ''records.jsonl'') = fst (listRecords json st fs sid ''records.jsonl'') @ rs"
    using records.run_total [OF assms] by auto
  have "ListRecords json st fs' sid = (fst (ListRecords json st fs sid) @ rs, None)"
    using list listRecords_no_error [OF inv', of json] by (simp add: ListRecords_def prod_eq_iff)
  moreover have "ReadFile fs' (store_baseDir st @ [sid, ''replay-records.jsonl'']) = ReadFile fs (store_baseDir st @ [sid, ''replay-records.jsonl''])"
    by (rule ReadFile_cong) (use append_frame [OF run assms] in \<open>auto simp: strict_prefix_def prefix_def append_eq_append_conv2 append_eq_Cons_conv Cons_eq_append_conv\<close>)
  then have "ListReplayRecords json st fs' sid = ListReplayRecords json st fs sid"
    using assms(1) by (auto simp: ListReplayRecords_def listRecords_def records_inv_def store_path(2) plain_name_def)
  ultimately show ?thesis using run inv' by (simp add: step CountRecords_def)
qed

text \<open>
  C21. Pruning to a limit of at least one succeeds, never deletes a session that is still
  recording, changes no session that it keeps, deletes the least recently updated ones first, and
  leaves as many sessions as the limit, or all that are recording when these are more, or all
  there were when these are fewer.
\<close>

theorem PruneOldest_correct:
  fixes json st fs and m :: int
  defines "old \<equiv> session_map json st fs" and "new \<equiv> session_map json st (fst (PruneOldest json st fs m))"
  assumes inv: "store_inv st fs" and ids: "ids_match json st fs" and m: "1 \<le> m"
  shows "snd (PruneOldest json st fs m) = None \<and> store_inv st (fst (PruneOldest json st fs m))
     \<and> (\<forall>sid. new sid = None \<or> new sid = old sid)
     \<and> (\<forall>sid s. old sid = Some s \<and> sess_Status s = SessionRecording \<longrightarrow> new sid = Some s)
     \<and> (\<forall>sid s tid t. old sid = Some s \<and> new sid = None \<and> new tid = Some t \<and> sess_Status t \<noteq> SessionRecording
          \<longrightarrow> sess_UpdatedAt s \<le> sess_UpdatedAt t)
     \<and> card (dom new) = max (card {sid. \<exists>s. old sid = Some s \<and> sess_Status s = SessionRecording})
                             (min (card (dom old)) (nat m))"
proof -
  define L where "L = load_entries json st fs None (subdirs fs (store_baseDir st))"
  define P where "P = pruned json st fs m"
  note facts = pruned_facts [where json = json and st = st and fs = fs and m = m, folded L_def P_def]
  obtain fs' where pr: "PruneOldest json st fs m = (fs', None)" "store_inv st fs'"
    and new: "new = (\<lambda>sid. if sid \<in> sess_ID ` set P then None else old sid)"
    using PruneOldest_pruned [OF inv ids m] unfolding new_def old_def P_def by force
  have L: "set L = {s. \<exists>sid. old sid = Some s}"
    using load_entries_set [OF inv, of json None] by (simp add: L_def old_def filter_keeps_def)
  have key: "sess_ID s = sid" if "old sid = Some s" for sid s
    using ids_match_session_map [OF inv ids] that by (simp add: old_def)
  have dist: "distinct (map sess_ID L)" using load_entries_IDs [OF ids] by (simp add: L_def)
  have dom_old: "dom old = sess_ID ` set L" using L key by force
  have rec_old: "{sid. \<exists>s. old sid = Some s \<and> sess_Status s = SessionRecording} = sess_ID ` set (filter (\<lambda>s. sess_Status s = SessionRecording) L)"
    using L key by force
  have inP: "s \<in> set P" if "old sid = Some s" "sid \<in> sess_ID ` set P" for sid s
    using that key facts(1) L by auto
  have "card (dom old) = length L" unfolding dom_old using dist by (metis distinct_card length_map set_map)
  moreover have "card (sess_ID ` set (filter (\<lambda>s. sess_Status s = SessionRecording) L)) = length (filter (\<lambda>s. sess_Status s = SessionRecording) L)"
    using dist by (metis distinct_card distinct_map_filter length_map set_map)
  moreover have "card (sess_ID ` set P) = length P" using facts(4) [OF ids] by (metis distinct_card length_map set_map)
  moreover have "card (dom new) = card (dom old) - card (sess_ID ` set P)"
  proof -
    have "sess_ID ` set P \<subseteq> dom old" using facts(1) L by (auto simp: dom_old)
    moreover have "dom new = dom old - sess_ID ` set P" by (auto simp: new split: if_splits)
    ultimately show ?thesis by (simp add: card_Diff_subset)
  qed
  moreover have "length (filter (\<lambda>s. sess_Status s = SessionRecording) L) \<le> length L" by simp
  ultimately have "card (dom new) = max (card {sid. \<exists>s. old sid = Some s \<and> sess_Status s = SessionRecording}) (min (card (dom old)) (nat m))"
    unfolding rec_old facts(2) by (simp add: prune_count)
  moreover have "new sid = Some s" if "old sid = Some s" "sess_Status s = SessionRecording" for sid s
    using that inP [OF that(1)] facts(1) by (auto simp: new)
  moreover have "sess_UpdatedAt s \<le> sess_UpdatedAt t"
    if "old sid = Some s" "new sid = None" "new tid = Some t" "sess_Status t \<noteq> SessionRecording" for sid s tid t
  proof (rule facts(3))
    show "s \<in> set P" using that inP by (auto simp: new split: if_splits)
    show "t \<in> set L - set P" using that L key by (auto simp: new split: if_splits)
  qed (use that in simp)
  moreover have "new sid = None \<or> new sid = old sid" for sid by (simp add: new)
  ultimately show ?thesis using pr by (intro conjI allI impI) (simp_all, blast+)
qed

text \<open>
  C25. The path of a request body never leaves the directory of its session, whatever the
  reference is: an accepted reference names that directory followed by proper path elements.
\<close>

theorem artifact_path_confined:
  assumes "requestBodyArtifactPath st sid ref = Inr p"
  shows "\<exists>rest. clean_path rest \<and> p = JoinPath (store_baseDir st) [sid] @ rest"
proof -
  obtain rooted es where c: "Clean ref = (rooted, es)" by fastforce
  with assms have "\<not> (\<not> rooted \<and> (case es of [] \<Rightarrow> True | e # _ \<Rightarrow> e = ''..''))"
    and "p = JoinPath (store_baseDir st) (sid # es)"
    by (auto simp: requestBodyArtifactPath_def Let_def split: if_splits)
  with Clean_inside [OF c] show ?thesis by (auto simp: JoinPath_below)
qed

theorem artifact_path_confined_witness:
  "\<exists>rest. clean_path rest \<and> [''d'', ''s'', ''x''] = JoinPath (store_baseDir \<lparr>store_baseDir = [''d'']\<rparr>) [''s''] @ rest"
  by (rule artifact_path_confined [where ref = "''/../a/../x''"])
    (simp add: requestBodyArtifactPath_def Clean_def JoinPath_def Let_def)

lemma requestBodyArtifactPath_clean:
  assumes "clean_path es" "es \<noteq> []"
  shows "requestBodyArtifactPath st sid (Join es ''/'') = Inr (JoinPath (store_baseDir st) [sid] @ es)"
proof -
  have split: "split_slash (Join es ''/'') = es"
    using assms by (induction es "''/''" rule: Join.induct)
      (auto simp: clean_path_def plain_name_def split_slash_plain split_slash_append)
  have "Join es ''/'' \<noteq> []" using assms by (cases "(es, ''/'')" rule: Join.cases) (auto simp: clean_path_def plain_name_def)
  then obtain c s where cs: "Join es ''/'' = c # s" by (cases "Join es ''/''") auto
  moreover have "c \<noteq> CHR ''/''"
    using split cs assms by (auto simp: clean_path_def plain_name_def split: if_splits list.splits)
  ultimately have "Clean (Join es ''/'') = (False, es)"
    using split assms(1) by (simp add: Clean_def Let_def clean_elems_plain)
  moreover have "\<not> (case es of [] \<Rightarrow> True | e # _ \<Rightarrow> e = ''..'')" "\<not> (case es of [] \<Rightarrow> False | e # _ \<Rightarrow> e = ''..'')"
    using assms by (auto simp: clean_path_def plain_name_def split: list.splits)
  ultimately show ?thesis
    using cs assms(1) by (simp add: requestBodyArtifactPath_def Let_def JoinPath_below RelPath_prefix)
qed

text \<open>
  A request body reads back as it was saved: saving under the id of a record yields the
  reference \<^verbatim>\<open>artifacts/request-bodies/{id}.bin\<close>, and opening that reference returns the bytes.
\<close>

theorem request_body_roundtrip:
  assumes "CHR ''/'' \<notin> set rid" and "SaveRequestBodyArtifact st fs sid rid (data, True) = (fs', Inr ref)"
  shows "ref = ''artifacts/request-bodies/'' @ rid @ ''.bin'' \<and> OpenRequestBodyArtifact st fs' sid ref = Inr data"
proof -
  let ?rel = "[''artifacts'', ''request-bodies'', rid @ ''.bin'']"
  have name: "rid @ ''.bin'' \<noteq> ''.''" "rid @ ''.bin'' \<noteq> ''..''" by (auto simp: append_eq_Cons_conv)
  have clean: "clean_path ?rel" using assms(1) name by (simp add: clean_path_def plain_name_def)
  have rel: "clean_elems False [] ([''artifacts'', ''request-bodies''] @ split_slash (rid @ ''.bin'')) = ?rel"
    using clean_elems_plain [OF clean, of False "[]"] assms(1) by (simp add: split_slash_plain)
  have save: "MkdirAll fs [] (parent (JoinPath (store_baseDir st) (sid # ?rel))) = Inr fs1 \<and>
      WriteFile fs1 (JoinPath (store_baseDir st) (sid # ?rel)) data = Inr fs' \<and> ref = Join ?rel ''/''"
    if "MkdirAll fs [] (parent (JoinPath (store_baseDir st) (sid # ?rel))) = Inr fs1" for fs1
    using that assms(2) unfolding SaveRequestBodyArtifact_def rel Let_def by (auto split: sum.splits)
  obtain fs1 where "MkdirAll fs [] (parent (JoinPath (store_baseDir st) (sid # ?rel))) = Inr fs1"
    using assms(2) unfolding SaveRequestBodyArtifact_def rel Let_def by (auto split: sum.splits)
  note s = save [OF this]
  have "ReadFile fs' (JoinPath (store_baseDir st) [sid] @ ?rel) = Inr data"
    using ReadFile_WriteFile [OF conjunct1 [OF conjunct2 [OF s]]] by (simp add: JoinPath_below [OF clean])
  moreover have "requestBodyArtifactPath st sid ref = Inr (JoinPath (store_baseDir st) [sid] @ ?rel)"
    using s requestBodyArtifactPath_clean [OF clean] by simp
  ultimately show ?thesis using s by (simp add: OpenRequestBodyArtifact_def)
qed

text \<open>
  C26. A record whose JSON is as long as the limit of the scanner is appended without an error, and
  from then on every reader of the records of the session fails: listing, counting and looking up
  any record.
\<close>

theorem oversized_record_blocks_session:
  assumes inv: "records_inv st sid ''records.jsonl'' fs" and d: "marshalRecord json r = Some d"
    and long: "CHR 0x0A \<notin> set d" "scan_limit \<le> length d"
  shows "\<exists>fs'. AppendRecord json st fs sid r = (fs', None) \<and> snd (ListRecords json st fs' sid) = Some ErrTooLong
           \<and> CountRecords json st fs' sid = Inl ErrTooLong \<and> (\<forall>rid. GetRecord json st fs' sid rid = Inl ErrTooLong)"
proof -
  let ?p = "store_baseDir st @ [sid, ''records.jsonl'']"
  from inv have s: "store_inv st fs" "plain_name sid" "''records.jsonl'' \<in> set store_files"
    and dir: "map_of fs (store_baseDir st @ [sid]) = Some Dir"
    by (auto simp: records_inv_def)
  define old where "old = (case map_of fs ?p of Some (File data) \<Rightarrow> data | _ \<Rightarrow> [])"
  have "lines_ok old"
    using inv by (auto simp: old_def records_inv_def lines_ok_def scan_limit_def split: option.splits node.splits)
  then obtain ls where ls: "old = unlines ls" "list_all (\<lambda>l. CHR 0x0A \<notin> set l \<and> length l < scan_limit) ls"
    by (auto simp: lines_ok_iff)
  have path: "JoinPath (store_baseDir st) [sid, ''records.jsonl''] = ?p"
    using s plain_store_file by (simp add: store_path(2))
  have nd: "map_of fs ?p \<noteq> Some Dir" by (rule store_inv_nodes(3) [OF s(1,3)])
  have a1: "AppendFile fs ?p [] = Inr (put ?p (File old) fs)"
    using nd WriteFile_session(1) [OF s(1) dir s(3)]
    by (auto simp: AppendFile_def old_def split: option.splits node.splits)
  define fs' where "fs' = put ?p (File (old @ d @ [CHR 0x0A])) (put ?p (File old) fs)"
  have "AppendFile (put ?p (File old) fs) ?p (d @ [CHR 0x0A]) = Inr fs'"
    using WriteFile_session(1) [OF WriteFile_session(2) [OF s(1) dir s(3)] _ s(3), of old] dir
    by (simp add: AppendFile_def fs'_def)
  then have app: "AppendRecord json st fs sid r = (fs', None)"
    by (simp add: AppendRecord_def appendRecord_def Let_def path a1 d)
  have "ReadFile fs' ?p = Inr (unlines (ls @ [d]))" using ls by (simp add: ReadFile_def fs'_def)
  moreover have "snd (Scan scan_limit (unlines (ls @ [d]))) = False"
    by (rule Scan_long [of d]) (use ls long in \<open>auto simp: list_all_iff\<close>)
  ultimately have "snd (ListRecords json st fs' sid) = Some ErrTooLong"
    by (simp add: ListRecords_def listRecords_def path case_prod_beta)
  with app show ?thesis
    by (intro exI [of _ fs']) (simp add: CountRecords_def GetRecord_def prod.case_eq_if)
qed

text \<open>
  \<^verbatim>\<open>List\<close> returns, newest first and without duplicates, exactly the stored sessions that the
  filter wants: the name contains the wanted text, the status is the wanted one, and the tags
  share one with the wanted tags, where an empty wish accepts every session.
\<close>

theorem ListSessions_correct:
  assumes inv: "store_inv st fs" and ids: "ids_match json st fs"
  shows "\<exists>ss. ListSessions json st fs flt = Inr ss \<and> distinct ss
     \<and> sorted_wrt (\<lambda>s t. sess_UpdatedAt t \<le> sess_UpdatedAt s) ss
     \<and> set ss = {s. session_map json st fs (sess_ID s) = Some s \<and>
          (\<forall>f\<in>set_option flt.
             (flt_Name f = '''' \<or> (\<exists>a b. sess_Name s = a @ flt_Name f @ b)) \<and>
             (flt_Status f = '''' \<or> status_string (sess_Status s) = flt_Status f) \<and>
             (flt_Tags f = [] \<or> set (sess_Tags s) \<inter> set (flt_Tags f) \<noteq> {}))}"
proof -
  let ?L = "load_entries json st fs flt (subdirs fs (store_baseDir st))"
  have "ReadDirs fs (store_baseDir st) = Inr (subdirs fs (store_baseDir st))"
    using inv by (simp add: ReadDirs_def store_inv_iff)
  then have list: "ListSessions json st fs flt = Inr (sort_key (\<lambda>s. - sess_UpdatedAt s) ?L)"
    by (simp add: ListSessions_def)
  have "sorted (map (\<lambda>s. - sess_UpdatedAt s) (sort_key (\<lambda>s. - sess_UpdatedAt s) ?L))" by simp
  then have "sorted_wrt (\<lambda>s t. sess_UpdatedAt t \<le> sess_UpdatedAt s) (sort_key (\<lambda>s. - sess_UpdatedAt s) ?L)"
    by (simp add: sorted_map)
  moreover have "distinct ?L" using load_entries_IDs [OF ids] by (simp add: distinct_map)
  moreover have "set ?L = {s. session_map json st fs (sess_ID s) = Some s \<and> filter_keeps flt s}"
    unfolding load_entries_set [OF inv] using ids_match_session_map [OF inv ids] by auto
  moreover have "filter_keeps flt s \<longleftrightarrow> (\<forall>f\<in>set_option flt.
             (flt_Name f = '''' \<or> (\<exists>a b. sess_Name s = a @ flt_Name f @ b)) \<and>
             (flt_Status f = '''' \<or> status_string (sess_Status s) = flt_Status f) \<and>
             (flt_Tags f = [] \<or> set (sess_Tags s) \<inter> set (flt_Tags f) \<noteq> {}))" for s
    by (cases flt) (auto simp: filter_keeps_def Contains_append hasAnyTag_iff)
  ultimately show ?thesis unfolding list by simp
qed

text \<open>
  Diff results that survive their JSON encoding load as they were saved, and saving them
  leaves the sessions and the records as they were.
\<close>

theorem SaveResults_LoadResults:
  assumes inv: "store_inv st fs" and sid: "plain_name sid" "map_of fs (store_baseDir st @ [sid]) = Some Dir"
    and json: "marshalResults json rs = Some d" "unmarshalResults json d = Some rs"
  shows "\<exists>fs'. SaveResults json st fs sid rs = (fs', None) \<and> store_inv st fs' \<and> LoadResults json st fs' sid = Inr rs
           \<and> session_map json st fs' = session_map json st fs
           \<and> (\<forall>s. plain_name s \<longrightarrow> ListRecords json st fs' s = ListRecords json st fs s
                                  \<and> ListReplayRecords json st fs' s = ListReplayRecords json st fs s)"
  by (rule SaveResults_spec [OF assms])

section \<open>Instances\<close>

text \<open>A store with one session that is recording, and an encoding by ids.\<close>

definition demo_session :: Session where
  "demo_session =
     \<lparr>sess_ID = ''s1'', sess_Name = ''checkout'', sess_Description = '''',
      sess_Source = \<lparr>ep_BaseURL = '''', ep_Headers = []\<rparr>, sess_Target = \<lparr>ep_BaseURL = '''', ep_Headers = []\<rparr>,
      sess_Tags = [''v2''], sess_RecordCount = 0, sess_CreatedAt = 5, sess_UpdatedAt = 7,
      sess_Status = SessionRecording, sess_Metadata = [], sess_PID = 0, sess_DaemonMode = False\<rparr>"

definition demo_record :: Record where
  "demo_record =
     \<lparr>rec_ID = ''r1'', rec_SessionID = ''s1'', rec_Sequence = 1,
      rec_Request = \<lparr>req_Method = ''GET'', req_Path = ''/'', req_Query = '''', req_Headers = [], req_Body = [],
        req_BodyRef = '''', req_BodyLen = 0\<rparr>,
      rec_Response = \<lparr>resp_StatusCode = 200, resp_Headers = [], resp_Body = [], resp_BodyLen = 0\<rparr>,
      rec_SideEffects = [], rec_Duration = 1, rec_RecordedAt = 6, rec_Error = ''''\<rparr>"

definition demo_json :: json_codec where
  "demo_json =
     \<lparr>marshalSession = \<lambda>s. Some (sess_ID s), unmarshalSession = \<lambda>d. Some (demo_session\<lparr>sess_ID := d\<rparr>),
      marshalRecord = \<lambda>r. Some (rec_ID r), unmarshalRecord = \<lambda>d. Some (demo_record\<lparr>rec_ID := d\<rparr>),
      marshalResults = \<lambda>rs. Some '''', unmarshalResults = \<lambda>d. Some []\<rparr>"

definition demo_store :: FileStore where
  "demo_store = \<lparr>store_baseDir = [''d'']\<rparr>"

definition demo_fs :: fs where
  "demo_fs = [([], Dir), ([''d''], Dir), ([''d'', ''s1''], Dir), ([''d'', ''s1'', ''session.json''], File ''s1'')]"

lemmas demo_defs = demo_session_def demo_record_def demo_json_def demo_store_def demo_fs_def

lemma demo_inv: "store_inv demo_store demo_fs"
  by (auto simp: store_inv_def tree_ok_def node_ok_def demo_store_def demo_fs_def clean_path_def plain_name_def store_files_def
      strict_prefix_def split: if_splits)

lemma demo_ids: "ids_match demo_json demo_store demo_fs"
  by (simp add: ids_match_def subdirs_def demo_defs loadSession_def JoinPath_def ReadFile_def)

lemma demo_records_inv: "records_inv demo_store ''s1'' ''records.jsonl'' demo_fs"
  using demo_inv by (simp add: records_inv_def demo_store_def demo_fs_def store_files_def plain_name_def)

lemma demo_ok: "session_ok demo_json demo_session" "record_ok demo_json demo_record"
  by (simp_all add: session_ok_def record_ok_def plain_name_def demo_defs dropCR_def scan_limit_def)

theorem sessions_refine_map_witness:
  "\<exists>fs'. run_ops (session_step demo_json demo_store) demo_fs [DeleteOp ''s1'', CreateOp '''' 7 demo_session] = Some fs'
     \<and> store_inv demo_store fs'
     \<and> session_map demo_json demo_store fs'
         = foldl session_spec (session_map demo_json demo_store demo_fs) [DeleteOp ''s1'', CreateOp '''' 7 demo_session]"
proof -
  have fill: "fill_session '''' 7 demo_session = demo_session" by (simp add: fill_session_def demo_session_def)
  have del: "store_inv demo_store (Delete demo_store demo_fs ''s1'')"
    by (rule Delete_spec(1) [OF demo_inv]) (simp add: plain_name_def)
  obtain fs' where "run_ops (session_step demo_json demo_store) demo_fs [DeleteOp ''s1'', CreateOp '''' 7 demo_session] = Some fs'"
    using Create_spec [OF del, of demo_json "''''" 7 demo_session] fill demo_ok by auto
  moreover from sessions_refine_map [OF demo_inv _ this] fill demo_ok
  have "store_inv demo_store fs' \<and> session_map demo_json demo_store fs'
         = foldl session_spec (session_map demo_json demo_store demo_fs) [DeleteOp ''s1'', CreateOp '''' 7 demo_session]"
    by (simp add: plain_name_def)
  ultimately show ?thesis by blast
qed

theorem Create_then_Get_witness:
  "\<exists>fs' s'. Create demo_json demo_store ''u'' 7 demo_fs demo_session = (fs', s', None) \<and> Get demo_json demo_store fs' (sess_ID s') = Inr s'"
  using Create_then_Get [OF demo_inv, of demo_json "''u''" 7 demo_session] demo_ok
  by (auto simp: fill_session_def demo_session_def)

theorem AppendRecord_ListRecords_witness:
  "\<exists>fs'. ListRecords demo_json demo_store fs' ''s1'' = (fst (ListRecords demo_json demo_store demo_fs ''s1'') @ [demo_record, demo_record], None)"
  using AppendRecord_ListRecords [OF demo_records_inv, of demo_json "[demo_record, demo_record]"] demo_ok by auto

theorem PruneOldest_correct_witness:
  "snd (PruneOldest demo_json demo_store demo_fs 1) = None"
  using PruneOldest_correct [OF demo_inv demo_ids, of 1] by simp

theorem request_body_roundtrip_witness:
  "\<exists>fs' ref. OpenRequestBodyArtifact demo_store fs' ''s1'' ref = Inr ''x'' \<and> ref = ''artifacts/request-bodies/r1.bin''"
  using request_body_roundtrip [of "''r1''" demo_store demo_fs "''s1''" "''x''"]
  by (fastforce simp: SaveRequestBodyArtifact_def demo_store_def demo_fs_def JoinPath_def WriteFile_def parent_def)

theorem oversized_record_blocks_session_witness:
  "\<exists>fs'. AppendRecord (demo_json\<lparr>marshalRecord := \<lambda>r. Some (replicate scan_limit CHR ''x'')\<rparr>) demo_store demo_fs ''s1'' demo_record = (fs', None)
     \<and> CountRecords (demo_json\<lparr>marshalRecord := \<lambda>r. Some (replicate scan_limit CHR ''x'')\<rparr>) demo_store fs' ''s1'' = Inl ErrTooLong"
  using oversized_record_blocks_session [OF demo_records_inv,
      of "demo_json\<lparr>marshalRecord := \<lambda>r. Some (replicate scan_limit CHR ''x'')\<rparr>" demo_record "replicate scan_limit CHR ''x''"]
  by auto

theorem ListSessions_correct_witness:
  "\<exists>ss. ListSessions demo_json demo_store demo_fs (Some \<lparr>flt_Name = ''check'', flt_Status = '''', flt_Tags = []\<rparr>) = Inr ss \<and> distinct ss"
  using ListSessions_correct [OF demo_inv demo_ids, of "Some \<lparr>flt_Name = ''check'', flt_Status = '''', flt_Tags = []\<rparr>"] by blast

theorem SaveResults_LoadResults_witness:
  "\<exists>fs'. SaveResults demo_json demo_store demo_fs ''s1'' [] = (fs', None) \<and> LoadResults demo_json demo_store fs' ''s1'' = Inr []"
  using SaveResults_LoadResults [OF demo_inv, of "''s1''" demo_json "[]" "''''"]
  by (auto simp: plain_name_def demo_store_def demo_fs_def demo_json_def)

end
