(* ===== verification/Recorder.thy ===== *)
theory Recorder
  imports Storage
begin

text \<open>
  The recorder of a capture (\<^verbatim>\<open>internal/capture/recorder.go\<close>): request scopes, the attribution of
  side effects to them, and the records that are written when a scope is finished; first the
  operations one after the other, then the recorder as a system of goroutines that interleave.
\<close>

section \<open>State\<close>

record requestScope =
  sc_startedAt :: int
  sc_closedAt :: int
  sc_effects :: "SideEffect list"

text \<open>
  The contents of the channel of side effects are a list, oldest first. \<^verbatim>\<open>done\<close> is whether that
  channel has been closed, \<open>rcd_collecting\<close> whether the goroutine of \<^verbatim>\<open>collectSideEffects\<close> runs.
\<close>

record Recorder =
  rcd_sessionID :: string
  rcd_count :: int
  rcd_scopeID :: int
  rcd_sideEffectCh :: "SideEffect list"
  rcd_activeScopes :: "(int, requestScope) gomap"
  rcd_done :: bool
  rcd_collecting :: bool

definition sideEffectCap :: nat where
  "sideEffectCap = 1000"

definition NewRecorder :: "string \<Rightarrow> Recorder" where
  "NewRecorder sessionID =
     \<lparr>rcd_sessionID = sessionID, rcd_count = 0, rcd_scopeID = 0, rcd_sideEffectCh = [],
      rcd_activeScopes = [], rcd_done = False, rcd_collecting = True\<rparr>"

datatype recorder_error = ScopeNotFound int | AppendFailed storage_error

section \<open>Attribution\<close>

fun find_scope_loop ::
  "int \<Rightarrow> (int, requestScope) gomap \<Rightarrow> (int \<times> requestScope) option \<Rightarrow> (int \<times> requestScope) option" where
  "find_scope_loop timestamp [] found = found"
| "find_scope_loop timestamp ((scopeID, scope) # scopes) found =
     (if sc_startedAt scope > timestamp then find_scope_loop timestamp scopes found
      else if sc_closedAt scope \<noteq> 0 \<and> timestamp > sc_closedAt scope then find_scope_loop timestamp scopes found
      else if (case found of
                 None \<Rightarrow> True
               | Some (matchID, matchScope) \<Rightarrow>
                   sc_startedAt scope > sc_startedAt matchScope
                   \<or> (sc_startedAt scope = sc_startedAt matchScope \<and> scopeID > matchID))
           then find_scope_loop timestamp scopes (Some (scopeID, scope))
           else find_scope_loop timestamp scopes found)"

definition findScopeForEffect :: "Recorder \<Rightarrow> int \<Rightarrow> (int \<times> requestScope) option" where
  "findScopeForEffect r timestamp = find_scope_loop timestamp (rcd_activeScopes r) None"

text \<open>An effect that belongs to no scope is dropped, with a warning in the log.\<close>

definition assignSideEffect :: "Recorder \<Rightarrow> SideEffect \<Rightarrow> Recorder" where
  "assignSideEffect r effect =
     (case findScopeForEffect r (se_Timestamp effect) of
        None \<Rightarrow> r
      | Some (scopeID, scope) \<Rightarrow>
          r\<lparr>rcd_activeScopes := put scopeID (scope\<lparr>sc_effects := sc_effects scope @ [effect]\<rparr>) (rcd_activeScopes r)\<rparr>)"

fun drain_loop :: "SideEffect list \<Rightarrow> Recorder \<Rightarrow> Recorder" where
  "drain_loop [] r = r"
| "drain_loop (effect # ch) r = drain_loop ch (assignSideEffect r effect)"

definition drainSideEffects :: "Recorder \<Rightarrow> Recorder" where
  "drainSideEffects r = drain_loop (rcd_sideEffectCh r) (r\<lparr>rcd_sideEffectCh := []\<rparr>)"

text \<open>A flush after \<^verbatim>\<open>Stop\<close> returns at once.\<close>

definition flushSideEffects :: "Recorder \<Rightarrow> Recorder" where
  "flushSideEffects r = (if rcd_done r then r else drainSideEffects r)"

section \<open>Scopes and records\<close>

definition BeginRequestScope :: "Recorder \<Rightarrow> int \<Rightarrow> Recorder \<times> int" where
  "BeginRequestScope r startedAt =
     (let scopeID = rcd_scopeID r + 1
      in (r\<lparr>rcd_scopeID := scopeID,
            rcd_activeScopes := put scopeID \<lparr>sc_startedAt = startedAt, sc_closedAt = 0, sc_effects = []\<rparr> (rcd_activeScopes r)\<rparr>,
          scopeID))"

lemma begin_simps:
  "rcd_activeScopes (fst (BeginRequestScope r t))
     = put (rcd_scopeID r + 1) \<lparr>sc_startedAt = t, sc_closedAt = 0, sc_effects = []\<rparr> (rcd_activeScopes r)"
  "rcd_sessionID (fst (BeginRequestScope r t)) = rcd_sessionID r" "rcd_count (fst (BeginRequestScope r t)) = rcd_count r"
  "rcd_scopeID (fst (BeginRequestScope r t)) = rcd_scopeID r + 1" "rcd_done (fst (BeginRequestScope r t)) = rcd_done r"
  "rcd_collecting (fst (BeginRequestScope r t)) = rcd_collecting r"
  "rcd_sideEffectCh (fst (BeginRequestScope r t)) = rcd_sideEffectCh r" "snd (BeginRequestScope r t) = rcd_scopeID r + 1"
  by (simp_all add: BeginRequestScope_def Let_def)

definition persistRecord ::
  "json_codec \<Rightarrow> FileStore \<Rightarrow> fs \<Rightarrow> Recorder \<Rightarrow> Record \<Rightarrow> fs \<times> Recorder \<times> Record \<times> recorder_error option" where
  "persistRecord json st fs r record =
     (let record = record\<lparr>rec_SessionID := rcd_sessionID r\<rparr>
      in case AppendRecord json st fs (rcd_sessionID r) record of
           (fs', Some e) \<Rightarrow> (fs', r, record, Some (AppendFailed e))
         | (fs', None) \<Rightarrow> (fs', r\<lparr>rcd_count := rcd_count r + 1\<rparr>, record, None))"

definition stamp_recorded :: "int \<Rightarrow> Record \<Rightarrow> Record" where
  "stamp_recorded now record = (if rec_RecordedAt record = 0 then record\<lparr>rec_RecordedAt := now\<rparr> else record)"

text \<open>The two critical sections of \<^verbatim>\<open>FinishRequestScope\<close>, before and after the flush.\<close>

definition close_scope :: "Recorder \<Rightarrow> int \<Rightarrow> int \<Rightarrow> Recorder option" where
  "close_scope r scopeID closedAt =
     (case map_of (rcd_activeScopes r) scopeID of
        None \<Rightarrow> None
      | Some scope \<Rightarrow> Some (r\<lparr>rcd_activeScopes := put scopeID (scope\<lparr>sc_closedAt := closedAt\<rparr>) (rcd_activeScopes r)\<rparr>))"

definition take_scope :: "Recorder \<Rightarrow> int \<Rightarrow> Record \<Rightarrow> (Recorder \<times> Record) option" where
  "take_scope r scopeID record =
     (case map_of (rcd_activeScopes r) scopeID of
        None \<Rightarrow> None
      | Some scope \<Rightarrow>
          Some (r\<lparr>rcd_activeScopes := filter (\<lambda>e. fst e \<noteq> scopeID) (rcd_activeScopes r)\<rparr>,
                record\<lparr>rec_SideEffects := rec_SideEffects record @ sc_effects scope\<rparr>))"

definition FinishRequestScope ::
  "json_codec \<Rightarrow> FileStore \<Rightarrow> int \<Rightarrow> fs \<Rightarrow> Recorder \<Rightarrow> int \<Rightarrow> Record \<Rightarrow> fs \<times> Recorder \<times> Record \<times> recorder_error option" where
  "FinishRequestScope json st now fs r scopeID record =
     (let record = stamp_recorded now record
      in case close_scope r scopeID (rec_RecordedAt record) of
           None \<Rightarrow> (fs, r, record, Some (ScopeNotFound scopeID))
         | Some r1 \<Rightarrow>
             (let r2 = flushSideEffects r1
              in case take_scope r2 scopeID record of
                   None \<Rightarrow> (fs, r2, record, Some (ScopeNotFound scopeID))
                 | Some (r3, record) \<Rightarrow> persistRecord json st fs r3 record))"

text \<open>The exported wrappers: a record outside of every scope, and a request body for a later replay.\<close>

definition Recorder_Record where
  "Recorder_Record json st fs r record = persistRecord json st fs r record"

definition Recorder_SaveRequestBodyArtifact where
  "Recorder_SaveRequestBodyArtifact st fs r recordID src = SaveRequestBodyArtifact st fs (rcd_sessionID r) recordID src"

definition Stop :: "Recorder \<Rightarrow> Recorder" where
  "Stop r = (if rcd_done r then r else (drainSideEffects r)\<lparr>rcd_done := True, rcd_collecting := False\<rparr>)"

section \<open>Which scope an effect belongs to\<close>

definition covers :: "int \<Rightarrow> requestScope \<Rightarrow> bool" where
  "covers t scope \<longleftrightarrow> sc_startedAt scope \<le> t \<and> (sc_closedAt scope = 0 \<or> t \<le> sc_closedAt scope)"

definition no_newer :: "int \<times> requestScope \<Rightarrow> int \<times> requestScope \<Rightarrow> bool" where
  "no_newer x y \<longleftrightarrow> sc_startedAt (snd x) < sc_startedAt (snd y)
     \<or> (sc_startedAt (snd x) = sc_startedAt (snd y) \<and> fst x \<le> fst y)"

lemma no_newer_refl [simp]: "no_newer x x"
  by (simp add: no_newer_def)

lemma no_newer_trans: "no_newer x y \<Longrightarrow> no_newer y z \<Longrightarrow> no_newer x z"
  by (auto simp: no_newer_def)

lemma no_newer_linear: "\<not> no_newer x y \<Longrightarrow> no_newer y x"
  by (auto simp: no_newer_def)

lemma find_scope_loop_Cons:
  "find_scope_loop t (x # scopes) found =
     (if covers t (snd x) \<and> (\<forall>y\<in>set_option found. \<not> no_newer x y)
      then find_scope_loop t scopes (Some x) else find_scope_loop t scopes found)"
  by (cases x; cases found) (auto simp: covers_def no_newer_def)

lemma find_scope_loop_best:
  "find_scope_loop t scopes found = res \<Longrightarrow>
   (case res of
      None \<Rightarrow> found = None \<and> (\<forall>x\<in>set scopes. \<not> covers t (snd x))
    | Some y \<Rightarrow> (found = Some y \<or> (y \<in> set scopes \<and> covers t (snd y)))
        \<and> (\<forall>x\<in>set scopes. covers t (snd x) \<longrightarrow> no_newer x y) \<and> (\<forall>x\<in>set_option found. no_newer x y))"
proof (induction scopes arbitrary: found res)
  case Nil
  then show ?case by (cases res) auto
next
  case (Cons x scopes)
  show ?case
  proof (cases "covers t (snd x) \<and> (\<forall>y\<in>set_option found. \<not> no_newer x y)")
    case True
    with Cons.prems have "find_scope_loop t scopes (Some x) = res" by (simp add: find_scope_loop_Cons)
    from Cons.IH [OF this] True show ?thesis
      by (cases res) (auto dest: no_newer_linear intro: no_newer_trans)
  next
    case False
    with Cons.prems have "find_scope_loop t scopes found = res" by (simp add: find_scope_loop_Cons)
    from Cons.IH [OF this] False show ?thesis
      by (cases res; cases found) (auto intro: no_newer_trans)
  qed
qed

lemma findScopeForEffect_None: "findScopeForEffect r t = None \<longleftrightarrow> (\<forall>x\<in>set (rcd_activeScopes r). \<not> covers t (snd x))"
  using find_scope_loop_best [OF refl, where t = t and scopes = "rcd_activeScopes r" and found = None]
  by (auto simp: findScopeForEffect_def split: option.splits)

lemma findScopeForEffect_SomeD:
  "findScopeForEffect r t = Some x \<Longrightarrow>
     x \<in> set (rcd_activeScopes r) \<and> covers t (snd x) \<and> (\<forall>y\<in>set (rcd_activeScopes r). covers t (snd y) \<longrightarrow> no_newer y x)"
  using find_scope_loop_best [OF refl, where t = t and scopes = "rcd_activeScopes r" and found = None]
  by (auto simp: findScopeForEffect_def)

lemma findScopeForEffect_Some:
  assumes "go_map (rcd_activeScopes r)"
  shows "findScopeForEffect r t = Some x \<longleftrightarrow>
     x \<in> set (rcd_activeScopes r) \<and> covers t (snd x) \<and> (\<forall>y\<in>set (rcd_activeScopes r). covers t (snd y) \<longrightarrow> no_newer y x)"
    (is "_ \<longleftrightarrow> ?best x")
proof
  assume best: "?best x"
  then obtain y where y: "findScopeForEffect r t = Some y"
    using findScopeForEffect_None [of r t] by (cases "findScopeForEffect r t") auto
  from findScopeForEffect_SomeD [OF y] best have "no_newer x y" "no_newer y x" "y \<in> set (rcd_activeScopes r)" by auto
  then have "fst x = fst y" by (auto simp: no_newer_def)
  with best \<open>y \<in> _\<close> assms have "x = y" unfolding go_map_def by (metis eq_key_imp_eq_value prod.collapse)
  with y show "findScopeForEffect r t = Some x" by simp
qed (rule findScopeForEffect_SomeD)

section \<open>Draining\<close>

text \<open>The window of a scope; attribution looks at nothing else, and changes none.\<close>

definition window :: "int \<times> requestScope \<Rightarrow> int \<times> int \<times> int" where
  "window x = (fst x, sc_startedAt (snd x), sc_closedAt (snd x))"

definition windows :: "Recorder \<Rightarrow> (int \<times> int \<times> int) list" where
  "windows r = map window (rcd_activeScopes r)"

definition pick :: "Recorder \<Rightarrow> SideEffect \<Rightarrow> int option" where
  "pick r e = map_option fst (findScopeForEffect r (se_Timestamp e))"

lemma find_scope_loop_window:
  "map window scopes = map window scopes' \<Longrightarrow> map_option window found = map_option window found' \<Longrightarrow>
   map_option window (find_scope_loop t scopes found) = map_option window (find_scope_loop t scopes' found')"
proof (induction scopes arbitrary: scopes' found found')
  case (Cons x scopes)
  then obtain x' ss' where s': "scopes' = x' # ss'" "window x = window x'" "map window scopes = map window ss'" by auto
  have "covers t (snd x) = covers t (snd x')" using s'(2) by (simp add: window_def covers_def)
  moreover have "(\<forall>y\<in>set_option found. \<not> no_newer x y) = (\<forall>y\<in>set_option found'. \<not> no_newer x' y)"
    using s'(2) Cons.prems(2) by (cases found; cases found') (auto simp: window_def no_newer_def)
  ultimately show ?case
    unfolding s'(1) find_scope_loop_Cons using Cons.IH [OF s'(3)] Cons.prems(2) s'(2) by simp
qed simp

lemma pick_windows: "windows r = windows r' \<Longrightarrow> pick r e = pick r' e"
proof -
  assume "windows r = windows r'"
  then have "map_option window (findScopeForEffect r (se_Timestamp e)) = map_option window (findScopeForEffect r' (se_Timestamp e))"
    unfolding findScopeForEffect_def windows_def by (intro find_scope_loop_window) simp_all
  then show ?thesis
    by (cases "findScopeForEffect r (se_Timestamp e)"; cases "findScopeForEffect r' (se_Timestamp e)")
      (auto simp: pick_def window_def)
qed

lemma map_window_put:
  "go_map m \<Longrightarrow> map_of m k = Some v \<Longrightarrow> window (k, v') = window (k, v) \<Longrightarrow> map window (put k v' m) = map window m"
  by (induction k v' m rule: put.induct) (auto split: if_splits)

lemma assignSideEffect_windows:
  assumes "go_map (rcd_activeScopes r)"
  shows "windows (assignSideEffect r e) = windows r \<and> go_map (rcd_activeScopes (assignSideEffect r e))"
proof (cases "findScopeForEffect r (se_Timestamp e)")
  case (Some x)
  obtain k v where x: "x = (k, v)" by fastforce
  from findScopeForEffect_SomeD [OF Some] assms x have "map_of (rcd_activeScopes r) k = Some v" by (auto intro: map_of_go_map)
  with assms Some x show ?thesis by (auto simp: assignSideEffect_def windows_def window_def intro!: map_window_put)
qed (use assms in \<open>simp add: assignSideEffect_def\<close>)

lemma assignSideEffect_scope:
  assumes "go_map (rcd_activeScopes r)" "map_of (rcd_activeScopes r) k = Some v"
  shows "map_of (rcd_activeScopes (assignSideEffect r e)) k
       = Some (if pick r e = Some k then v\<lparr>sc_effects := sc_effects v @ [e]\<rparr> else v)"
proof (cases "findScopeForEffect r (se_Timestamp e)")
  case (Some x)
  obtain k' v' where x: "x = (k', v')" by fastforce
  from findScopeForEffect_SomeD [OF Some] assms x have "map_of (rcd_activeScopes r) k' = Some v'" by (auto intro: map_of_go_map)
  with assms Some x show ?thesis by (auto simp: assignSideEffect_def pick_def)
qed (use assms in \<open>simp add: assignSideEffect_def pick_def\<close>)

lemma drain_loop_scope:
  assumes "go_map (rcd_activeScopes r)" "map_of (rcd_activeScopes r) k = Some v"
  shows "map_of (rcd_activeScopes (drain_loop es r)) k
       = Some (v\<lparr>sc_effects := sc_effects v @ filter (\<lambda>e. pick r e = Some k) es\<rparr>)
     \<and> windows (drain_loop es r) = windows r \<and> go_map (rcd_activeScopes (drain_loop es r))"
  using assms
proof (induction es arbitrary: r v)
  case (Cons e es)
  let ?r = "assignSideEffect r e"
  have w: "windows ?r = windows r" "go_map (rcd_activeScopes ?r)" using assignSideEffect_windows [OF Cons.prems(1)] by simp_all
  have p: "pick ?r x = pick r x" for x using w(1) by (rule pick_windows)
  from Cons.IH [OF w(2) assignSideEffect_scope [OF Cons.prems]] show ?case by (auto simp: p w)
qed simp

lemma assign_fixed [simp]:
  "rcd_sessionID (assignSideEffect r e) = rcd_sessionID r" "rcd_count (assignSideEffect r e) = rcd_count r"
  "rcd_scopeID (assignSideEffect r e) = rcd_scopeID r" "rcd_sideEffectCh (assignSideEffect r e) = rcd_sideEffectCh r"
  "rcd_done (assignSideEffect r e) = rcd_done r" "rcd_collecting (assignSideEffect r e) = rcd_collecting r"
  by (simp_all add: assignSideEffect_def split: option.split)

lemma drain_loop_fixed [simp]:
  "rcd_sessionID (drain_loop es r) = rcd_sessionID r" "rcd_count (drain_loop es r) = rcd_count r"
  "rcd_scopeID (drain_loop es r) = rcd_scopeID r" "rcd_sideEffectCh (drain_loop es r) = rcd_sideEffectCh r"
  "rcd_done (drain_loop es r) = rcd_done r" "rcd_collecting (drain_loop es r) = rcd_collecting r"
  by (induction es r rule: drain_loop.induct) simp_all

section \<open>Finishing a scope\<close>

lemma AppendRecord_one:
  assumes "records_inv st sid ''records.jsonl'' fs" "record_ok json record"
  obtains fs' where "AppendRecord json st fs sid record = (fs', None)" "records_inv st sid ''records.jsonl'' fs'"
    "ListRecords json st fs' sid = (fst (ListRecords json st fs sid) @ [record], None)"
proof -
  from records.run_total [of st sid "''records.jsonl''" fs json "[record]"] assms obtain fs'
    where run: "append_step json st sid ''records.jsonl'' fs record = Some fs'" "records_inv st sid ''records.jsonl'' fs'"
      and list: "fst (listRecords json st fs' sid ''records.jsonl'') = fst (listRecords json st fs sid ''records.jsonl'') @ [record]"
    by (auto split: option.splits)
  have "AppendRecord json st fs sid record = (fs', None)"
    using run(1) by (auto simp: append_step_def AppendRecord_def split: prod.splits option.splits)
  then show thesis
    using that run(2) list listRecords_no_error [OF run(2), of json] by (simp add: ListRecords_def prod_eq_iff)
qed

definition closed_at :: "int \<Rightarrow> int \<Rightarrow> requestScope \<Rightarrow> Recorder \<Rightarrow> Recorder" where
  "closed_at scopeID t scope r =
     r\<lparr>rcd_activeScopes := put scopeID (scope\<lparr>sc_closedAt := t\<rparr>) (rcd_activeScopes r)\<rparr>"

lemma close_scope_Some:
  "map_of (rcd_activeScopes r) k = Some scope \<Longrightarrow> close_scope r k t = Some (closed_at k t scope r)"
  by (simp add: close_scope_def closed_at_def)

definition with_effects :: "Record \<Rightarrow> SideEffect list \<Rightarrow> Record" where
  "with_effects record es = record\<lparr>rec_SideEffects := rec_SideEffects record @ es\<rparr>"

lemma map_of_filter_key: "map_of (filter (\<lambda>e. fst e \<noteq> k) m) k' = (if k' = k then None else map_of m k')"
  by (induction m) auto

lemma map_window_filter: "map window (filter (\<lambda>e. fst e \<noteq> k) m) = filter (\<lambda>w. fst w \<noteq> k) (map window m)"
  by (induction m) (auto simp: window_def)

lemma FinishRequestScope_effects:
  fixes r k scope rc now
  defines "rc' \<equiv> stamp_recorded now rc"
  defines "r1 \<equiv> closed_at k (rec_RecordedAt rc') scope r"
  assumes "go_map (rcd_activeScopes r)" and scope: "map_of (rcd_activeScopes r) k = Some scope" and "\<not> rcd_done r"
  obtains r3 where
    "FinishRequestScope json st now fs r k rc
       = persistRecord json st fs r3 (with_effects rc' (sc_effects scope @ filter (\<lambda>e. pick r1 e = Some k) (rcd_sideEffectCh r)))"
    "rcd_sessionID r3 = rcd_sessionID r" "rcd_count r3 = rcd_count r" "rcd_sideEffectCh r3 = []" "rcd_scopeID r3 = rcd_scopeID r"
    "go_map (rcd_activeScopes r3)" "windows r3 = filter (\<lambda>w. fst w \<noteq> k) (windows r1)" "\<not> rcd_done r3"
proof -
  let ?r = "r1\<lparr>rcd_sideEffectCh := []\<rparr>"
  have r1: "go_map (rcd_activeScopes ?r)" "map_of (rcd_activeScopes ?r) k = Some (scope\<lparr>sc_closedAt := rec_RecordedAt rc'\<rparr>)"
    using assms by (simp_all add: r1_def closed_at_def)
  have p: "pick ?r e = pick r1 e" for e by (rule pick_windows) (simp add: windows_def)
  define r2 where "r2 = flushSideEffects r1"
  have r2: "r2 = drain_loop (rcd_sideEffectCh r) ?r"
    using assms(5) by (simp add: r2_def flushSideEffects_def drainSideEffects_def r1_def closed_at_def)
  note d = drain_loop_scope [OF r1, of "rcd_sideEffectCh r", unfolded p, folded r2]
  define r3 where "r3 = r2\<lparr>rcd_activeScopes := filter (\<lambda>e. fst e \<noteq> k) (rcd_activeScopes r2)\<rparr>"
  have "FinishRequestScope json st now fs r k rc
      = persistRecord json st fs r3 (with_effects rc' (sc_effects scope @ filter (\<lambda>e. pick r1 e = Some k) (rcd_sideEffectCh r)))"
    unfolding FinishRequestScope_def Let_def rc'_def [symmetric] close_scope_Some [OF scope] r1_def [symmetric]
      take_scope_def with_effects_def
    using d by (simp add: r3_def flip: r2_def)
  moreover have "windows r3 = filter (\<lambda>w. fst w \<noteq> k) (windows r1)"
    using d by (simp add: r3_def windows_def map_window_filter)
  moreover have "go_map (rcd_activeScopes r3)" using d by (simp add: r3_def go_map_def distinct_map_filter)
  ultimately show thesis
    using that [of r3] assms(5) by (simp add: r3_def r2 r1_def closed_at_def)
qed

section \<open>The recorder as a system\<close>

text \<open>
  The state of the recorder and of the store, the calls of \<^verbatim>\<open>FinishRequestScope\<close> that wait for
  their flush and those that have got it, and a history: the effects sent, those dropped, and the
  scopes finished.
\<close>

record rsys =
  y_rec :: Recorder
  y_fs :: fs
  y_waiting :: "(int \<times> Record) list"
  y_flushed :: "(int \<times> Record) list"
  y_sent :: "SideEffect list"
  y_dropped :: "SideEffect list"
  y_finished :: "(int \<times> requestScope) list"

definition rec_init :: "string \<Rightarrow> fs \<Rightarrow> rsys" where
  "rec_init sessionID fs =
     \<lparr>y_rec = NewRecorder sessionID, y_fs = fs, y_waiting = [], y_flushed = [], y_sent = [], y_dropped = [], y_finished = []\<rparr>"

inductive rec_step :: "json_codec \<Rightarrow> FileStore \<Rightarrow> rsys \<Rightarrow> rsys \<Rightarrow> bool" for json st where
  Begin: "rec_step json st y (y\<lparr>y_rec := fst (BeginRequestScope (y_rec y) startedAt)\<rparr>)"
| Send: "length (rcd_sideEffectCh (y_rec y)) < sideEffectCap \<Longrightarrow>
    rec_step json st y (y\<lparr>y_rec := (y_rec y)\<lparr>rcd_sideEffectCh := rcd_sideEffectCh (y_rec y) @ [effect]\<rparr>,
      y_sent := y_sent y @ [effect]\<rparr>)"
| Collect: "rcd_collecting (y_rec y) \<Longrightarrow> rcd_sideEffectCh (y_rec y) = effect # rest \<Longrightarrow>
    rec_step json st y (y\<lparr>y_rec := assignSideEffect ((y_rec y)\<lparr>rcd_sideEffectCh := rest\<rparr>) effect,
      y_dropped := y_dropped y @ (if pick (y_rec y) effect = None then [effect] else [])\<rparr>)"
| Close: "close_scope (y_rec y) scopeID (rec_RecordedAt record) = Some r \<Longrightarrow>
    rec_step json st y (y\<lparr>y_rec := r, y_waiting := y_waiting y @ [(scopeID, record)]\<rparr>)"
| Flushed: "y_waiting y = ws @ w # ws' \<Longrightarrow>
    rcd_done (y_rec y) \<or> (rcd_collecting (y_rec y) \<and> rcd_sideEffectCh (y_rec y) = []) \<Longrightarrow>
    rec_step json st y (y\<lparr>y_waiting := ws @ ws', y_flushed := y_flushed y @ [w]\<rparr>)"
| Finish: "y_flushed y = ws @ (scopeID, record) # ws' \<Longrightarrow> map_of (rcd_activeScopes (y_rec y)) scopeID = Some scope \<Longrightarrow>
    take_scope (y_rec y) scopeID record = Some (r, record') \<Longrightarrow>
    persistRecord json st (y_fs y) r record' = (fs', r', record'', e) \<Longrightarrow>
    rec_step json st y (y\<lparr>y_rec := r', y_fs := fs', y_flushed := ws @ ws', y_finished := y_finished y @ [(scopeID, scope)]\<rparr>)"
| FinishGone: "y_flushed y = ws @ (scopeID, record) # ws' \<Longrightarrow> take_scope (y_rec y) scopeID record = None \<Longrightarrow>
    rec_step json st y (y\<lparr>y_flushed := ws @ ws'\<rparr>)"
| StopCalled: "rec_step json st y (y\<lparr>y_rec := (y_rec y)\<lparr>rcd_done := True\<rparr>\<rparr>)"
| CollectorExit: "rcd_done (y_rec y) \<Longrightarrow> rcd_sideEffectCh (y_rec y) = [] \<Longrightarrow>
    rec_step json st y (y\<lparr>y_rec := (y_rec y)\<lparr>rcd_collecting := False\<rparr>\<rparr>)"

abbreviation rec_run :: "json_codec \<Rightarrow> FileStore \<Rightarrow> rsys \<Rightarrow> rsys \<Rightarrow> bool" where
  "rec_run json st \<equiv> (rec_step json st)\<^sup>*\<^sup>*"

section \<open>Invariants of the system\<close>

abbreviation scope_effects :: "(int \<times> requestScope) list \<Rightarrow> SideEffect multiset" where
  "scope_effects scopes \<equiv> mset (concat (map (\<lambda>x. sc_effects (snd x)) scopes))"

definition scopes_wf :: "Recorder \<Rightarrow> bool" where
  "scopes_wf r \<longleftrightarrow> go_map (rcd_activeScopes r) \<and> (\<forall>k\<in>fst ` set (rcd_activeScopes r). k \<le> rcd_scopeID r)"

definition in_window :: "int \<times> requestScope \<Rightarrow> bool" where
  "in_window x \<longleftrightarrow> (\<forall>e\<in>set (sc_effects (snd x)). sc_startedAt (snd x) \<le> se_Timestamp e)"

definition rec_inv :: "rsys \<Rightarrow> bool" where
  "rec_inv y \<longleftrightarrow>
     scopes_wf (y_rec y)
     \<and> mset (y_sent y) = mset (rcd_sideEffectCh (y_rec y)) + scope_effects (rcd_activeScopes (y_rec y))
         + scope_effects (y_finished y) + mset (y_dropped y)
     \<and> list_all in_window (rcd_activeScopes (y_rec y)) \<and> list_all in_window (y_finished y)
     \<and> distinct (map fst (y_finished y)) \<and> fst ` set (y_finished y) \<inter> fst ` set (rcd_activeScopes (y_rec y)) = {}
     \<and> (\<forall>k\<in>fst ` set (y_finished y). k \<le> rcd_scopeID (y_rec y))
     \<and> length (rcd_sideEffectCh (y_rec y)) \<le> sideEffectCap"

lemma scope_effects_put_new: "k \<notin> fst ` set m \<Longrightarrow> scope_effects (put k v m) = scope_effects m + mset (sc_effects v)"
  by (induction k v m rule: put.induct) auto

lemma scope_effects_put:
  "go_map m \<Longrightarrow> map_of m k = Some v \<Longrightarrow> scope_effects (put k v' m) + mset (sc_effects v) = scope_effects m + mset (sc_effects v')"
  by (induction k v' m rule: put.induct) (auto split: if_splits)

lemma scope_effects_filter:
  "go_map m \<Longrightarrow> map_of m k = Some v \<Longrightarrow> scope_effects (filter (\<lambda>e. fst e \<noteq> k) m) + mset (sc_effects v) = scope_effects m"
proof (induction m)
  case (Cons x m)
  show ?case
  proof (cases "fst x = k")
    case True
    with Cons.prems(1) have "filter (\<lambda>e. fst e \<noteq> k) m = m"
      by (cases x) (auto simp: filter_id_conv)
    with True Cons.prems show ?thesis by (cases x) simp
  next
    case False
    with Cons show ?thesis by (cases x) simp
  qed
qed simp

lemma list_all_put: "list_all P m \<Longrightarrow> P (k, v) \<Longrightarrow> list_all P (put k v m)"
  by (induction k v m rule: put.induct) auto

lemma list_all_filter: "list_all P m \<Longrightarrow> list_all P (filter Q m)"
  by (induction m) auto

lemma scopes_wf_assign:
  assumes "scopes_wf r" "list_all in_window (rcd_activeScopes r)"
  shows "scopes_wf (assignSideEffect r e) \<and> list_all in_window (rcd_activeScopes (assignSideEffect r e))
     \<and> scope_effects (rcd_activeScopes (assignSideEffect r e)) + mset (if pick r e = None then [e] else [])
        = scope_effects (rcd_activeScopes r) + {#e#}
     \<and> fst ` set (rcd_activeScopes (assignSideEffect r e)) = fst ` set (rcd_activeScopes r)"
proof (cases "findScopeForEffect r (se_Timestamp e)")
  case None
  with assms show ?thesis by (simp add: assignSideEffect_def pick_def)
next
  case (Some x)
  obtain k v where x: "x = (k, v)" by fastforce
  note f = findScopeForEffect_SomeD [OF Some, unfolded x]
  have v: "map_of (rcd_activeScopes r) k = Some v"
    using f assms(1) by (auto simp: scopes_wf_def intro: map_of_go_map)
  let ?v = "v\<lparr>sc_effects := sc_effects v @ [e]\<rparr>"
  have k: "insert k (fst ` set (rcd_activeScopes r)) = fst ` set (rcd_activeScopes r)" using f by force
  have "in_window (k, ?v)" using f assms(2) by (auto simp: in_window_def list_all_iff covers_def)
  moreover have "scope_effects (put k ?v (rcd_activeScopes r)) = scope_effects (rcd_activeScopes r) + {#e#}"
    using scope_effects_put [of "rcd_activeScopes r" k v ?v] v assms(1) by (simp add: scopes_wf_def)
  ultimately show ?thesis using Some x assms k
    by (simp add: assignSideEffect_def pick_def scopes_wf_def fst_set_put list_all_put)
qed

lemma persist_fixed:
  "persistRecord json st fs r rc = (fs', r', rc', e) \<Longrightarrow>
     rcd_activeScopes r' = rcd_activeScopes r \<and> rcd_scopeID r' = rcd_scopeID r \<and> rcd_sideEffectCh r' = rcd_sideEffectCh r
     \<and> rcd_done r' = rcd_done r \<and> rcd_collecting r' = rcd_collecting r"
  by (auto simp: persistRecord_def Let_def split: prod.splits option.splits)

lemma rec_inv_init: "rec_inv (rec_init sid fs)"
  by (simp add: rec_inv_def rec_init_def NewRecorder_def scopes_wf_def)

lemma rec_inv_step:
  assumes "rec_step json st y y'" and "rec_inv y"
  shows "rec_inv y'"
  using assms
proof (induction rule: rec_step.induct)
  case (Begin y t)
  have "rcd_scopeID (y_rec y) + 1 \<notin> fst ` set (rcd_activeScopes (y_rec y))"
    "rcd_scopeID (y_rec y) + 1 \<notin> fst ` set (y_finished y)"
    using Begin by (force simp: rec_inv_def scopes_wf_def)+
  with Begin show ?case
    by (force simp: rec_inv_def BeginRequestScope_def Let_def scopes_wf_def fst_set_put scope_effects_put_new in_window_def intro!: list_all_put)
next
  case (Collect y e es)
  have r: "scopes_wf ((y_rec y)\<lparr>rcd_sideEffectCh := es\<rparr>)" "list_all in_window (rcd_activeScopes ((y_rec y)\<lparr>rcd_sideEffectCh := es\<rparr>))"
    using Collect.prems by (simp_all add: rec_inv_def scopes_wf_def)
  have p: "pick ((y_rec y)\<lparr>rcd_sideEffectCh := es\<rparr>) e = pick (y_rec y) e" by (rule pick_windows) (simp add: windows_def)
  note a = scopes_wf_assign [OF r, of e, unfolded p]
  have "scopes_wf (assignSideEffect ((y_rec y)\<lparr>rcd_sideEffectCh := es\<rparr>) e)" using a by simp
  with a Collect show ?case by (simp add: rec_inv_def)
next
  case (Close y k rc r)
  then obtain v where v: "map_of (rcd_activeScopes (y_rec y)) k = Some v" and r: "r = closed_at k (rec_RecordedAt rc) v (y_rec y)"
    by (auto simp: close_scope_def closed_at_def split: option.splits)
  let ?v = "v\<lparr>sc_closedAt := rec_RecordedAt rc\<rparr>"
  have kv: "(k, v) \<in> set (rcd_activeScopes (y_rec y))" using v by (rule map_of_SomeD)
  have all: "list_all in_window (rcd_activeScopes (y_rec y))" and g: "go_map (rcd_activeScopes (y_rec y))"
    using Close.prems by (simp_all add: rec_inv_def scopes_wf_def)
  from all kv have "in_window (k, v)" by (auto simp: list_all_iff)
  then have w: "in_window (k, ?v)" by (simp add: in_window_def)
  from kv have k: "insert k (fst ` set (rcd_activeScopes (y_rec y))) = fst ` set (rcd_activeScopes (y_rec y))" by force
  have "scope_effects (put k ?v (rcd_activeScopes (y_rec y))) = scope_effects (rcd_activeScopes (y_rec y))"
    using scope_effects_put [OF g v, of ?v] by simp
  with Close.prems w k all show ?case
    by (simp add: rec_inv_def scopes_wf_def r closed_at_def fst_set_put list_all_put)
next
  case (Finish y ws k rc ws' v r rc' fs' r' rc'' e)
  let ?m = "rcd_activeScopes (y_rec y)"
  let ?m' = "filter (\<lambda>e. fst e \<noteq> k) ?m"
  let ?y = "y\<lparr>y_rec := r', y_fs := fs', y_flushed := ws @ ws', y_finished := y_finished y @ [(k, v)]\<rparr>"
  from Finish have r: "r = (y_rec y)\<lparr>rcd_activeScopes := ?m'\<rparr>"
    by (simp add: take_scope_def)
  from persist_fixed [OF Finish(4), unfolded r]
  have r': "rcd_scopeID r' = rcd_scopeID (y_rec y)" "rcd_sideEffectCh r' = rcd_sideEffectCh (y_rec y)" "rcd_activeScopes r' = ?m'"
    by simp_all
  have v: "(k, v) \<in> set ?m" "k \<in> fst ` set ?m" using map_of_SomeD [OF Finish(2)] by force+
  have g: "go_map ?m" "list_all in_window ?m" using Finish.prems by (simp_all add: rec_inv_def scopes_wf_def)
  have bound: "\<forall>j\<in>fst ` set ?m. j \<le> rcd_scopeID (y_rec y)" "\<forall>j\<in>fst ` set (y_finished y). j \<le> rcd_scopeID (y_rec y)"
    and apart: "distinct (map fst (y_finished y))" "fst ` set (y_finished y) \<inter> fst ` set ?m = {}" "list_all in_window (y_finished y)"
    and sent: "mset (y_sent y) = mset (rcd_sideEffectCh (y_rec y)) + scope_effects ?m + scope_effects (y_finished y) + mset (y_dropped y)"
    and cap: "length (rcd_sideEffectCh (y_rec y)) \<le> sideEffectCap"
    using Finish.prems by (simp_all add: rec_inv_def scopes_wf_def)
  have "scopes_wf r'" using g(1) bound(1) by (auto simp: scopes_wf_def r' go_map_def distinct_map_filter)
  moreover have "mset (y_sent y) = mset (rcd_sideEffectCh r') + scope_effects (rcd_activeScopes r')
      + scope_effects (y_finished y @ [(k, v)]) + mset (y_dropped y)"
    using sent scope_effects_filter [OF g(1) Finish(2)] by (simp add: r' add.assoc add.left_commute add.commute)
  moreover have "list_all in_window (rcd_activeScopes r')" using g(2) by (simp add: r' list_all_filter)
  moreover have "list_all in_window (y_finished y @ [(k, v)])" using apart(3) g(2) v by (auto simp: list_all_iff)
  moreover have "distinct (map fst (y_finished y @ [(k, v)]))" using apart(1,2) v(2) by auto
  moreover have "fst ` set (y_finished y @ [(k, v)]) \<inter> fst ` set (rcd_activeScopes r') = {}" using apart(2) by (auto simp: r')
  moreover have "\<forall>j\<in>fst ` set (y_finished y @ [(k, v)]). j \<le> rcd_scopeID r'" using bound v(2) by (auto simp: r')
  moreover have "length (rcd_sideEffectCh r') \<le> sideEffectCap" using cap by (simp add: r')
  moreover have y: "y_rec ?y = r'" "y_sent ?y = y_sent y" "y_dropped ?y = y_dropped y" "y_finished ?y = y_finished y @ [(k, v)]"
    by simp_all
  ultimately show ?case unfolding rec_inv_def y by (intro conjI)
qed (auto simp: rec_inv_def scopes_wf_def)

lemma rec_inv_run: "rec_run json st y y' \<Longrightarrow> rec_inv y \<Longrightarrow> rec_inv y'"
  by (induction rule: rtranclp_induct) (auto intro: rec_inv_step)

section \<open>A waiting call is served\<close>

lemma assign_channel:
  "(assignSideEffect (r\<lparr>rcd_sideEffectCh := ch\<rparr>) e)\<lparr>rcd_sideEffectCh := ch'\<rparr> = assignSideEffect (r\<lparr>rcd_sideEffectCh := ch'\<rparr>) e"
  by (simp add: assignSideEffect_def findScopeForEffect_def split: option.split)

lemma drain_run:
  "rcd_collecting (y_rec y) \<Longrightarrow> rcd_sideEffectCh (y_rec y) = es \<Longrightarrow>
   \<exists>y'. rec_run json st y y' \<and> y_rec y' = drain_loop es ((y_rec y)\<lparr>rcd_sideEffectCh := []\<rparr>)
     \<and> y_fs y' = y_fs y \<and> y_waiting y' = y_waiting y \<and> y_flushed y' = y_flushed y
     \<and> y_sent y' = y_sent y \<and> y_finished y' = y_finished y"
proof (induction es arbitrary: y)
  case Nil
  then show ?case by (intro exI [of _ y]) simp
next
  case (Cons e es)
  let ?y = "y\<lparr>y_rec := assignSideEffect ((y_rec y)\<lparr>rcd_sideEffectCh := es\<rparr>) e,
    y_dropped := y_dropped y @ (if pick (y_rec y) e = None then [e] else [])\<rparr>"
  have step: "rec_step json st y ?y" using Cons.prems by (rule rec_step.Collect)
  from Cons.IH [of ?y] Cons.prems obtain y' where
    "rec_run json st ?y y'" "y_rec y' = drain_loop es ((y_rec ?y)\<lparr>rcd_sideEffectCh := []\<rparr>)"
    "y_fs y' = y_fs y \<and> y_waiting y' = y_waiting y \<and> y_flushed y' = y_flushed y \<and> y_sent y' = y_sent y \<and> y_finished y' = y_finished y"
    by auto
  with step show ?case
    by (intro exI [of _ y']) (auto simp: assign_channel intro: converse_rtranclp_into_rtranclp)
qed

lemma finish_run:
  assumes "(k, rc) \<in> set (y_waiting y)" and v: "map_of (rcd_activeScopes (y_rec y)) k = Some v"
    and live: "rcd_collecting (y_rec y)" and inv: "rec_inv y"
  defines "es \<equiv> sc_effects v @ filter (\<lambda>e. pick (y_rec y) e = Some k) (rcd_sideEffectCh (y_rec y))"
  shows "\<exists>y'. rec_run json st y y' \<and> y_sent y' = y_sent y \<and> y_finished y' = y_finished y @ [(k, v\<lparr>sc_effects := es\<rparr>)]
     \<and> y_fs y' = fst (AppendRecord json st (y_fs y) (rcd_sessionID (y_rec y))
         ((with_effects rc es)\<lparr>rec_SessionID := rcd_sessionID (y_rec y)\<rparr>))"
proof -
  let ?ch = "rcd_sideEffectCh (y_rec y)"
  obtain y1 where run: "rec_run json st y y1" and y1: "y_rec y1 = drain_loop ?ch ((y_rec y)\<lparr>rcd_sideEffectCh := []\<rparr>)"
    "y_fs y1 = y_fs y" "y_waiting y1 = y_waiting y" "y_sent y1 = y_sent y" "y_finished y1 = y_finished y"
    using drain_run [OF live refl, of json st] by blast
  have "pick ((y_rec y)\<lparr>rcd_sideEffectCh := []\<rparr>) e = pick (y_rec y) e" for e by (rule pick_windows) (simp add: windows_def)
  then have scope: "map_of (rcd_activeScopes (y_rec y1)) k = Some (v\<lparr>sc_effects := es\<rparr>)"
    using drain_loop_scope [of "(y_rec y)\<lparr>rcd_sideEffectCh := []\<rparr>" k v ?ch] v inv
    by (simp add: y1(1) es_def rec_inv_def scopes_wf_def)
  obtain ws ws' where ws: "y_waiting y1 = ws @ (k, rc) # ws'" using assms(1) split_list y1(3) by metis
  define y2 where "y2 = y1\<lparr>y_waiting := ws @ ws', y_flushed := y_flushed y1 @ [(k, rc)]\<rparr>"
  have step2: "rec_step json st y1 y2"
    unfolding y2_def using ws by (rule rec_step.Flushed) (use live y1 in simp)
  obtain r rc' where take: "take_scope (y_rec y2) k rc = Some (r, rc')"
    and r: "rcd_sessionID r = rcd_sessionID (y_rec y)" "rc' = with_effects rc es"
    using scope y1(1) by (simp add: y2_def take_scope_def with_effects_def)
  obtain fs' r' rc'' e where p: "persistRecord json st (y_fs y2) r rc' = (fs', r', rc'', e)" by (metis prod_cases4)
  have fs': "fs' = fst (AppendRecord json st (y_fs y) (rcd_sessionID (y_rec y)) ((with_effects rc es)\<lparr>rec_SessionID := rcd_sessionID (y_rec y)\<rparr>))"
    using p r y1(2) by (auto simp: persistRecord_def Let_def y2_def split: prod.splits option.splits)
  have "y_flushed y2 = y_flushed y1 @ (k, rc) # []" by (simp add: y2_def)
  from rec_step.Finish [OF this _ take p, of "v\<lparr>sc_effects := es\<rparr>"] scope
  have step3: "rec_step json st y2 (y2\<lparr>y_rec := r', y_fs := fs', y_flushed := y_flushed y1 @ [],
      y_finished := y_finished y2 @ [(k, v\<lparr>sc_effects := es\<rparr>)]\<rparr>)" (is "rec_step _ _ _ ?y3")
    by (simp add: y2_def)
  have "rec_run json st y ?y3" using run step2 step3 by (meson rtranclp.rtrancl_into_rtrancl)
  then show ?thesis using y1 fs' by (intro exI [of _ ?y3]) (simp add: y2_def)
qed

section \<open>Properties\<close>

text \<open>
  An effect is attributed to the scope that was opened last among those whose window covers
  its time, the higher id deciding between scopes opened at the same time; it is an orphan exactly
  when no window covers it. The order in which the map of scopes is visited does not matter.
\<close>

theorem findScopeForEffect_latest:
  assumes "go_map (rcd_activeScopes r)"
  shows "(findScopeForEffect r t = Some x \<longleftrightarrow>
       x \<in> set (rcd_activeScopes r) \<and> covers t (snd x) \<and> (\<forall>y\<in>set (rcd_activeScopes r). covers t (snd y) \<longrightarrow> no_newer y x))
     \<and> (findScopeForEffect r t = None \<longleftrightarrow> (\<forall>y\<in>set (rcd_activeScopes r). \<not> covers t (snd y)))"
  using findScopeForEffect_Some [OF assms] findScopeForEffect_None by blast

text \<open>
  C29. Finishing an active scope appends exactly one record to the session: the given one with the
  session id, a time of recording if it had none, and as side effects those already attributed to
  the scope followed by those still in the channel that belong to it, in the order they were sent.
  The channel is empty afterwards, the scope is gone, and the windows of the others are unchanged.
\<close>

theorem FinishRequestScope_record:
  assumes "go_map (rcd_activeScopes r)" and "map_of (rcd_activeScopes r) k = Some scope" and "\<not> rcd_done r"
    and rc': "rc' = stamp_recorded now rc" and rcl: "rcl = closed_at k (rec_RecordedAt rc') scope r"
    and final: "final = (with_effects rc' (sc_effects scope @ filter (\<lambda>e. pick rcl e = Some k) (rcd_sideEffectCh r)))\<lparr>rec_SessionID := rcd_sessionID r\<rparr>"
    and "records_inv st (rcd_sessionID r) ''records.jsonl'' fs" and "record_ok json final"
  shows "\<exists>fs' r'. FinishRequestScope json st now fs r k rc = (fs', r', final, None)
     \<and> ListRecords json st fs' (rcd_sessionID r) = (fst (ListRecords json st fs (rcd_sessionID r)) @ [final], None)
     \<and> rcd_count r' = rcd_count r + 1 \<and> rcd_sideEffectCh r' = []
     \<and> map_of (rcd_activeScopes r') k = None \<and> windows r' = filter (\<lambda>w. fst w \<noteq> k) (windows rcl)"
proof -
  obtain r3 where fin: "FinishRequestScope json st now fs r k rc
       = persistRecord json st fs r3 (with_effects rc' (sc_effects scope @ filter (\<lambda>e. pick rcl e = Some k) (rcd_sideEffectCh r)))"
    and r3: "rcd_sessionID r3 = rcd_sessionID r" "rcd_count r3 = rcd_count r" "rcd_sideEffectCh r3 = []"
      "windows r3 = filter (\<lambda>w. fst w \<noteq> k) (windows rcl)"
    using FinishRequestScope_effects [OF assms(1-3), of json st now fs rc] unfolding rc' rcl by blast
  obtain fs' where fs': "AppendRecord json st fs (rcd_sessionID r) final = (fs', None)"
    "ListRecords json st fs' (rcd_sessionID r) = (fst (ListRecords json st fs (rcd_sessionID r)) @ [final], None)"
    using AppendRecord_one [OF assms(7,8)] .
  have "k \<notin> fst ` set (windows r3)" using r3(4) by auto
  then have "map_of (rcd_activeScopes r3) k = None"
    by (force simp: windows_def window_def map_of_eq_None_iff image_image)
  with fin r3 fs' final show ?thesis by (simp add: persistRecord_def windows_def)
qed

text \<open>
  C30. However requests, hooks, the collector and \<^verbatim>\<open>Stop\<close> interleave: every effect that was sent is in
  exactly one place, the channel, an active scope, a finished scope or the dropped ones; every
  attributed effect is no older than its scope; no scope is finished twice, and the channel never
  holds more than its capacity.
\<close>

theorem effects_conserved:
  assumes "rec_run json st (rec_init sid fs) y"
  shows "mset (y_sent y) = mset (rcd_sideEffectCh (y_rec y)) + scope_effects (rcd_activeScopes (y_rec y))
         + scope_effects (y_finished y) + mset (y_dropped y)
     \<and> list_all in_window (rcd_activeScopes (y_rec y) @ y_finished y)
     \<and> distinct (map fst (y_finished y)) \<and> length (rcd_sideEffectCh (y_rec y)) \<le> sideEffectCap"
  using rec_inv_run [OF assms rec_inv_init] by (simp add: rec_inv_def)


section \<open>Instances\<close>

definition demo_effect :: SideEffect where
  "demo_effect = NewSQLSideEffect ''mysql'' ''SELECT 1'' 7"

definition demo_recorder :: Recorder where
  "demo_recorder =
     (fst (BeginRequestScope (NewRecorder ''s1'') 5))\<lparr>rcd_sideEffectCh := [demo_effect]\<rparr>"

definition demo_rec :: Record where
  "demo_rec = demo_record\<lparr>rec_RecordedAt := 9\<rparr>"

text \<open>A codec that keeps the effects of a record: its line is the number of its effects.\<close>

definition demo_final :: Record where
  "demo_final = demo_rec\<lparr>rec_SessionID := ''s1'', rec_SideEffects := [demo_effect]\<rparr>"

definition demo_rec_json :: json_codec where
  "demo_rec_json = demo_json\<lparr>marshalRecord := \<lambda>r. Some ''r'', unmarshalRecord := \<lambda>d. Some demo_final\<rparr>"

theorem findScopeForEffect_latest_witness:
  "findScopeForEffect demo_recorder 7 = Some (1, \<lparr>sc_startedAt = 5, sc_closedAt = 0, sc_effects = []\<rparr>)"
  using findScopeForEffect_latest [of demo_recorder 7 "(1, \<lparr>sc_startedAt = 5, sc_closedAt = 0, sc_effects = []\<rparr>)"]
  by (simp add: demo_recorder_def BeginRequestScope_def NewRecorder_def covers_def)

theorem FinishRequestScope_record_witness:
  "\<exists>fs' r'. FinishRequestScope demo_rec_json demo_store 8 demo_fs demo_recorder 1 demo_rec = (fs', r', demo_final, None) \<and> rcd_count r' = 1"
proof -
  have "\<exists>fs' r'. FinishRequestScope demo_rec_json demo_store 8 demo_fs demo_recorder 1 demo_rec = (fs', r', demo_final, None)
     \<and> ListRecords demo_rec_json demo_store fs' (rcd_sessionID demo_recorder)
         = (fst (ListRecords demo_rec_json demo_store demo_fs (rcd_sessionID demo_recorder)) @ [demo_final], None)
     \<and> rcd_count r' = rcd_count demo_recorder + 1 \<and> rcd_sideEffectCh r' = []
     \<and> map_of (rcd_activeScopes r') 1 = None
     \<and> windows r' = filter (\<lambda>w. fst w \<noteq> 1) (windows (closed_at 1 9 \<lparr>sc_startedAt = 5, sc_closedAt = 0, sc_effects = []\<rparr> demo_recorder))"
  proof (rule FinishRequestScope_record [where rc' = demo_rec and scope = "\<lparr>sc_startedAt = 5, sc_closedAt = 0, sc_effects = []\<rparr>"
        and rcl = "closed_at 1 9 \<lparr>sc_startedAt = 5, sc_closedAt = 0, sc_effects = []\<rparr> demo_recorder"])
    show "records_inv demo_store (rcd_sessionID demo_recorder) ''records.jsonl'' demo_fs"
      using demo_records_inv by (simp add: demo_recorder_def BeginRequestScope_def NewRecorder_def)
    show "record_ok demo_rec_json demo_final"
      by (simp add: record_ok_def demo_rec_json_def dropCR_def scan_limit_def)
  qed (simp_all add: demo_recorder_def BeginRequestScope_def NewRecorder_def demo_final_def demo_rec_def stamp_recorded_def
      with_effects_def pick_def findScopeForEffect_def closed_at_def demo_effect_def NewSQLSideEffect_def demo_record_def)
  then show ?thesis by (auto simp: demo_recorder_def BeginRequestScope_def NewRecorder_def)
qed

text \<open>A scope is opened, an effect is sent, and the scope is closed.\<close>

definition demo_sys :: rsys where
  "demo_sys = (rec_init ''s1'' demo_fs)\<lparr>
     y_rec := closed_at 1 9 \<lparr>sc_startedAt = 5, sc_closedAt = 0, sc_effects = []\<rparr> demo_recorder,
     y_sent := [demo_effect], y_waiting := [(1, demo_rec)]\<rparr>"

lemma demo_run: "rec_run demo_json demo_store (rec_init ''s1'' demo_fs) demo_sys"
proof -
  let ?y0 = "rec_init ''s1'' demo_fs"
  let ?y1 = "?y0\<lparr>y_rec := fst (BeginRequestScope (y_rec ?y0) 5)\<rparr>"
  let ?y2 = "?y1\<lparr>y_rec := (y_rec ?y1)\<lparr>rcd_sideEffectCh := rcd_sideEffectCh (y_rec ?y1) @ [demo_effect]\<rparr>,
      y_sent := y_sent ?y1 @ [demo_effect]\<rparr>"
  have 1: "rec_step demo_json demo_store ?y0 ?y1" by (rule rec_step.Begin)
  have 2: "rec_step demo_json demo_store ?y1 ?y2"
    by (rule rec_step.Send) (simp add: rec_init_def NewRecorder_def BeginRequestScope_def sideEffectCap_def)
  have r2: "y_rec ?y2 = demo_recorder" by (simp add: rec_init_def demo_recorder_def NewRecorder_def BeginRequestScope_def)
  have "close_scope (y_rec ?y2) 1 (rec_RecordedAt demo_rec) = Some (closed_at 1 9 \<lparr>sc_startedAt = 5, sc_closedAt = 0, sc_effects = []\<rparr> demo_recorder)"
    unfolding r2 by (simp add: demo_recorder_def NewRecorder_def BeginRequestScope_def close_scope_def closed_at_def demo_rec_def)
  from rec_step.Close [OF this, of demo_json demo_store]
  have 3: "rec_step demo_json demo_store ?y2 demo_sys" by (simp add: demo_sys_def rec_init_def)
  from 1 2 3 show ?thesis by (meson rtranclp.rtrancl_into_rtrancl rtranclp.rtrancl_refl)
qed

theorem effects_conserved_witness:
  "mset [demo_effect] = mset (rcd_sideEffectCh (y_rec demo_sys)) + scope_effects (rcd_activeScopes (y_rec demo_sys))"
  using effects_conserved [OF demo_run] by (simp add: demo_sys_def rec_init_def)


end
