(* ===== verification/Capture_Proxy.thy ===== *)
theory Capture_Proxy
  imports Recorder
begin

text \<open>
  The capturing reverse proxy (\<^verbatim>\<open>internal/capture/proxy.go\<close>): the snapshot of a request body with
  its temporary file, the response writer that keeps a copy, and the handler as a whole, on the
  recorder and the store. What the reverse proxy of the standard library does with the target is a
  parameter: the calls it makes on the response writer, and whether it ends by a panic.
\<close>

section \<open>Temporary files\<close>

text \<open>
  The directory of temporary files is a map from names to contents. Whether creating, writing (at
  an offset) and closing a file succeed is given.
\<close>

record disk =
  dk_create :: bool
  dk_write :: "nat \<Rightarrow> bool"
  dk_close :: bool

type_synonym tmpdir = "(string, bytes) gomap"

datatype capture_error = ReadFailed | CreateFailed | WriteFailed | CloseFailed | OpenFailed

definition remove_tmp :: "string \<Rightarrow> tmpdir \<Rightarrow> tmpdir" where
  "remove_tmp name tmp = filter (\<lambda>e. fst e \<noteq> name) tmp"

text \<open>A write at the end of an open file; a file that fails may hold anything, here its old contents.\<close>

definition write_tmp :: "disk \<Rightarrow> tmpdir \<Rightarrow> string \<Rightarrow> bytes \<Rightarrow> tmpdir option" where
  "write_tmp disk tmp name data =
     (let old = (case map_of tmp name of Some d \<Rightarrow> d | None \<Rightarrow> [])
      in if dk_write disk (length old) then Some (put name (old @ data) tmp) else None)"

section \<open>The snapshot of a request body\<close>

definition requestBodySpillThreshold :: nat where
  "requestBodySpillThreshold = 1024 * 1024"

record requestBodyCapture =
  cap_preview :: bytes
  cap_buffer :: bytes
  cap_tempFile :: "string option"
  cap_tempPath :: "string option"
  cap_bodyLen :: int
  cap_maxPreviewSize :: int

definition capture_chunk :: "requestBodyCapture \<Rightarrow> bytes \<Rightarrow> requestBodyCapture" where
  "capture_chunk c chunk =
     (if cap_maxPreviewSize c = 0 then c
      else let remaining = cap_maxPreviewSize c - int (length (cap_preview c))
           in if remaining \<le> 0 then c
              else let remaining = (if remaining > int (length chunk) then int (length chunk) else remaining)
                   in c\<lparr>cap_preview := cap_preview c @ take (nat remaining) chunk\<rparr>)"

definition writeChunk ::
  "disk \<Rightarrow> string \<Rightarrow> tmpdir \<Rightarrow> requestBodyCapture \<Rightarrow> bytes \<Rightarrow> tmpdir \<times> requestBodyCapture \<times> capture_error option" where
  "writeChunk disk name tmp c chunk =
     (let c = capture_chunk (c\<lparr>cap_bodyLen := cap_bodyLen c + int (length chunk)\<rparr>) chunk
      in case cap_tempFile c of
           Some f \<Rightarrow>
             (case write_tmp disk tmp f chunk of
                None \<Rightarrow> (tmp, c, Some WriteFailed)
              | Some tmp' \<Rightarrow> (tmp', c, None))
         | None \<Rightarrow>
             if length (cap_buffer c) + length chunk \<le> requestBodySpillThreshold
             then (tmp, c\<lparr>cap_buffer := cap_buffer c @ chunk\<rparr>, None)
             else if \<not> dk_create disk then (tmp, c, Some CreateFailed)
             else let tmp1 = put name [] tmp
                  in case write_tmp disk tmp1 name (cap_buffer c) of
                       None \<Rightarrow> (remove_tmp name tmp1, c, Some WriteFailed)
                     | Some tmp2 \<Rightarrow>
                         let c = c\<lparr>cap_buffer := []\<rparr>
                         in case write_tmp disk tmp2 name chunk of
                              None \<Rightarrow> (remove_tmp name tmp2, c, Some WriteFailed)
                            | Some tmp3 \<Rightarrow> (tmp3, c\<lparr>cap_tempFile := Some name\<rparr>, None))"

definition closeTempFile ::
  "disk \<Rightarrow> tmpdir \<Rightarrow> requestBodyCapture \<Rightarrow> tmpdir \<times> requestBodyCapture \<times> capture_error option" where
  "closeTempFile disk tmp c =
     (case cap_tempFile c of
        None \<Rightarrow> (tmp, c, None)
      | Some f \<Rightarrow>
          if \<not> dk_close disk then (remove_tmp f tmp, c\<lparr>cap_tempPath := None, cap_tempFile := None\<rparr>, Some CloseFailed)
          else (tmp, c\<lparr>cap_tempPath := Some f, cap_tempFile := None\<rparr>, None))"

definition Cleanup :: "tmpdir \<Rightarrow> requestBodyCapture \<Rightarrow> tmpdir \<times> requestBodyCapture" where
  "Cleanup tmp c =
     (let c = c\<lparr>cap_tempFile := None\<rparr>
      in case cap_tempPath c of
           None \<Rightarrow> (tmp, c)
         | Some f \<Rightarrow> (remove_tmp f tmp, c\<lparr>cap_tempPath := None\<rparr>))"

text \<open>
  The chunks that reading the body delivers, in order, and whether it ends at the end of the body
  rather than by an error.
\<close>

type_synonym body_reads = "bytes list \<times> bool"

fun read_chunks ::
  "disk \<Rightarrow> string \<Rightarrow> tmpdir \<Rightarrow> requestBodyCapture \<Rightarrow> bytes list \<Rightarrow> tmpdir \<times> requestBodyCapture \<times> capture_error option" where
  "read_chunks disk name tmp c [] = (tmp, c, None)"
| "read_chunks disk name tmp c (chunk # chunks) =
     (case (if chunk \<noteq> [] then writeChunk disk name tmp c chunk else (tmp, c, None)) of
        (tmp', c', Some e) \<Rightarrow> (tmp', c', Some e)
      | (tmp', c', None) \<Rightarrow> read_chunks disk name tmp' c' chunks)"

definition captureRequestBodySnapshot ::
  "disk \<Rightarrow> string \<Rightarrow> tmpdir \<Rightarrow> body_reads \<Rightarrow> int \<Rightarrow> tmpdir \<times> (capture_error + requestBodyCapture)" where
  "captureRequestBodySnapshot disk name tmp body maxPreviewSize =
     (let c = \<lparr>cap_preview = [], cap_buffer = [], cap_tempFile = None, cap_tempPath = None, cap_bodyLen = 0,
               cap_maxPreviewSize = maxPreviewSize\<rparr>
      in case read_chunks disk name tmp c (fst body) of
           (tmp', c', Some e) \<Rightarrow> (fst (Cleanup tmp' c'), Inl e)
         | (tmp', c', None) \<Rightarrow>
             if \<not> snd body then (fst (Cleanup tmp' c'), Inl ReadFailed)
             else case closeTempFile disk tmp' c' of
                    (tmp'', c'', Some e) \<Rightarrow> (fst (Cleanup tmp'' c''), Inl e)
                  | (tmp'', c'', None) \<Rightarrow> (tmp'', Inr c''))"

definition NeedsArtifact :: "requestBodyCapture \<Rightarrow> bool" where
  "NeedsArtifact c = (cap_bodyLen c > int (length (cap_preview c)))"

definition cap_Reader :: "tmpdir \<Rightarrow> requestBodyCapture \<Rightarrow> capture_error + bytes" where
  "cap_Reader tmp c =
     (case cap_tempPath c of
        Some f \<Rightarrow> (case map_of tmp f of Some data \<Rightarrow> Inr data | None \<Rightarrow> Inl OpenFailed)
      | None \<Rightarrow> Inr (cap_buffer c))"

section \<open>The response writer\<close>

text \<open>A call on a response writer; the wrapped writer gets those that the recorder passes on.\<close>

datatype writer_call = HeaderCall int | BodyCall bytes

record responseRecorder =
  rr_out :: "writer_call list"
  rr_statusCode :: int
  rr_body :: bytes
  rr_bodyLen :: int
  rr_maxBodySize :: int
  rr_wroteHeader :: bool

definition new_responseRecorder :: "int \<Rightarrow> responseRecorder" where
  "new_responseRecorder maxBodySize =
     \<lparr>rr_out = [], rr_statusCode = 200, rr_body = [], rr_bodyLen = 0, rr_maxBodySize = maxBodySize, rr_wroteHeader = False\<rparr>"

definition WriteHeader :: "responseRecorder \<Rightarrow> int \<Rightarrow> responseRecorder" where
  "WriteHeader rr code =
     (if \<not> rr_wroteHeader rr
      then rr\<lparr>rr_statusCode := code, rr_wroteHeader := True, rr_out := rr_out rr @ [HeaderCall code]\<rparr>
      else rr)"

definition rr_Write :: "responseRecorder \<Rightarrow> bytes \<Rightarrow> responseRecorder" where
  "rr_Write rr b =
     (let rr = rr\<lparr>rr_bodyLen := rr_bodyLen rr + int (length b)\<rparr>;
          rr = (if rr_maxBodySize rr > 0 then
                  (let remaining = rr_maxBodySize rr - int (length (rr_body rr))
                   in if remaining > 0 then
                        (let remaining = (if remaining > int (length b) then int (length b) else remaining)
                         in rr\<lparr>rr_body := rr_body rr @ take (nat remaining) b\<rparr>)
                      else rr)
                else rr)
      in rr\<lparr>rr_out := rr_out rr @ [BodyCall b]\<rparr>)"

fun rr_call :: "responseRecorder \<Rightarrow> writer_call \<Rightarrow> responseRecorder" where
  "rr_call rr (HeaderCall code) = WriteHeader rr code"
| "rr_call rr (BodyCall b) = rr_Write rr b"

definition rr_calls :: "responseRecorder \<Rightarrow> writer_call list \<Rightarrow> responseRecorder" where
  "rr_calls rr calls = foldl rr_call rr calls"

section \<open>The proxy\<close>

record URL =
  url_Scheme :: string
  url_Host :: string
  url_Path :: string

record request =
  rq_Method :: string
  rq_URL :: URL
  rq_RawQuery :: string
  rq_Host :: string
  rq_Header :: "(string, string list) gomap"
  rq_Body :: "body_reads option"

record Proxy =
  px_target :: URL
  px_maxBodySize :: int
  px_excludePaths :: "string list"
  px_sequence :: int

text \<open>The target is the result of \<^verbatim>\<open>url.Parse\<close>.\<close>

definition NewProxy :: "URL option \<Rightarrow> int \<Rightarrow> string list \<Rightarrow> Proxy option" where
  "NewProxy target maxBodySize excludePathPrefixes =
     (case target of
        None \<Rightarrow> None
      | Some t \<Rightarrow> Some \<lparr>px_target = t, px_maxBodySize = maxBodySize, px_excludePaths = excludePathPrefixes, px_sequence = 0\<rparr>)"

definition director :: "Proxy \<Rightarrow> request \<Rightarrow> request" where
  "director p req =
     req\<lparr>rq_URL := (rq_URL req)\<lparr>url_Scheme := url_Scheme (px_target p), url_Host := url_Host (px_target p)\<rparr>,
         rq_Host := url_Host (px_target p)\<rparr>"

definition cloneHeaders :: "(string, string list) gomap \<Rightarrow> (string, string list) gomap" where
  "cloneHeaders h = map (\<lambda>(k, v). (k, v)) h"

fun shouldSkip_loop :: "string list \<Rightarrow> string \<Rightarrow> bool" where
  "shouldSkip_loop [] path = False"
| "shouldSkip_loop (p # ps) path =
     (if p \<noteq> '''' \<and> HasPrefix path p then True else shouldSkip_loop ps path)"

definition shouldSkip :: "Proxy \<Rightarrow> string \<Rightarrow> bool" where
  "shouldSkip p path = shouldSkip_loop (px_excludePaths p) path"

text \<open>
  What a request meets: the clock at its start, its duration and the clock at its end, the text of
  a fresh UUID, the name that a temporary file would get, the disk, the answer of the reverse proxy
  to the request it sends on (its calls on the response writer, and whether it then panics, as it
  does when the copy of the answer breaks off), the headers of the answer, and the side effects that
  reach the channel of the recorder before the scope is finished.
\<close>

record world =
  w_start :: int
  w_duration :: int
  w_end :: int
  w_uuid :: string
  w_tmpname :: string
  w_disk :: disk
  w_upstream :: "request \<Rightarrow> bytes \<Rightarrow> writer_call list \<times> bool"
  w_header :: "(string, string list) gomap"
  w_arrivals :: "SideEffect list"

record pstate =
  ps_proxy :: Proxy
  ps_recorder :: Recorder
  ps_fs :: fs
  ps_tmp :: tmpdir

text \<open>The calls of \<^verbatim>\<open>http.Error\<close>.\<close>

definition http_error :: "string \<Rightarrow> int \<Rightarrow> writer_call list" where
  "http_error msg code = [HeaderCall code, BodyCall (msg @ [CHR 0x0A])]"

text \<open>From the opening of the scope to the record; the request body and its reference are given.\<close>

definition serve_scope ::
  "json_codec \<Rightarrow> FileStore \<Rightarrow> world \<Rightarrow> pstate \<Rightarrow> request \<Rightarrow> bytes \<Rightarrow> bytes \<Rightarrow> int \<Rightarrow> string \<Rightarrow> pstate \<times> writer_call list \<times> bool" where
  "serve_scope json st w ps req sent reqBody reqBodyLen reqBodyRef =
     (let (r1, scopeID) = BeginRequestScope (ps_recorder ps) (w_start w);
          httpReq = \<lparr>req_Method = rq_Method req, req_Path = url_Path (rq_URL req), req_Query = rq_RawQuery req,
                     req_Headers = cloneHeaders (rq_Header req), req_Body = reqBody, req_BodyRef = reqBodyRef,
                     req_BodyLen = reqBodyLen\<rparr>;
          (calls, panics) = w_upstream w (director (ps_proxy ps) req) sent;
          rr = rr_calls (new_responseRecorder (px_maxBodySize (ps_proxy ps))) calls;
          r2 = r1\<lparr>rcd_sideEffectCh := rcd_sideEffectCh r1 @ w_arrivals w\<rparr>
      in if panics then (ps\<lparr>ps_recorder := r2\<rparr>, rr_out rr, False)
         else let httpResp = \<lparr>resp_StatusCode = rr_statusCode rr, resp_Headers = cloneHeaders (w_header w),
                              resp_Body = rr_body rr, resp_BodyLen = rr_bodyLen rr\<rparr>;
                  record = \<lparr>rec_ID = take 8 (w_uuid w), rec_SessionID = '''', rec_Sequence = px_sequence (ps_proxy ps),
                            rec_Request = httpReq, rec_Response = httpResp, rec_SideEffects = [],
                            rec_Duration = w_duration w, rec_RecordedAt = w_end w, rec_Error = ''''\<rparr>;
                  (fs', r3, record', e) = FinishRequestScope json st (w_end w) (ps_fs ps) r2 scopeID record
              in (ps\<lparr>ps_recorder := r3, ps_fs := fs'\<rparr>, rr_out rr, True))"

text \<open>
  The handler: the state afterwards, the calls on the writer of the client, and whether it returns
  (rather than panics).
\<close>

definition ServeHTTP ::
  "json_codec \<Rightarrow> FileStore \<Rightarrow> world \<Rightarrow> pstate \<Rightarrow> request \<Rightarrow> pstate \<times> writer_call list \<times> bool" where
  "ServeHTTP json st w ps req =
     (if shouldSkip (ps_proxy ps) (url_Path (rq_URL req)) then
        (let (calls, panics) =
           w_upstream w (director (ps_proxy ps) req) (case rq_Body req of Some b \<Rightarrow> concat (fst b) | None \<Rightarrow> [])
         in (ps, calls, \<not> panics))
      else
        let ps = ps\<lparr>ps_proxy := (ps_proxy ps)\<lparr>px_sequence := px_sequence (ps_proxy ps) + 1\<rparr>\<rparr>;
            recordID = take 8 (w_uuid w)
        in case rq_Body req of
             None \<Rightarrow> serve_scope json st w ps req [] [] 0 ''''
           | Some body \<Rightarrow>
               (case captureRequestBodySnapshot (w_disk w) (w_tmpname w) (ps_tmp ps) body (px_maxBodySize (ps_proxy ps)) of
                  (tmp, Inl e) \<Rightarrow> (ps\<lparr>ps_tmp := tmp\<rparr>, http_error ''failed to read request body'' 400, True)
                | (tmp, Inr snapshot) \<Rightarrow>
                    (case cap_Reader tmp snapshot of
                       Inl e \<Rightarrow> (ps\<lparr>ps_tmp := fst (Cleanup tmp snapshot)\<rparr>, http_error ''failed to proxy request body'' 500, True)
                     | Inr sent \<Rightarrow>
                         (let (fs', reqBodyRef) =
                                (if NeedsArtifact snapshot then
                                   (case SaveRequestBodyArtifact st (ps_fs ps) (rcd_sessionID (ps_recorder ps)) recordID (sent, True) of
                                      (fs', Inl e) \<Rightarrow> (fs', '''')
                                    | (fs', Inr ref) \<Rightarrow> (fs', ref))
                                 else (ps_fs ps, ''''));
                              (ps', calls, returns) =
                                serve_scope json st w (ps\<lparr>ps_fs := fs'\<rparr>) req sent (cap_preview snapshot) (cap_bodyLen snapshot) reqBodyRef
                          in (ps'\<lparr>ps_tmp := fst (Cleanup tmp snapshot)\<rparr>, calls, returns)))))"

section \<open>Snapshots\<close>

definition good_disk :: "disk \<Rightarrow> bool" where
  "good_disk disk \<longleftrightarrow> dk_create disk \<and> (\<forall>n. dk_write disk n) \<and> dk_close disk"

text \<open>A snapshot in the making: what has been read so far, and where it is.\<close>

definition snapshot_inv :: "string \<Rightarrow> tmpdir \<Rightarrow> int \<Rightarrow> tmpdir \<Rightarrow> requestBodyCapture \<Rightarrow> bytes \<Rightarrow> bool" where
  "snapshot_inv name tmp0 m tmp c data \<longleftrightarrow>
     cap_preview c = take (nat m) data \<and> cap_maxPreviewSize c = m \<and> cap_bodyLen c = int (length data) \<and> cap_tempPath c = None
     \<and> (if length data \<le> requestBodySpillThreshold then cap_tempFile c = None \<and> cap_buffer c = data \<and> tmp = tmp0
        else cap_tempFile c = Some name \<and> cap_buffer c = [] \<and> map_of tmp name = Some data \<and> remove_tmp name tmp = tmp0)"

lemma remove_tmp_new: "name \<notin> fst ` set tmp \<Longrightarrow> remove_tmp name tmp = tmp"
  by (auto simp: remove_tmp_def filter_id_conv)

lemma remove_tmp_put [simp]: "remove_tmp name (put name d tmp) = remove_tmp name tmp"
  by (induction name d tmp rule: put.induct) (simp_all add: remove_tmp_def)

lemma capture_chunk_preview:
  assumes "cap_preview c = take (nat m) data" "cap_maxPreviewSize c = m"
  shows "capture_chunk c chunk = c\<lparr>cap_preview := take (nat m) (data @ chunk)\<rparr>"
proof -
  have *: "nat m - length data = nat (m - int (length data))" by arith
  show ?thesis
    using assms by (auto simp: capture_chunk_def Let_def min_def nat_le_iff * intro!: requestBodyCapture.equality)
qed

lemma writeChunk_good:
  assumes disk: "good_disk disk" and fresh: "name \<notin> fst ` set tmp0" and inv: "snapshot_inv name tmp0 m tmp c data"
    and chunk: "chunk \<noteq> []"
  shows "\<exists>tmp' c'. writeChunk disk name tmp c chunk = (tmp', c', None) \<and> snapshot_inv name tmp0 m tmp' c' (data @ chunk)"
proof -
  let ?c = "c\<lparr>cap_bodyLen := cap_bodyLen c + int (length chunk)\<rparr>"
  have cc: "capture_chunk ?c chunk = ?c\<lparr>cap_preview := take (nat m) (data @ chunk)\<rparr>"
    by (rule capture_chunk_preview) (use inv in \<open>simp_all add: snapshot_inv_def\<close>)
  have split: "writeChunk disk name tmp c chunk = (let c = ?c\<lparr>cap_preview := take (nat m) (data @ chunk)\<rparr>
      in case cap_tempFile c of
           Some f \<Rightarrow> (case write_tmp disk tmp f chunk of None \<Rightarrow> (tmp, c, Some WriteFailed) | Some tmp' \<Rightarrow> (tmp', c, None))
         | None \<Rightarrow>
             if length (cap_buffer c) + length chunk \<le> requestBodySpillThreshold
             then (tmp, c\<lparr>cap_buffer := cap_buffer c @ chunk\<rparr>, None)
             else if \<not> dk_create disk then (tmp, c, Some CreateFailed)
             else let tmp1 = put name [] tmp
                  in case write_tmp disk tmp1 name (cap_buffer c) of
                       None \<Rightarrow> (remove_tmp name tmp1, c, Some WriteFailed)
                     | Some tmp2 \<Rightarrow>
                         let c = c\<lparr>cap_buffer := []\<rparr>
                         in case write_tmp disk tmp2 name chunk of
                              None \<Rightarrow> (remove_tmp name tmp2, c, Some WriteFailed)
                            | Some tmp3 \<Rightarrow> (tmp3, c\<lparr>cap_tempFile := Some name\<rparr>, None))"
    unfolding writeChunk_def cc Let_def by (rule refl)
  note defs = split Let_def snapshot_inv_def write_tmp_def
  show ?thesis
  proof (cases "length data \<le> requestBodySpillThreshold")
    case True
    with inv have c: "cap_tempFile c = None" "cap_buffer c = data" "tmp0 = tmp" by (simp_all add: snapshot_inv_def)
    show ?thesis
    proof (cases "length data + length chunk \<le> requestBodySpillThreshold")
      case True
      with disk c inv show ?thesis by (simp add: defs good_disk_def)
    next
      case False
      with disk c inv remove_tmp_new [OF fresh] show ?thesis by (simp add: defs good_disk_def)
    qed
  next
    case False
    with inv have "cap_tempFile c = Some name" "map_of tmp name = Some data" by (simp_all add: snapshot_inv_def)
    with disk inv False show ?thesis by (simp add: defs good_disk_def)
  qed
qed

lemma read_chunks_good:
  "good_disk disk \<Longrightarrow> name \<notin> fst ` set tmp0 \<Longrightarrow> snapshot_inv name tmp0 m tmp c data \<Longrightarrow>
   \<exists>tmp' c'. read_chunks disk name tmp c chunks = (tmp', c', None) \<and> snapshot_inv name tmp0 m tmp' c' (data @ concat chunks)"
proof (induction chunks arbitrary: tmp c data)
  case (Cons chunk chunks)
  show ?case
  proof (cases "chunk = []")
    case False
    from writeChunk_good [OF Cons.prems False] obtain tmp' c'
      where w: "writeChunk disk name tmp c chunk = (tmp', c', None)" "snapshot_inv name tmp0 m tmp' c' (data @ chunk)" by blast
    from Cons.IH [OF Cons.prems(1,2) w(2)] w(1) False show ?thesis by simp
  qed (use Cons in simp)
qed simp

lemma snapshot_inv_init:
  "snapshot_inv name tmp m tmp \<lparr>cap_preview = [], cap_buffer = [], cap_tempFile = None, cap_tempPath = None, cap_bodyLen = 0,
     cap_maxPreviewSize = m\<rparr> []"
  by (simp add: snapshot_inv_def)

lemma snapshot_good:
  assumes disk: "good_disk disk" and fresh: "name \<notin> fst ` set tmp" and eof: "snd body"
  defines "data \<equiv> concat (fst body)"
  shows "\<exists>tmp' c. captureRequestBodySnapshot disk name tmp body m = (tmp', Inr c)
     \<and> cap_preview c = take (nat m) data \<and> cap_bodyLen c = int (length data) \<and> cap_Reader tmp' c = Inr data
     \<and> (NeedsArtifact c \<longleftrightarrow> nat m < length data) \<and> fst (Cleanup tmp' c) = tmp"
proof -
  from read_chunks_good [OF disk fresh snapshot_inv_init, of m "fst body"] obtain tmp' c'
    where r: "read_chunks disk name tmp \<lparr>cap_preview = [], cap_buffer = [], cap_tempFile = None, cap_tempPath = None, cap_bodyLen = 0,
        cap_maxPreviewSize = m\<rparr> (fst body) = (tmp', c', None)" and inv: "snapshot_inv name tmp m tmp' c' data"
    by (auto simp: data_def)
  have need: "NeedsArtifact (c'\<lparr>cap_tempPath := p, cap_tempFile := f\<rparr>) \<longleftrightarrow> nat m < length data" for p f
    using inv by (auto simp: NeedsArtifact_def snapshot_inv_def min_def)
  show ?thesis
  proof (cases "length data \<le> requestBodySpillThreshold")
    case True
    with inv have "cap_tempFile c' = None" "cap_tempPath c' = None" by (simp_all add: snapshot_inv_def)
    moreover from this have "c'\<lparr>cap_tempPath := None, cap_tempFile := None\<rparr> = c'" by simp
    moreover have "NeedsArtifact c' \<longleftrightarrow> nat m < length data"
      using inv by (auto simp: NeedsArtifact_def snapshot_inv_def min_def)
    ultimately show ?thesis using r eof inv True
      by (simp add: captureRequestBodySnapshot_def closeTempFile_def snapshot_inv_def cap_Reader_def Cleanup_def)
  next
    case False
    with r eof inv disk need show ?thesis
      by (simp add: captureRequestBodySnapshot_def closeTempFile_def snapshot_inv_def cap_Reader_def Cleanup_def good_disk_def)
  qed
qed

lemma snapshot_read_error:
  assumes disk: "good_disk disk" and fresh: "name \<notin> fst ` set tmp" and err: "\<not> snd body"
  defines "data \<equiv> concat (fst body)"
  shows "\<exists>tmp'. captureRequestBodySnapshot disk name tmp body m = (tmp', Inl ReadFailed)
     \<and> (if length data \<le> requestBodySpillThreshold then tmp' = tmp else map_of tmp' name = Some data)"
proof -
  from read_chunks_good [OF disk fresh snapshot_inv_init, of m "fst body"] obtain tmp' c'
    where r: "read_chunks disk name tmp \<lparr>cap_preview = [], cap_buffer = [], cap_tempFile = None, cap_tempPath = None, cap_bodyLen = 0,
        cap_maxPreviewSize = m\<rparr> (fst body) = (tmp', c', None)" and inv: "snapshot_inv name tmp m tmp' c' data"
    by (auto simp: data_def)
  with err show ?thesis by (auto simp: captureRequestBodySnapshot_def Cleanup_def snapshot_inv_def split: if_splits)
qed

section \<open>The copy of the response\<close>

definition call_bodies :: "writer_call list \<Rightarrow> bytes" where
  "call_bodies calls = concat (map (\<lambda>c. case c of BodyCall b \<Rightarrow> b | HeaderCall _ \<Rightarrow> []) calls)"

definition header_codes :: "writer_call list \<Rightarrow> int list" where
  "header_codes calls = concat (map (\<lambda>c. case c of HeaderCall n \<Rightarrow> [n] | BodyCall _ \<Rightarrow> []) calls)"

text \<open>
  The status that a client of \<^verbatim>\<open>net/http\<close> gets: informational codes are sent on at once and do not
  count, the first other code does, and writing without one stands for 200.
\<close>

fun client_status :: "writer_call list \<Rightarrow> int" where
  "client_status [] = 200"
| "client_status (HeaderCall c # calls) = (if 100 \<le> c \<and> c \<le> 199 \<and> c \<noteq> 101 then client_status calls else c)"
| "client_status (BodyCall b # calls) = 200"

lemma call_lists_Nil [simp]: "call_bodies [] = []" "header_codes [] = []"
  by (simp_all add: call_bodies_def header_codes_def)

lemma rr_Write_body:
  assumes "rr_body rr = take (nat (rr_maxBodySize rr)) data"
  shows "rr_body (rr_Write rr b) = take (nat (rr_maxBodySize rr)) (data @ b)"
proof -
  have *: "nat m - length data = nat (m - int (length data))" for m by arith
  show ?thesis using assms by (auto simp: rr_Write_def Let_def min_def nat_le_iff *)
qed

lemma rr_fixed [simp]:
  "rr_maxBodySize (WriteHeader rr c) = rr_maxBodySize rr" "rr_body (WriteHeader rr c) = rr_body rr"
  "rr_bodyLen (WriteHeader rr c) = rr_bodyLen rr" "rr_maxBodySize (rr_Write rr b) = rr_maxBodySize rr"
  "rr_bodyLen (rr_Write rr b) = rr_bodyLen rr + int (length b)" "rr_statusCode (rr_Write rr b) = rr_statusCode rr"
  "rr_wroteHeader (rr_Write rr b) = rr_wroteHeader rr" "rr_out (rr_Write rr b) = rr_out rr @ [BodyCall b]"
  by (simp_all add: WriteHeader_def rr_Write_def Let_def)

lemma rr_calls_copy:
  "rr_body rr = take (nat (rr_maxBodySize rr)) data \<Longrightarrow> rr_bodyLen rr = int (length data) \<Longrightarrow>
   rr_body (foldl rr_call rr calls) = take (nat (rr_maxBodySize rr)) (data @ call_bodies calls)
   \<and> rr_bodyLen (foldl rr_call rr calls) = int (length (data @ call_bodies calls))
   \<and> call_bodies (rr_out (foldl rr_call rr calls)) = call_bodies (rr_out rr) @ call_bodies calls
   \<and> header_codes (rr_out (foldl rr_call rr calls)) = header_codes (rr_out rr) @ (if rr_wroteHeader rr then [] else take 1 (header_codes calls))
   \<and> rr_statusCode (foldl rr_call rr calls) =
       (if rr_wroteHeader rr then rr_statusCode rr else case header_codes calls of [] \<Rightarrow> rr_statusCode rr | c # _ \<Rightarrow> c)"
proof (induction calls arbitrary: rr data)
  case Nil
  then show ?case by (simp add: call_bodies_def header_codes_def)
next
  case (Cons c calls)
  show ?case
  proof (cases c)
    case (HeaderCall n)
    with Cons.IH [of "WriteHeader rr n" data] Cons.prems show ?thesis
      by (simp add: call_bodies_def header_codes_def WriteHeader_def)
  next
    case (BodyCall b)
    with Cons.IH [of "rr_Write rr b" "data @ b"] Cons.prems rr_Write_body [of rr data b] show ?thesis
      by (simp add: call_bodies_def header_codes_def cong: list.case_cong)
  qed
qed

lemma new_responseRecorder_simps:
  "rr_body (new_responseRecorder m) = []" "rr_bodyLen (new_responseRecorder m) = 0" "rr_out (new_responseRecorder m) = []"
  "rr_statusCode (new_responseRecorder m) = 200" "rr_maxBodySize (new_responseRecorder m) = m" "\<not> rr_wroteHeader (new_responseRecorder m)"
  by (simp_all add: new_responseRecorder_def)

lemma rr_calls_spec:
  "rr_body (rr_calls (new_responseRecorder m) calls) = take (nat m) (call_bodies calls)
   \<and> rr_bodyLen (rr_calls (new_responseRecorder m) calls) = int (length (call_bodies calls))
   \<and> call_bodies (rr_out (rr_calls (new_responseRecorder m) calls)) = call_bodies calls
   \<and> header_codes (rr_out (rr_calls (new_responseRecorder m) calls)) = take 1 (header_codes calls)
   \<and> rr_statusCode (rr_calls (new_responseRecorder m) calls) = (case header_codes calls of [] \<Rightarrow> 200 | c # _ \<Rightarrow> c)"
  using rr_calls_copy [of "new_responseRecorder m" "[]" calls]
  unfolding rr_calls_def by (simp add: new_responseRecorder_simps cong: list.case_cong)

lemma rr_bodies_out:
  "rr_wroteHeader rr \<Longrightarrow> rr_out (foldl rr_call rr (map BodyCall bs)) = rr_out rr @ map BodyCall bs"
  by (induction bs arbitrary: rr) simp_all

section \<open>Request bodies in the store\<close>

definition artifact_path :: "FileStore \<Rightarrow> string \<Rightarrow> string \<Rightarrow> path" where
  "artifact_path st sid rid = store_baseDir st @ [sid, ''artifacts'', ''request-bodies'', rid @ ''.bin'']"

text \<open>Nothing stands in the way of the artifact: no file where a directory is wanted, or the converse.\<close>

definition artifact_free :: "FileStore \<Rightarrow> fs \<Rightarrow> string \<Rightarrow> string \<Rightarrow> bool" where
  "artifact_free st fs sid rid \<longleftrightarrow>
     list_all (\<lambda>q. case map_of fs q of Some (File _) \<Rightarrow> False | _ \<Rightarrow> True) (prefixes (parent (artifact_path st sid rid)))
     \<and> map_of fs (artifact_path st sid rid) \<noteq> Some Dir"

lemma artifact_name:
  assumes "CHR ''/'' \<notin> set rid"
  shows "plain_name (rid @ ''.bin'')" "clean_path [''artifacts'', ''request-bodies'', rid @ ''.bin'']"
proof -
  have "rid @ ''.bin'' \<noteq> ''.''" "rid @ ''.bin'' \<noteq> ''..''" by (auto simp: append_eq_Cons_conv)
  with assms show "plain_name (rid @ ''.bin'')" by (simp add: plain_name_def)
  then show "clean_path [''artifacts'', ''request-bodies'', rid @ ''.bin'']" by (simp add: clean_path_def plain_name_def)
qed

lemma OpenRequestBodyArtifact_ok:
  assumes "store_inv st fs" "plain_name sid" "CHR ''/'' \<notin> set rid" "map_of fs (artifact_path st sid rid) = Some (File data)"
  shows "OpenRequestBodyArtifact st fs sid (''artifacts/request-bodies/'' @ rid @ ''.bin'') = Inr data"
proof -
  let ?rel = "[''artifacts'', ''request-bodies'', rid @ ''.bin'']"
  note clean = artifact_name(2) [OF assms(3)]
  have "requestBodyArtifactPath st sid (Join ?rel ''/'') = Inr (JoinPath (store_baseDir st) [sid] @ ?rel)"
    by (rule requestBodyArtifactPath_clean [OF clean]) simp
  moreover have "JoinPath (store_baseDir st) [sid] = store_baseDir st @ [sid]" using assms(1,2) by (rule store_path(1))
  ultimately show ?thesis using assms(4)
    by (simp add: OpenRequestBodyArtifact_def ReadFile_def artifact_path_def)
qed

lemma SaveRequestBodyArtifact_ok:
  assumes inv: "records_inv st sid ''records.jsonl'' fs" and rid: "CHR ''/'' \<notin> set rid" and free: "artifact_free st fs sid rid"
  obtains fs' where "SaveRequestBodyArtifact st fs sid rid (data, True) = (fs', Inr (''artifacts/request-bodies/'' @ rid @ ''.bin''))"
    "records_inv st sid ''records.jsonl'' fs'" "map_of fs' (artifact_path st sid rid) = Some (File data)"
    "ListRecords json st fs' sid = ListRecords json st fs sid"
proof -
  let ?base = "store_baseDir st"
  let ?rel = "[''artifacts'', ''request-bodies'', rid @ ''.bin'']"
  let ?p = "artifact_path st sid rid" and ?d = "store_baseDir st @ [sid, ''artifacts'', ''request-bodies'']"
  have st: "store_inv st fs" and sid: "plain_name sid" and dir: "map_of fs (?base @ [sid]) = Some Dir"
    using inv by (simp_all add: records_inv_def)
  note clean = artifact_name(2) [OF rid]
  have rel: "clean_elems False [] ([''artifacts'', ''request-bodies''] @ split_slash (rid @ ''.bin'')) = ?rel"
    using clean_elems_plain [OF clean, of False "[]"] rid by (simp add: split_slash_plain)
  have path: "JoinPath ?base (sid # ?rel) = ?p"
    using JoinPath_below [OF clean, of ?base sid] store_path(1) [OF st sid] by (simp add: artifact_path_def)
  have parent: "parent ?p = ?d" by (simp add: artifact_path_def parent_def butlast_append)
  have "case map_of fs q of Some (File _) \<Rightarrow> False | _ \<Rightarrow> True" if "prefix q ?d" for q
    using free that unfolding artifact_free_def parent list_all_iff by (simp add: in_set_prefixes)
  then have nofile: "map_of fs q \<noteq> Some (File x)" if "prefix q ?d" for q x
    using that by force
  obtain fs1 where mk: "MkdirAll fs [] ?d = Inr fs1"
    using MkdirAll_total [of "[]" ?d fs] nofile by auto
  have fs1: "map_of fs1 q = (if q \<noteq> [] \<and> prefix q ?d then Some Dir else map_of fs q)" for q
    using MkdirAll_map_of [OF mk, of q] by (simp add: strict_prefix_def)
  have w: "WriteFile fs1 ?p data = Inr (put ?p (File data) fs1)"
  proof (rule WriteFile_ok)
    show "map_of fs1 (parent ?p) = Some Dir" unfolding parent by (simp add: fs1)
    show "map_of fs1 ?p \<noteq> Some Dir" using free by (simp add: fs1 artifact_free_def artifact_path_def)
  qed
  let ?fs' = "put ?p (File data) fs1"
  have tree: "tree_ok fs1" using MkdirAll_tree_ok [OF mk] st by (auto simp: store_inv_iff tree_ok_iff)
  have "tree_ok (put (?d @ [rid @ ''.bin'']) (File data) fs1)"
    by (rule tree_ok_put [OF tree]) (use free in \<open>auto simp: fs1 artifact_free_def artifact_path_def\<close>)
  then have tree': "tree_ok ?fs'" by (simp add: artifact_path_def)
  have node: "node_ok ?base q n" if "map_of ?fs' q = Some n" for q n
  proof (cases "q = ?p")
    case True
    with that show ?thesis by (simp add: node_ok_def artifact_path_def)
  next
    case False
    with that have q: "if q \<noteq> [] \<and> prefix q ?d then n = Dir else map_of fs q = Some n" by (auto simp: fs1 split: if_splits)
    show ?thesis
    proof (cases "q \<noteq> [] \<and> prefix q ?d")
      case True
      with q sid show ?thesis
        by (auto simp: node_ok_def prefix_def append_eq_append_conv2 Cons_eq_append_conv append_eq_Cons_conv store_files_def strict_prefix_def)
    next
      case False
      with q st show ?thesis by (auto simp: store_inv_iff)
    qed
  qed
  have base: "map_of ?fs' ?base = Some Dir" "clean_path ?base"
    using st by (auto simp: fs1 artifact_path_def store_inv_iff)
  have st': "store_inv st ?fs'" unfolding store_inv_iff using tree' node base by blast
  have rec: "map_of ?fs' (?base @ [sid, ''records.jsonl'']) = map_of fs (?base @ [sid, ''records.jsonl''])"
    "map_of ?fs' (?base @ [sid]) = Some Dir"
    using dir by (auto simp: fs1 artifact_path_def)
  have inv': "records_inv st sid ''records.jsonl'' ?fs'"
    using inv st' rec by (simp add: records_inv_def)
  have "ReadFile ?fs' (?base @ [sid, ''records.jsonl'']) = ReadFile fs (?base @ [sid, ''records.jsonl''])"
  proof (rule ReadFile_cong [OF rec(1)])
    fix q x
    assume "strict_prefix q (?base @ [sid, ''records.jsonl''])"
    then have q: "prefix q (?base @ [sid])" using prefix_snoc [of q "?base @ [sid]" "''records.jsonl''"] by (auto simp: strict_prefix_def)
    then have "prefix q ?d" using prefix_order.trans [of q "?base @ [sid]" ?d] by simp
    moreover have "q \<noteq> ?p" using q by (auto simp: artifact_path_def dest: prefix_length_le)
    ultimately show "map_of ?fs' q = Some (File x) \<longleftrightarrow> map_of fs q = Some (File x)"
      using nofile [of q x] by (auto simp: fs1)
  qed
  then have "ListRecords json st ?fs' sid = ListRecords json st fs sid"
    using store_path(2) [OF st sid, of "''records.jsonl''"] by (simp add: ListRecords_def listRecords_def plain_name_def)
  moreover have "SaveRequestBodyArtifact st fs sid rid (data, True) = (?fs', Inr (''artifacts/request-bodies/'' @ rid @ ''.bin''))"
    unfolding SaveRequestBodyArtifact_def rel Let_def path parent mk by (simp add: w)
  ultimately show thesis using that inv' by simp
qed

section \<open>A captured exchange\<close>

text \<open>
  The record of an exchange whose answer is a status and then bodies, and whose body was read in
  full: it holds the beginnings of both bodies, and the effects in the window of the request.
\<close>

definition exchange_record ::
  "world \<Rightarrow> Proxy \<Rightarrow> string \<Rightarrow> request \<Rightarrow> bytes \<Rightarrow> int \<Rightarrow> bytes \<Rightarrow> Record" where
  "exchange_record w p sid req sent status answer =
     \<lparr>rec_ID = take 8 (w_uuid w), rec_SessionID = sid, rec_Sequence = px_sequence p + 1,
      rec_Request =
        \<lparr>req_Method = rq_Method req, req_Path = url_Path (rq_URL req), req_Query = rq_RawQuery req,
         req_Headers = rq_Header req, req_Body = take (nat (px_maxBodySize p)) sent,
         req_BodyRef = (if nat (px_maxBodySize p) < length sent then ''artifacts/request-bodies/'' @ take 8 (w_uuid w) @ ''.bin'' else ''''),
         req_BodyLen = int (length sent)\<rparr>,
      rec_Response =
        \<lparr>resp_StatusCode = status, resp_Headers = w_header w, resp_Body = take (nat (px_maxBodySize p)) answer,
         resp_BodyLen = int (length answer)\<rparr>,
      rec_SideEffects = filter (\<lambda>e. w_start w \<le> se_Timestamp e \<and> se_Timestamp e \<le> w_end w) (w_arrivals w),
      rec_Duration = w_duration w, rec_RecordedAt = w_end w, rec_Error = ''''\<rparr>"

lemma cloneHeaders_same [simp]: "cloneHeaders h = h"
  by (simp add: cloneHeaders_def)

lemma answer_copied:
  "rr_out (rr_calls (new_responseRecorder m) (HeaderCall c # map BodyCall bs)) = HeaderCall c # map BodyCall bs
   \<and> rr_statusCode (rr_calls (new_responseRecorder m) (HeaderCall c # map BodyCall bs)) = c
   \<and> rr_body (rr_calls (new_responseRecorder m) (HeaderCall c # map BodyCall bs)) = take (nat m) (concat bs)
   \<and> rr_bodyLen (rr_calls (new_responseRecorder m) (HeaderCall c # map BodyCall bs)) = int (length (concat bs))"
proof -
  have b: "call_bodies (HeaderCall c # map BodyCall bs) = concat bs" "header_codes (HeaderCall c # map BodyCall bs) = [c]"
    by (simp_all add: call_bodies_def header_codes_def o_def)
  have "rr_out (rr_calls (new_responseRecorder m) (HeaderCall c # map BodyCall bs)) = HeaderCall c # map BodyCall bs"
    using rr_bodies_out [of "WriteHeader (new_responseRecorder m) c" bs]
    by (simp add: rr_calls_def WriteHeader_def new_responseRecorder_simps)
  with rr_calls_spec [of m "HeaderCall c # map BodyCall bs"] show ?thesis unfolding b by simp
qed

lemma only_scope:
  assumes "rcd_activeScopes r = []" "w_end w \<noteq> 0"
  defines "k \<equiv> rcd_scopeID r + 1"
  defines "sc \<equiv> \<lparr>sc_startedAt = w_start w, sc_closedAt = 0, sc_effects = []\<rparr>"
  shows "pick (closed_at k (w_end w) sc ((fst (BeginRequestScope r (w_start w)))\<lparr>rcd_sideEffectCh := ch\<rparr>)) e = Some k
     \<longleftrightarrow> w_start w \<le> se_Timestamp e \<and> se_Timestamp e \<le> w_end w"
  unfolding k_def sc_def
  using assms(1,2) by (auto simp: pick_def findScopeForEffect_def closed_at_def begin_simps split: if_splits)

lemma serve_scope_ok:
  fixes sent
  assumes r: "rcd_activeScopes (ps_recorder ps) = []" "rcd_sideEffectCh (ps_recorder ps) = []" "\<not> rcd_done (ps_recorder ps)"
    and up: "w_upstream w (director (ps_proxy ps) req) sent = (HeaderCall c # map BodyCall bs, False)" and t: "w_end w \<noteq> 0"
    and inv: "records_inv st (rcd_sessionID (ps_recorder ps)) ''records.jsonl'' (ps_fs ps)"
    and ok: "record_ok json final" and seq: "px_sequence (ps_proxy ps) = px_sequence p + 1" "px_maxBodySize (ps_proxy ps) = px_maxBodySize p"
    and final: "final = exchange_record w p (rcd_sessionID (ps_recorder ps)) req sent c (concat bs)"
    and body: "reqBody = take (nat (px_maxBodySize p)) sent" "reqBodyLen = int (length sent)" "reqBodyRef = req_BodyRef (rec_Request final)"
  shows "\<exists>fs' r'. serve_scope json st w ps req sent reqBody reqBodyLen reqBodyRef
           = (ps\<lparr>ps_recorder := r', ps_fs := fs'\<rparr>, HeaderCall c # map BodyCall bs, True)
     \<and> records_inv st (rcd_sessionID (ps_recorder ps)) ''records.jsonl'' fs'
     \<and> ListRecords json st fs' (rcd_sessionID (ps_recorder ps)) = (fst (ListRecords json st (ps_fs ps) (rcd_sessionID (ps_recorder ps))) @ [final], None)
     \<and> rcd_activeScopes r' = [] \<and> rcd_sideEffectCh r' = [] \<and> rcd_count r' = rcd_count (ps_recorder ps) + 1
     \<and> rcd_sessionID r' = rcd_sessionID (ps_recorder ps) \<and> \<not> rcd_done r'
     \<and> (\<forall>q. q \<noteq> store_baseDir st @ [rcd_sessionID (ps_recorder ps), ''records.jsonl''] \<longrightarrow> map_of fs' q = map_of (ps_fs ps) q)"
proof -
  let ?r = "ps_recorder ps"
  let ?sid = "rcd_sessionID ?r"
  let ?k = "rcd_scopeID ?r + 1"
  let ?sc = "\<lparr>sc_startedAt = w_start w, sc_closedAt = 0, sc_effects = []\<rparr>"
  let ?r2 = "(fst (BeginRequestScope ?r (w_start w)))\<lparr>rcd_sideEffectCh := w_arrivals w\<rparr>"
  let ?rc = "final\<lparr>rec_SessionID := '''', rec_SideEffects := []\<rparr>"
  define b where "b = fst (BeginRequestScope ?r (w_start w))"
  have begun: "BeginRequestScope ?r (w_start w) = (b, ?k)"
    by (simp add: b_def prod_eq_iff begin_simps)
  have r2: "go_map (rcd_activeScopes ?r2)" "map_of (rcd_activeScopes ?r2) ?k = Some ?sc" "\<not> rcd_done ?r2"
    "rcd_sideEffectCh (fst (BeginRequestScope ?r (w_start w))) = []"
    using r by (simp_all add: begin_simps)
  have rc: "stamp_recorded (w_end w) ?rc = ?rc" "rec_RecordedAt ?rc = w_end w"
    using t by (simp_all add: stamp_recorded_def final exchange_record_def)
  from FinishRequestScope_effects [OF r2(1-3), of json st "w_end w" "ps_fs ps" ?rc, unfolded rc] obtain r3 where
    fin: "FinishRequestScope json st (w_end w) (ps_fs ps) ?r2 ?k ?rc
       = persistRecord json st (ps_fs ps) r3 (with_effects ?rc (sc_effects ?sc @ filter (\<lambda>e. pick (closed_at ?k (w_end w) ?sc ?r2) e = Some ?k) (rcd_sideEffectCh ?r2)))"
    and r3: "rcd_sessionID r3 = rcd_sessionID ?r2" "rcd_count r3 = rcd_count ?r2" "rcd_sideEffectCh r3 = []" "\<not> rcd_done r3"
      "windows r3 = filter (\<lambda>w. fst w \<noteq> ?k) (windows (closed_at ?k (w_end w) ?sc ?r2))"
    by blast
  have "windows (closed_at ?k (w_end w) ?sc ?r2) = [(?k, w_start w, w_end w)]"
    using r by (simp add: windows_def closed_at_def begin_simps window_def)
  with r3(5) have none: "rcd_activeScopes r3 = []" by (simp add: windows_def)
  have eff: "with_effects ?rc (sc_effects ?sc @ filter (\<lambda>e. pick (closed_at ?k (w_end w) ?sc ?r2) e = Some ?k) (rcd_sideEffectCh ?r2))
      = final\<lparr>rec_SessionID := ''''\<rparr>"
    unfolding only_scope [OF r(1) t] by (simp add: with_effects_def final exchange_record_def)
  have sid: "rcd_sessionID r3 = ?sid" "rcd_count r3 = rcd_count ?r" using r3 by (simp_all add: begin_simps)
  obtain fs' where fs': "append_step json st ?sid ''records.jsonl'' (ps_fs ps) final = Some fs'"
    "records_inv st ?sid ''records.jsonl'' fs'"
    "ListRecords json st fs' ?sid = (fst (ListRecords json st (ps_fs ps) ?sid) @ [final], None)"
    "\<forall>q. q \<noteq> store_baseDir st @ [?sid, ''records.jsonl''] \<longrightarrow> map_of fs' q = map_of (ps_fs ps) q"
    using append_step_spec [OF inv ok] by (auto simp: ListRecords_def)
  then have "AppendRecord json st (ps_fs ps) ?sid final = (fs', None)"
    by (auto simp: append_step_def AppendRecord_def split: prod.splits option.splits)
  then have persist: "persistRecord json st (ps_fs ps) r3 (final\<lparr>rec_SessionID := ''''\<rparr>) = (fs', r3\<lparr>rcd_count := rcd_count r3 + 1\<rparr>, final, None)"
    by (simp add: persistRecord_def sid) (simp add: final exchange_record_def)
  have rec: "\<lparr>rec_ID = take 8 (w_uuid w), rec_SessionID = '''', rec_Sequence = px_sequence (ps_proxy ps),
       rec_Request = \<lparr>req_Method = rq_Method req, req_Path = url_Path (rq_URL req), req_Query = rq_RawQuery req,
                     req_Headers = rq_Header req, req_Body = reqBody, req_BodyRef = reqBodyRef, req_BodyLen = reqBodyLen\<rparr>,
       rec_Response = \<lparr>resp_StatusCode = c, resp_Headers = w_header w,
                      resp_Body = take (nat (px_maxBodySize p)) (concat bs), resp_BodyLen = int (length (concat bs))\<rparr>,
       rec_SideEffects = [], rec_Duration = w_duration w, rec_RecordedAt = w_end w, rec_Error = ''''\<rparr> = ?rc"
    using body seq by (simp add: final exchange_record_def)
  have "serve_scope json st w ps req sent reqBody reqBodyLen reqBodyRef
      = (ps\<lparr>ps_recorder := r3\<lparr>rcd_count := rcd_count r3 + 1\<rparr>, ps_fs := fs'\<rparr>, HeaderCall c # map BodyCall bs, True)"
    unfolding serve_scope_def begun Let_def case_prod_conv up seq(2) cloneHeaders_same
    by (simp only: if_False answer_copied rec r2(4) [folded b_def] append_Nil fin [folded b_def] eff [folded b_def] persist case_prod_conv)
  with fs' sid r3 none show ?thesis by (intro exI [of _ fs'] exI [of _ "r3\<lparr>rcd_count := rcd_count r3 + 1\<rparr>"]) simp
qed

lemma director_sequence [simp]: "director (p\<lparr>px_sequence := n\<rparr>) req = director p req"
  by (simp add: director_def)

lemma ServeHTTP_body:
  assumes "\<not> shouldSkip (ps_proxy ps) (url_Path (rq_URL req))" and "rq_Body req = Some body"
    and "captureRequestBodySnapshot (w_disk w) (w_tmpname w) (ps_tmp ps) body (px_maxBodySize (ps_proxy ps)) = (tmp, Inr snap)"
    and "cap_Reader tmp snap = Inr sent"
  shows "ServeHTTP json st w ps req =
     (let (fs', ref) =
            (if NeedsArtifact snap then
               (case SaveRequestBodyArtifact st (ps_fs ps) (rcd_sessionID (ps_recorder ps)) (take 8 (w_uuid w)) (sent, True) of
                  (fs', Inl e) \<Rightarrow> (fs', '''')
                | (fs', Inr ref) \<Rightarrow> (fs', ref))
             else (ps_fs ps, ''''));
          (ps', calls, returns) =
            serve_scope json st w (ps\<lparr>ps_proxy := (ps_proxy ps)\<lparr>px_sequence := px_sequence (ps_proxy ps) + 1\<rparr>, ps_fs := fs'\<rparr>)
              req sent (cap_preview snap) (cap_bodyLen snap) ref
      in (ps'\<lparr>ps_tmp := fst (Cleanup tmp snap)\<rparr>, calls, returns))"
  using assms by (simp add: ServeHTTP_def Let_def)

lemma captured:
  fixes sent
  assumes skip: "\<not> shouldSkip (ps_proxy ps) (url_Path (rq_URL req))"
    and body: "sent = (case rq_Body req of None \<Rightarrow> [] | Some b \<Rightarrow> concat (fst b))" "case rq_Body req of None \<Rightarrow> True | Some b \<Rightarrow> snd b"
    and disk: "good_disk (w_disk w)" "w_tmpname w \<notin> fst ` set (ps_tmp ps)"
    and r: "rcd_activeScopes (ps_recorder ps) = []" "rcd_sideEffectCh (ps_recorder ps) = []" "\<not> rcd_done (ps_recorder ps)"
    and up: "w_upstream w (director (ps_proxy ps) req) sent = (HeaderCall c # map BodyCall bs, False)" and t: "w_end w \<noteq> 0"
    and sid: "sid = rcd_sessionID (ps_recorder ps)" and inv: "records_inv st sid ''records.jsonl'' (ps_fs ps)"
    and final: "final = exchange_record w (ps_proxy ps) sid req sent c (concat bs)" and ok: "record_ok json final"
    and art: "CHR ''/'' \<notin> set (take 8 (w_uuid w))" "artifact_free st (ps_fs ps) sid (take 8 (w_uuid w))"
  shows "\<exists>ps'. ServeHTTP json st w ps req = (ps', HeaderCall c # map BodyCall bs, True)
     \<and> ListRecords json st (ps_fs ps') sid = (fst (ListRecords json st (ps_fs ps) sid) @ [final], None)
     \<and> (nat (px_maxBodySize (ps_proxy ps)) < length sent \<longrightarrow>
          OpenRequestBodyArtifact st (ps_fs ps') sid (req_BodyRef (rec_Request final)) = Inr sent)
     \<and> ps_tmp ps' = ps_tmp ps \<and> ps_proxy ps' = (ps_proxy ps)\<lparr>px_sequence := px_sequence (ps_proxy ps) + 1\<rparr>
     \<and> rcd_activeScopes (ps_recorder ps') = [] \<and> rcd_sideEffectCh (ps_recorder ps') = []"
proof -
  let ?p = "ps_proxy ps" and ?m = "px_maxBodySize (ps_proxy ps)"
  let ?ps = "ps\<lparr>ps_proxy := ?p\<lparr>px_sequence := px_sequence ?p + 1\<rparr>\<rparr>"
  let ?rid = "take 8 (w_uuid w)"
  let ?ref = "req_BodyRef (rec_Request final)"
  have scope: "\<exists>fs' r'. serve_scope json st w (?ps\<lparr>ps_fs := fs1\<rparr>) req sent (take (nat ?m) sent) (int (length sent)) ?ref
           = (?ps\<lparr>ps_recorder := r', ps_fs := fs'\<rparr>, HeaderCall c # map BodyCall bs, True)
     \<and> records_inv st sid ''records.jsonl'' fs'
     \<and> ListRecords json st fs' sid = (fst (ListRecords json st fs1 sid) @ [final], None)
     \<and> rcd_activeScopes r' = [] \<and> rcd_sideEffectCh r' = []
     \<and> (\<forall>q. q \<noteq> store_baseDir st @ [sid, ''records.jsonl''] \<longrightarrow> map_of fs' q = map_of fs1 q)"
    if inv1: "records_inv st sid ''records.jsonl'' fs1" for fs1
  proof -
    let ?q = "?ps\<lparr>ps_fs := fs1\<rparr>"
    have q: "ps_recorder ?q = ps_recorder ps" "ps_fs ?q = fs1" by simp_all
    have up': "w_upstream w (director (ps_proxy ?q) req) sent = (HeaderCall c # map BodyCall bs, False)" using up by simp
    have p: "px_sequence (ps_proxy ?q) = px_sequence ?p + 1" "px_maxBodySize (ps_proxy ?q) = ?m" by simp_all
    from serve_scope_ok [where ps = ?q and p = ?p, unfolded q, folded sid, OF r up' t inv1 ok p final refl refl refl]
    show ?thesis by auto
  qed
  show ?thesis
  proof (cases "rq_Body req")
    case None
    with body have s: "sent = []" by simp
    with final have "?ref = ''''" by (simp add: exchange_record_def)
    then obtain fs' r' where "serve_scope json st w ?ps req [] [] 0 '''' = (?ps\<lparr>ps_recorder := r', ps_fs := fs'\<rparr>, HeaderCall c # map BodyCall bs, True)"
      "ListRecords json st fs' sid = (fst (ListRecords json st (ps_fs ps) sid) @ [final], None)"
      "rcd_activeScopes r' = []" "rcd_sideEffectCh r' = []"
      using scope [OF inv] s by auto
    with skip None s show ?thesis by (simp add: ServeHTTP_def Let_def)
  next
    case (Some b)
    with body have b: "snd b" "sent = concat (fst b)" by simp_all
    from snapshot_good [OF disk b(1), of ?m] b obtain tmp' snap where
      cap: "captureRequestBodySnapshot (w_disk w) (w_tmpname w) (ps_tmp ps) b ?m = (tmp', Inr snap)"
      and snap: "cap_preview snap = take (nat ?m) sent" "cap_bodyLen snap = int (length sent)" "cap_Reader tmp' snap = Inr sent"
        "NeedsArtifact snap \<longleftrightarrow> nat ?m < length sent" "fst (Cleanup tmp' snap) = ps_tmp ps" by auto
    obtain fs1 where fs1: "records_inv st sid ''records.jsonl'' fs1" "ListRecords json st fs1 sid = ListRecords json st (ps_fs ps) sid"
      and saved: "NeedsArtifact snap \<Longrightarrow> map_of fs1 (artifact_path st sid ?rid) = Some (File sent)"
      and save: "(if NeedsArtifact snap then
                   (case SaveRequestBodyArtifact st (ps_fs ps) sid ?rid (sent, True) of
                      (fs', Inl e) \<Rightarrow> (fs', '''')
                    | (fs', Inr ref) \<Rightarrow> (fs', ref))
                 else (ps_fs ps, '''')) = (fs1, ?ref)"
    proof (cases "NeedsArtifact snap")
      case True
      then have ref: "?ref = ''artifacts/request-bodies/'' @ ?rid @ ''.bin''" using snap(4) by (simp add: final exchange_record_def)
      show thesis
        by (rule SaveRequestBodyArtifact_ok [OF inv art, of sent json]) (rule that, simp_all add: True ref)
    next
      case False
      then have ref: "?ref = ''''" using snap(4) by (simp add: final exchange_record_def)
      show thesis by (rule that [of "ps_fs ps"]) (use inv False ref in simp_all)
    qed
    from scope [OF fs1(1)] obtain fs' r' where
      sv: "serve_scope json st w (?ps\<lparr>ps_fs := fs1\<rparr>) req sent (take (nat ?m) sent) (int (length sent)) ?ref
           = (?ps\<lparr>ps_recorder := r', ps_fs := fs'\<rparr>, HeaderCall c # map BodyCall bs, True)"
      and fs': "records_inv st sid ''records.jsonl'' fs'" "ListRecords json st fs' sid = (fst (ListRecords json st fs1 sid) @ [final], None)"
        "\<forall>q. q \<noteq> store_baseDir st @ [sid, ''records.jsonl''] \<longrightarrow> map_of fs' q = map_of fs1 q"
      and r': "rcd_activeScopes r' = []" "rcd_sideEffectCh r' = []" by blast
    have art': "OpenRequestBodyArtifact st fs' sid ?ref = Inr sent" if "nat ?m < length sent"
    proof -
      have "map_of fs' (artifact_path st sid ?rid) = Some (File sent)"
        using fs'(3) saved snap(4) that by (simp add: artifact_path_def)
      moreover have "store_inv st fs'" "plain_name sid" using fs'(1) by (simp_all add: records_inv_def)
      ultimately show ?thesis using OpenRequestBodyArtifact_ok [of st fs' sid ?rid sent] art(1) that final
        by (simp add: exchange_record_def)
    qed
    have "ServeHTTP json st w ps req = (?ps\<lparr>ps_recorder := r', ps_fs := fs', ps_tmp := ps_tmp ps\<rparr>, HeaderCall c # map BodyCall bs, True)"
      unfolding ServeHTTP_body [OF skip Some cap snap(3)] sid [symmetric] save Let_def case_prod_conv snap(1,2,5) sv by simp
    with fs' fs1 r' art' show ?thesis by auto
  qed
qed

lemma ServeHTTP_read_error:
  assumes "\<not> shouldSkip (ps_proxy ps) (url_Path (rq_URL req))" and "rq_Body req = Some body" and "\<not> snd body"
    and disk: "good_disk (w_disk w)" "w_tmpname w \<notin> fst ` set (ps_tmp ps)"
  shows "\<exists>tmp. ServeHTTP json st w ps req =
      (ps\<lparr>ps_proxy := (ps_proxy ps)\<lparr>px_sequence := px_sequence (ps_proxy ps) + 1\<rparr>, ps_tmp := tmp\<rparr>,
       http_error ''failed to read request body'' 400, True)
     \<and> (if length (concat (fst body)) \<le> requestBodySpillThreshold then tmp = ps_tmp ps
        else map_of tmp (w_tmpname w) = Some (concat (fst body)))"
proof -
  from snapshot_read_error [OF disk assms(3), of "px_maxBodySize (ps_proxy ps)"] obtain tmp where
    t: "captureRequestBodySnapshot (w_disk w) (w_tmpname w) (ps_tmp ps) body (px_maxBodySize (ps_proxy ps)) = (tmp, Inl ReadFailed)"
      "if length (concat (fst body)) \<le> requestBodySpillThreshold then tmp = ps_tmp ps
       else map_of tmp (w_tmpname w) = Some (concat (fst body))" by blast
  show ?thesis by (rule exI [of _ tmp]) (use assms(1,2) t in \<open>simp add: ServeHTTP_def Let_def\<close>)
qed

text \<open>
  An answer that breaks off: the reverse proxy panics, nothing finishes the scope, and it stays open
  for the effects of the requests to come.
\<close>

lemma aborted_answer_leaks_scope:
  assumes "\<not> shouldSkip (ps_proxy ps) (url_Path (rq_URL req))" and "rq_Body req = None"
    and "w_upstream w (director (ps_proxy ps) req) [] = (calls, True)"
  shows "\<exists>ps' out. ServeHTTP json st w ps req = (ps', out, False) \<and> ps_fs ps' = ps_fs ps
     \<and> map_of (rcd_activeScopes (ps_recorder ps')) (rcd_scopeID (ps_recorder ps) + 1)
         = Some \<lparr>sc_startedAt = w_start w, sc_closedAt = 0, sc_effects = []\<rparr>"
  using assms by (simp add: ServeHTTP_def serve_scope_def Let_def case_prod_beta begin_simps)

section \<open>Properties\<close>

text \<open>
  C32. A captured request: with no other request under way, a request that is not excluded, whose
  body is read to its end and whose target answers with a status and then a body, is answered with
  exactly that answer, and exactly one record is appended. The record has the next sequence number,
  the beginnings of both bodies up to the configured size with their true lengths, and the side
  effects whose time lies between the start of the request and its record. A request body that does
  not fit is stored beside the record and opens again in full through the reference in it. The
  temporary file is gone.
\<close>

theorem captured_exchange:
  assumes "\<not> shouldSkip (ps_proxy ps) (url_Path (rq_URL req))"
    and "sent = (case rq_Body req of None \<Rightarrow> [] | Some b \<Rightarrow> concat (fst b))" "case rq_Body req of None \<Rightarrow> True | Some b \<Rightarrow> snd b"
    and "good_disk (w_disk w)" "w_tmpname w \<notin> fst ` set (ps_tmp ps)"
    and "rcd_activeScopes (ps_recorder ps) = []" "rcd_sideEffectCh (ps_recorder ps) = []" "\<not> rcd_done (ps_recorder ps)"
    and "w_upstream w (director (ps_proxy ps) req) sent = (HeaderCall c # map BodyCall bs, False)" and "w_end w \<noteq> 0"
    and "sid = rcd_sessionID (ps_recorder ps)" and "records_inv st sid ''records.jsonl'' (ps_fs ps)"
    and "final = exchange_record w (ps_proxy ps) sid req sent c (concat bs)" and "record_ok json final"
    and "CHR ''/'' \<notin> set (take 8 (w_uuid w))" "artifact_free st (ps_fs ps) sid (take 8 (w_uuid w))"
  shows "\<exists>ps'. ServeHTTP json st w ps req = (ps', HeaderCall c # map BodyCall bs, True)
     \<and> ListRecords json st (ps_fs ps') sid = (fst (ListRecords json st (ps_fs ps) sid) @ [final], None)
     \<and> (nat (px_maxBodySize (ps_proxy ps)) < length sent \<longrightarrow>
          OpenRequestBodyArtifact st (ps_fs ps') sid (req_BodyRef (rec_Request final)) = Inr sent)
     \<and> ps_tmp ps' = ps_tmp ps \<and> ps_proxy ps' = (ps_proxy ps)\<lparr>px_sequence := px_sequence (ps_proxy ps) + 1\<rparr>
     \<and> rcd_activeScopes (ps_recorder ps') = [] \<and> rcd_sideEffectCh (ps_recorder ps') = []"
  using assms by (rule captured)

text \<open>
  When reading a request body fails, as it does when the client goes away, the request is
  answered with 400 and nothing is recorded; if more than a mebibyte had been read by then, the
  temporary file with it stays behind for good.
\<close>

theorem body_read_error_leaks_file:
  assumes "\<not> shouldSkip (ps_proxy ps) (url_Path (rq_URL req))" and "rq_Body req = Some body" and "\<not> snd body"
    and "good_disk (w_disk w)" "w_tmpname w \<notin> fst ` set (ps_tmp ps)"
  shows "\<exists>tmp. ServeHTTP json st w ps req =
      (ps\<lparr>ps_proxy := (ps_proxy ps)\<lparr>px_sequence := px_sequence (ps_proxy ps) + 1\<rparr>, ps_tmp := tmp\<rparr>,
       http_error ''failed to read request body'' 400, True)
     \<and> (if length (concat (fst body)) \<le> requestBodySpillThreshold then tmp = ps_tmp ps
        else map_of tmp (w_tmpname w) = Some (concat (fst body)))"
  using assms by (rule ServeHTTP_read_error)

text \<open>
  The answer as the target gives it, a final status and then bodies, passes the recording
  writer unchanged and is copied up to the configured size; but an informational status before it,
  such as 103, is recorded as the status of the answer, and the client of the proxy gets 200 instead
  of the final status.
\<close>

theorem informational_status_hides_answer:
  "rr_out (rr_calls (new_responseRecorder m) (HeaderCall c # map BodyCall bs)) = HeaderCall c # map BodyCall bs
   \<and> rr_statusCode (rr_calls (new_responseRecorder m) (HeaderCall c # map BodyCall bs)) = c
   \<and> rr_body (rr_calls (new_responseRecorder m) (HeaderCall c # map BodyCall bs)) = take (nat m) (concat bs)
   \<and> rr_statusCode (rr_calls (new_responseRecorder m) (HeaderCall 103 # HeaderCall 404 # map BodyCall bs)) = 103
   \<and> client_status (rr_out (rr_calls (new_responseRecorder m) (HeaderCall 103 # HeaderCall 404 # map BodyCall bs))) = 200
   \<and> client_status (HeaderCall 103 # HeaderCall 404 # map BodyCall bs) = 404"
proof -
  have b: "header_codes (HeaderCall 103 # HeaderCall 404 # map BodyCall bs) = [103, 404]" by (simp add: header_codes_def o_def)
  have "rr_out (rr_calls (new_responseRecorder m) (HeaderCall 103 # HeaderCall 404 # map BodyCall bs)) = HeaderCall 103 # map BodyCall bs"
    using rr_bodies_out [of "WriteHeader (new_responseRecorder m) 103" bs]
    by (simp add: rr_calls_def WriteHeader_def new_responseRecorder_simps)
  moreover have "client_status (map BodyCall bs) = 200" by (cases bs) simp_all
  ultimately show ?thesis using answer_copied [of m c bs] rr_calls_spec [of m "HeaderCall 103 # HeaderCall 404 # map BodyCall bs"]
    unfolding b by simp
qed

section \<open>Instances\<close>

definition demo_request :: request where
  "demo_request =
     \<lparr>rq_Method = ''POST'', rq_URL = \<lparr>url_Scheme = '''', url_Host = '''', url_Path = ''/a''\<rparr>, rq_RawQuery = '''',
      rq_Host = ''h'', rq_Header = [], rq_Body = Some ([''xy'', ''z''], True)\<rparr>"

definition demo_world :: world where
  "demo_world =
     \<lparr>w_start = 5, w_duration = 3, w_end = 8, w_uuid = ''01234567-89ab'', w_tmpname = ''t'',
      w_disk = \<lparr>dk_create = True, dk_write = \<lambda>n. True, dk_close = True\<rparr>,
      w_upstream = \<lambda>req sent. ([HeaderCall 201, BodyCall ''ok''], False), w_header = [], w_arrivals = [demo_effect]\<rparr>"

definition demo_proxy :: pstate where
  "demo_proxy =
     \<lparr>ps_proxy = \<lparr>px_target = \<lparr>url_Scheme = ''http'', url_Host = ''t'', url_Path = ''''\<rparr>, px_maxBodySize = 2,
        px_excludePaths = [''/health''], px_sequence = 0\<rparr>,
      ps_recorder = NewRecorder ''s1'', ps_fs = demo_fs, ps_tmp = []\<rparr>"

definition demo_exchange :: Record where
  "demo_exchange = exchange_record demo_world (ps_proxy demo_proxy) ''s1'' demo_request ''xyz'' 201 ''ok''"

definition demo_exchange_json :: json_codec where
  "demo_exchange_json = demo_json\<lparr>marshalRecord := \<lambda>r. Some ''r'', unmarshalRecord := \<lambda>d. Some demo_exchange\<rparr>"

theorem captured_exchange_witness:
  "\<exists>ps'. ServeHTTP demo_exchange_json demo_store demo_world demo_proxy demo_request = (ps', [HeaderCall 201, BodyCall ''ok''], True)
     \<and> OpenRequestBodyArtifact demo_store (ps_fs ps') ''s1'' ''artifacts/request-bodies/01234567.bin'' = Inr ''xyz''"
proof -
  have "artifact_free demo_store demo_fs ''s1'' ''01234567''"
    by (simp add: artifact_free_def artifact_path_def parent_def demo_store_def demo_fs_def)
  moreover have "record_ok demo_exchange_json demo_exchange"
    by (simp add: record_ok_def demo_exchange_json_def dropCR_def scan_limit_def)
  moreover have "\<not> shouldSkip (ps_proxy demo_proxy) ''/a''" by (simp add: shouldSkip_def demo_proxy_def HasPrefix_def)
  moreover have "req_BodyRef (rec_Request demo_exchange) = ''artifacts/request-bodies/01234567.bin''"
    by (simp add: demo_exchange_def exchange_record_def demo_proxy_def demo_world_def)
  moreover note captured_exchange [where json = demo_exchange_json and st = demo_store and ps = demo_proxy and w = demo_world
      and req = demo_request and sent = "''xyz''" and c = 201 and bs = "[''ok'']" and sid = "''s1''" and final = demo_exchange]
  ultimately show ?thesis using demo_records_inv
    by (fastforce simp: demo_world_def demo_proxy_def demo_request_def good_disk_def NewRecorder_def demo_exchange_def)
qed

theorem body_read_error_leaks_file_witness:
  "\<exists>ps'. ServeHTTP demo_json demo_store demo_world demo_proxy (demo_request\<lparr>rq_Body := Some ([replicate 2000000 CHR ''x''], False)\<rparr>)
      = (ps', http_error ''failed to read request body'' 400, True)
     \<and> map_of (ps_tmp ps') ''t'' = Some (replicate 2000000 CHR ''x'')"
  using body_read_error_leaks_file [of demo_proxy "demo_request\<lparr>rq_Body := Some ([replicate 2000000 CHR ''x''], False)\<rparr>"
      "([replicate 2000000 CHR ''x''], False)" demo_world demo_json demo_store]
  by (auto simp: demo_world_def demo_proxy_def demo_request_def good_disk_def shouldSkip_def HasPrefix_def requestBodySpillThreshold_def)

end
