(* ===== verification/Replay.thy ===== *)
theory Replay
  imports Recorder
begin

text \<open>
  Replaying (\<^verbatim>\<open>internal/replay\<close>): the request that is sent again (\<^verbatim>\<open>transform.go\<close>), one replay with its
  retries and the pool of workers (\<^verbatim>\<open>worker.go\<close>), and a run with the side effects of each request
  (\<^verbatim>\<open>engine.go\<close>). What \<^verbatim>\<open>http.NewRequest\<close> accepts and what the client gets back are parameters.
\<close>

section \<open>Headers\<close>

text \<open>\<^verbatim>\<open>textproto.CanonicalMIMEHeaderKey\<close>: a key with a byte that no header name has stays as it is.\<close>

definition is_upper :: "char \<Rightarrow> bool" where
  "is_upper c = (CHR ''A'' \<le> c \<and> c \<le> CHR ''Z'')"

definition is_lower :: "char \<Rightarrow> bool" where
  "is_lower c = (CHR ''a'' \<le> c \<and> c \<le> CHR ''z'')"

definition header_byte :: "char \<Rightarrow> bool" where
  "header_byte c = (is_upper c \<or> is_lower c \<or> (CHR ''0'' \<le> c \<and> c \<le> CHR ''9'') \<or> c \<in> set ''!#$%&'' \<or> c = CHR 0x27 \<or> c \<in> set ''*+-.^_'' \<or> c = CHR 0x60 \<or> c \<in> set ''|~'')"

fun canonical_loop :: "bool \<Rightarrow> string \<Rightarrow> string" where
  "canonical_loop upper [] = []"
| "canonical_loop upper (c # s) =
     (if upper \<and> is_lower c then char_of (of_char c - 32 :: nat)
      else if \<not> upper \<and> is_upper c then char_of (of_char c + 32 :: nat)
      else c) # canonical_loop (c = CHR ''-'') s"

definition CanonicalHeaderKey :: "string \<Rightarrow> string" where
  "CanonicalHeaderKey k = (if list_all header_byte k then canonical_loop True k else k)"

type_synonym header = "(string, string list) gomap"

definition header_values :: "header \<Rightarrow> string \<Rightarrow> string list" where
  "header_values h k = (case map_of h k of Some vs \<Rightarrow> vs | None \<Rightarrow> [])"

definition header_Add :: "header \<Rightarrow> string \<Rightarrow> string \<Rightarrow> header" where
  "header_Add h k v = (let k = CanonicalHeaderKey k in put k (header_values h k @ [v]) h)"

definition header_Set :: "header \<Rightarrow> string \<Rightarrow> string \<Rightarrow> header" where
  "header_Set h k v = put (CanonicalHeaderKey k) [v] h"

definition header_Del :: "header \<Rightarrow> string \<Rightarrow> header" where
  "header_Del h k = filter (\<lambda>e. fst e \<noteq> CanonicalHeaderKey k) h"

section \<open>The request\<close>

record TransformConfig =
  tc_TargetBaseURL :: string
  tc_HeaderOverride :: "(string, string) gomap"
  tc_HeaderRemove :: "string list"

record outgoing =
  og_Method :: string
  og_URL :: string
  og_Header :: header
  og_Body :: bytes
  og_ContentLength :: int

definition request_url :: "TransformConfig \<Rightarrow> HTTPRequest \<Rightarrow> string" where
  "request_url cfg req =
     (let urlStr = tc_TargetBaseURL cfg @ req_Path req
      in if req_Query req \<noteq> '''' then urlStr @ ''?'' @ req_Query req else urlStr)"

fun add_values :: "header \<Rightarrow> string \<Rightarrow> string list \<Rightarrow> header" where
  "add_values h k [] = h"
| "add_values h k (v # vs) = add_values (header_Add h k v) k vs"

fun copy_headers :: "header \<Rightarrow> header \<Rightarrow> header" where
  "copy_headers h [] = h"
| "copy_headers h ((k, vs) # headers) = copy_headers (add_values h k vs) headers"

fun remove_headers :: "header \<Rightarrow> string list \<Rightarrow> header" where
  "remove_headers h [] = h"
| "remove_headers h (k # ks) = remove_headers (header_Del h k) ks"

fun override_headers :: "header \<Rightarrow> (string, string) gomap \<Rightarrow> header" where
  "override_headers h [] = h"
| "override_headers h ((k, v) # kvs) = override_headers (header_Set h k v) kvs"

text \<open>\<open>accepts\<close> is whether \<^verbatim>\<open>http.NewRequest\<close> takes the method and the URL; an empty method is GET.\<close>

definition TransformWithBody ::
  "(string \<Rightarrow> string \<Rightarrow> bool) \<Rightarrow> HTTPRequest \<Rightarrow> TransformConfig \<Rightarrow> bytes \<Rightarrow> int \<Rightarrow> outgoing option" where
  "TransformWithBody accepts req cfg body contentLength =
     (let urlStr = request_url cfg req
      in if \<not> accepts (req_Method req) urlStr then None
         else let h = copy_headers [] (req_Headers req);
                  h = remove_headers h (tc_HeaderRemove cfg);
                  h = override_headers h (tc_HeaderOverride cfg);
                  h = header_Del h ''X-Forwarded-For'';
                  h = header_Del h ''X-Forwarded-Host'';
                  h = header_Del h ''X-Forwarded-Proto''
              in Some \<lparr>og_Method = (if req_Method req = '''' then ''GET'' else req_Method req), og_URL = urlStr,
                       og_Header = h, og_Body = body, og_ContentLength = contentLength\<rparr>)"

definition Transform where
  "Transform accepts req cfg = TransformWithBody accepts req cfg (req_Body req) (int (length (req_Body req)))"

section \<open>One replay\<close>

text \<open>
  Errors and their texts. The client reports an error with its operation and URL in front.
\<close>

datatype replay_error =
    ArtifactNeedsStore
  | OpenArtifactFailed storage_error
  | BuildFailed string
  | DoFailed string string
  | ReadBodyFailed string

fun replay_error_text :: "(storage_error \<Rightarrow> string) \<Rightarrow> replay_error \<Rightarrow> string" where
  "replay_error_text etext ArtifactNeedsStore = ''request body artifact requires replay storage''"
| "replay_error_text etext (OpenArtifactFailed e) = ''open request body artifact: '' @ etext e"
| "replay_error_text etext (BuildFailed rid) = ''failed to build request for record '' @ rid"
| "replay_error_text etext (DoFailed op msg) = op @ '': '' @ msg"
| "replay_error_text etext (ReadBodyFailed msg) = ''read response body: '' @ msg"

record response =
  rs_StatusCode :: int
  rs_Header :: header
  rs_Body :: "string + bytes"

record WorkerPool =
  wp_concurrency :: int
  wp_timeout :: int
  wp_retryCount :: int
  wp_transform :: TransformConfig
  wp_store :: "FileStore option"

text \<open>Times are in nanoseconds.\<close>

definition NewWorkerPool :: "FileStore option \<Rightarrow> int \<Rightarrow> int \<Rightarrow> int \<Rightarrow> TransformConfig \<Rightarrow> WorkerPool" where
  "NewWorkerPool store concurrency timeout retryCount transform =
     \<lparr>wp_concurrency = concurrency, wp_timeout = timeout, wp_retryCount = retryCount, wp_transform = transform, wp_store = store\<rparr>"

record ReplayResult =
  rp_Original :: Record
  rp_Replayed :: Record
  rp_Error :: "replay_error option"
  rp_StartedAt :: int
  rp_FinishedAt :: int

text \<open>
  What one replay meets: the clock at its start and at its end, its duration, the text of a fresh
  UUID, and the answer of the client to each attempt: an error with its operation, or a response,
  whose body may break off.
\<close>

record replay_world =
  rw_started :: int
  rw_finished :: int
  rw_duration :: int
  rw_uuid :: string
  rw_do :: "nat \<Rightarrow> outgoing \<Rightarrow> (string \<times> string) + response"

definition buildReplayRequest ::
  "(string \<Rightarrow> string \<Rightarrow> bool) \<Rightarrow> fs \<Rightarrow> WorkerPool \<Rightarrow> Record \<Rightarrow> replay_error + outgoing" where
  "buildReplayRequest accepts fs wp original =
     (if req_BodyRef (rec_Request original) \<noteq> '''' then
        (case wp_store wp of
           None \<Rightarrow> Inl ArtifactNeedsStore
         | Some st \<Rightarrow>
             (case OpenRequestBodyArtifact st fs (rec_SessionID original) (req_BodyRef (rec_Request original)) of
                Inl e \<Rightarrow> Inl (OpenArtifactFailed e)
              | Inr body \<Rightarrow>
                  (case TransformWithBody accepts (rec_Request original) (wp_transform wp) body (req_BodyLen (rec_Request original)) of
                     None \<Rightarrow> Inl (BuildFailed (rec_ID original))
                   | Some httpReq \<Rightarrow> Inr httpReq)))
      else
        let body = req_Body (rec_Request original);
            contentLength = int (length body)
        in case TransformWithBody accepts (rec_Request original) (wp_transform wp) body contentLength of
             None \<Rightarrow> Inl (BuildFailed (rec_ID original))
           | Some httpReq \<Rightarrow> Inr httpReq)"

definition do_request :: "replay_world \<Rightarrow> nat \<Rightarrow> outgoing \<Rightarrow> replay_error + response" where
  "do_request w attempt req =
     (case rw_do w attempt req of Inl (op, msg) \<Rightarrow> Inl (DoFailed op msg) | Inr resp \<Rightarrow> Inr resp)"

text \<open>The retries that are left, from an attempt on, after a result.\<close>

fun retry_loop ::
  "(string \<Rightarrow> string \<Rightarrow> bool) \<Rightarrow> fs \<Rightarrow> WorkerPool \<Rightarrow> replay_world \<Rightarrow> Record \<Rightarrow> nat \<Rightarrow> nat \<Rightarrow> replay_error + response \<Rightarrow> replay_error + response" where
  "retry_loop accepts fs wp w original attempt 0 res = res"
| "retry_loop accepts fs wp w original attempt (Suc left) res =
     (case res of
        Inr resp \<Rightarrow> Inr resp
      | Inl e \<Rightarrow>
          (case buildReplayRequest accepts fs wp original of
             Inl buildErr \<Rightarrow> Inl buildErr
           | Inr httpReq \<Rightarrow>
               retry_loop accepts fs wp w original (Suc attempt) left (do_request w (Suc attempt) httpReq)))"

definition replayed_record :: "replay_world \<Rightarrow> Record \<Rightarrow> HTTPResponse \<Rightarrow> int \<Rightarrow> string \<Rightarrow> Record" where
  "replayed_record w original resp duration err =
     \<lparr>rec_ID = take 8 (rw_uuid w), rec_SessionID = '''', rec_Sequence = rec_Sequence original,
      rec_Request = rec_Request original, rec_Response = resp, rec_SideEffects = [], rec_Duration = duration,
      rec_RecordedAt = rw_finished w, rec_Error = err\<rparr>"

definition no_response :: HTTPResponse where
  "no_response = \<lparr>resp_StatusCode = 0, resp_Headers = [], resp_Body = [], resp_BodyLen = 0\<rparr>"

definition replayOne ::
  "(storage_error \<Rightarrow> string) \<Rightarrow> (string \<Rightarrow> string \<Rightarrow> bool) \<Rightarrow> fs \<Rightarrow> WorkerPool \<Rightarrow> replay_world \<Rightarrow> Record \<Rightarrow> ReplayResult" where
  "replayOne etext accepts fs wp w original =
     (let result = (\<lambda>rec e. \<lparr>rp_Original = original, rp_Replayed = rec, rp_Error = e,
                       rp_StartedAt = rw_started w, rp_FinishedAt = rw_finished w\<rparr>)
      in case buildReplayRequest accepts fs wp original of
           Inl e \<Rightarrow> result (replayed_record w original no_response 0 (replay_error_text etext e)) (Some e)
         | Inr httpReq \<Rightarrow>
             (case retry_loop accepts fs wp w original 0 (nat (wp_retryCount wp)) (do_request w 0 httpReq) of
                Inl e \<Rightarrow> result (replayed_record w original no_response (rw_duration w) (replay_error_text etext e)) (Some e)
              | Inr resp \<Rightarrow>
                  (case rs_Body resp of
                     Inl msg \<Rightarrow>
                       result (replayed_record w original
                          \<lparr>resp_StatusCode = rs_StatusCode resp, resp_Headers = rs_Header resp, resp_Body = [], resp_BodyLen = 0\<rparr>
                          (rw_duration w) (replay_error_text etext (ReadBodyFailed msg))) (Some (ReadBodyFailed msg))
                   | Inr respBody \<Rightarrow>
                       result (replayed_record w original
                          \<lparr>resp_StatusCode = rs_StatusCode resp, resp_Headers = rs_Header resp, resp_Body = respBody,
                           resp_BodyLen = int (length respBody)\<rparr>
                          (rw_duration w) '''') None)))"

section \<open>The headers of a replay\<close>

lemma header_values_put: "header_values (put k vs h) k' = (if k' = k then vs else header_values h k')"
  by (simp add: header_values_def)

lemma header_values_filter: "header_values (filter (\<lambda>e. fst e \<noteq> k) h) k' = (if k' = k then [] else header_values h k')"
  by (simp add: header_values_def map_of_filter_key)

lemma header_values_Nil [simp]: "header_values [] k = []"
  by (simp add: header_values_def)

lemma header_values_add_values:
  "header_values (add_values h k vs) k' = header_values h k' @ (if k' = CanonicalHeaderKey k then vs else [])"
  by (induction h k vs rule: add_values.induct) (simp_all add: header_Add_def Let_def header_values_put)

definition recorded_values :: "header \<Rightarrow> string \<Rightarrow> string list" where
  "recorded_values headers k = concat (map snd (filter (\<lambda>e. CanonicalHeaderKey (fst e) = k) headers))"

lemma header_values_copy: "header_values (copy_headers h headers) k = header_values h k @ recorded_values headers k"
  by (induction h headers rule: copy_headers.induct) (auto simp: header_values_add_values recorded_values_def)

lemma header_values_remove:
  "header_values (remove_headers h ks) k = (if k \<in> CanonicalHeaderKey ` set ks then [] else header_values h k)"
  by (induction h ks rule: remove_headers.induct) (auto simp: header_Del_def header_values_filter)

lemma header_values_override:
  "header_values (override_headers h kvs) k =
     (case filter (\<lambda>e. CanonicalHeaderKey (fst e) = k) kvs of [] \<Rightarrow> header_values h k | es \<Rightarrow> [snd (last es)])"
  by (induction h kvs rule: override_headers.induct)
    (auto simp: header_Set_def header_values_put split: list.splits)

definition forwarded_headers :: "string list" where
  "forwarded_headers = [''X-Forwarded-For'', ''X-Forwarded-Host'', ''X-Forwarded-Proto'']"

lemma forwarded_canonical: "map CanonicalHeaderKey forwarded_headers = forwarded_headers"
  by (simp add: forwarded_headers_def CanonicalHeaderKey_def header_byte_def is_upper_def is_lower_def)

lemma TransformWithBody_values:
  assumes "TransformWithBody accepts req cfg body n = Some r"
  shows "header_values (og_Header r) k =
     (if k \<in> set forwarded_headers then []
      else case filter (\<lambda>e. CanonicalHeaderKey (fst e) = k) (tc_HeaderOverride cfg) of
             [] \<Rightarrow> if k \<in> CanonicalHeaderKey ` set (tc_HeaderRemove cfg) then [] else recorded_values (req_Headers req) k
           | es \<Rightarrow> [snd (last es)])"
proof -
  have canon: "CanonicalHeaderKey f = f" if "f \<in> set forwarded_headers" for f
    using forwarded_canonical that by (auto simp: forwarded_headers_def)
  have c3: "CanonicalHeaderKey ''X-Forwarded-For'' = ''X-Forwarded-For''" "CanonicalHeaderKey ''X-Forwarded-Host'' = ''X-Forwarded-Host''"
    "CanonicalHeaderKey ''X-Forwarded-Proto'' = ''X-Forwarded-Proto''"
    by (rule canon, simp add: forwarded_headers_def)+
  from assms have "header_values (og_Header r) k = header_values (header_Del (header_Del (header_Del
      (override_headers (remove_headers (copy_headers [] (req_Headers req)) (tc_HeaderRemove cfg)) (tc_HeaderOverride cfg))
        ''X-Forwarded-For'') ''X-Forwarded-Host'') ''X-Forwarded-Proto'') k"
    by (auto simp: TransformWithBody_def Let_def split: if_splits)
  then show ?thesis
    by (simp add: header_Del_def c3 header_values_filter header_values_override header_values_remove header_values_copy
        forwarded_headers_def del: filter_filter cong: list.case_cong)
qed

section \<open>The outcome of one replay\<close>

lemma retry_loop_first:
  assumes build: "buildReplayRequest accepts fs wp original = Inr req"
  shows "retry_loop accepts fs wp w original a n (do_request w a req) =
     (case find (\<lambda>i. \<not> isl (do_request w i req)) [a ..< a + Suc n] of
        Some i \<Rightarrow> do_request w i req
      | None \<Rightarrow> do_request w (a + n) req)"
proof (induction n arbitrary: a)
  case 0
  then show ?case by simp
next
  case (Suc n)
  have "[a ..< a + Suc (Suc n)] = a # [Suc a ..< Suc a + Suc n]" by (simp add: upt_rec)
  with Suc.IH [of "Suc a"] build show ?case
    by (cases "do_request w a req") (simp_all del: upt_Suc cong: option.case_cong)
qed

lemma replayOne_error: "rec_Error (rp_Replayed (replayOne etext accepts fs wp w r)) = '''' \<longleftrightarrow> rp_Error (replayOne etext accepts fs wp w r) = None"
proof -
  have ne: "replay_error_text etext e \<noteq> ''''" for e by (cases e) simp_all
  show ?thesis
    by (simp add: replayOne_def Let_def replayed_record_def ne split: sum.split)
qed

lemma replayOne_fixed:
  "rp_Original (replayOne etext accepts fs wp w r) = r"
  "rec_Sequence (rp_Replayed (replayOne etext accepts fs wp w r)) = rec_Sequence r"
  "rec_Request (rp_Replayed (replayOne etext accepts fs wp w r)) = rec_Request r"
  "rp_StartedAt (replayOne etext accepts fs wp w r) = rw_started w"
  "rp_FinishedAt (replayOne etext accepts fs wp w r) = rw_finished w"
  "rec_SideEffects (rp_Replayed (replayOne etext accepts fs wp w r)) = []"
  by (simp_all add: replayOne_def Let_def replayed_record_def split: sum.split)

section \<open>The pool\<close>

text \<open>
  The pool as a system: the producer sends the indices and closes the channel, each worker takes
  an index, replays its record and stores the result, and leaves when the channel is closed and
  empty. \<open>one i r\<close> is whether \<open>r\<close> is a possible result of replaying the record \<open>i\<close>.
\<close>

datatype worker = Idle | Busy nat | Left

record pool =
  pl_todo :: "nat list"
  pl_jobs :: "nat list"
  pl_closed :: bool
  pl_workers :: "worker list"
  pl_results :: "ReplayResult option list"

definition pool_init :: "nat \<Rightarrow> nat \<Rightarrow> pool" where
  "pool_init concurrency n =
     \<lparr>pl_todo = [0 ..< n], pl_jobs = [], pl_closed = False, pl_workers = replicate concurrency Idle,
      pl_results = replicate n None\<rparr>"

inductive pool_step :: "(nat \<Rightarrow> ReplayResult \<Rightarrow> bool) \<Rightarrow> pool \<Rightarrow> pool \<Rightarrow> bool" for one where
  Produce: "pl_todo s = i # is \<Longrightarrow> pool_step one s (s\<lparr>pl_todo := is, pl_jobs := pl_jobs s @ [i]\<rparr>)"
| CloseJobs: "pl_todo s = [] \<Longrightarrow> \<not> pl_closed s \<Longrightarrow> pool_step one s (s\<lparr>pl_closed := True\<rparr>)"
| Take: "w < length (pl_workers s) \<Longrightarrow> pl_workers s ! w = Idle \<Longrightarrow> pl_jobs s = i # is \<Longrightarrow>
    pool_step one s (s\<lparr>pl_jobs := is, pl_workers := (pl_workers s)[w := Busy i]\<rparr>)"
| Done: "w < length (pl_workers s) \<Longrightarrow> pl_workers s ! w = Busy i \<Longrightarrow> one i r \<Longrightarrow>
    pool_step one s (s\<lparr>pl_workers := (pl_workers s)[w := Idle], pl_results := (pl_results s)[i := Some r]\<rparr>)"
| Leave: "w < length (pl_workers s) \<Longrightarrow> pl_workers s ! w = Idle \<Longrightarrow> pl_closed s \<Longrightarrow> pl_jobs s = [] \<Longrightarrow>
    pool_step one s (s\<lparr>pl_workers := (pl_workers s)[w := Left]\<rparr>)"

text \<open>\<^verbatim>\<open>wg.Wait\<close> returns when every worker has left.\<close>

definition pool_done :: "pool \<Rightarrow> bool" where
  "pool_done s \<longleftrightarrow> pl_todo s = [] \<and> pl_closed s \<and> list_all (\<lambda>w. w = Left) (pl_workers s)"

text \<open>An index is in one place only: not sent, waiting, with a worker, or answered.\<close>

definition busy_jobs :: "worker list \<Rightarrow> nat list" where
  "busy_jobs ws = concat (map (\<lambda>w. case w of Busy i \<Rightarrow> [i] | _ \<Rightarrow> []) ws)"

definition answered :: "ReplayResult option list \<Rightarrow> nat list" where
  "answered rs = filter (\<lambda>i. rs ! i \<noteq> None) [0 ..< length rs]"

definition pool_inv :: "nat \<Rightarrow> (nat \<Rightarrow> ReplayResult \<Rightarrow> bool) \<Rightarrow> pool \<Rightarrow> bool" where
  "pool_inv n one s \<longleftrightarrow>
     length (pl_results s) = n
     \<and> mset (pl_todo s) + mset (pl_jobs s) + mset (busy_jobs (pl_workers s)) + mset (answered (pl_results s)) = mset [0 ..< n]
     \<and> (pl_closed s \<longrightarrow> pl_todo s = [])
     \<and> (\<forall>i r. i < n \<longrightarrow> pl_results s ! i = Some r \<longrightarrow> one i r)
     \<and> (Left \<in> set (pl_workers s) \<longrightarrow> pl_closed s \<and> pl_jobs s = [])"

lemma mset_busy_update:
  "w < length ws \<Longrightarrow> mset (busy_jobs (ws[w := x])) + mset (busy_jobs [ws ! w]) = mset (busy_jobs ws) + mset (busy_jobs [x])"
proof (induction ws arbitrary: w)
  case (Cons a ws)
  then show ?case by (cases w) (simp_all add: busy_jobs_def)
qed simp

lemma answered_iff: "i \<in> set (answered rs) \<longleftrightarrow> i < length rs \<and> rs ! i \<noteq> None"
  by (auto simp: answered_def)

lemma mset_answered_update:
  assumes "i < length rs" "rs ! i = None"
  shows "mset (answered (rs[i := Some r])) = mset (answered rs) + {#i#}"
proof -
  have "set (answered (rs[i := Some r])) = insert i (set (answered rs))"
    using assms by (auto simp: answered_iff nth_list_update split: if_splits)
  moreover have "distinct (answered xs)" for xs by (simp add: answered_def)
  moreover have "i \<notin> set (answered rs)" using assms by (simp add: answered_iff)
  ultimately have "mset (answered (rs[i := Some r])) = mset (i # answered rs)"
    by (intro set_eq_iff_mset_eq_distinct [THEN iffD1]) auto
  then show ?thesis by simp
qed

lemma pool_inv_init: "pool_inv n one (pool_init c n)"
proof -
  have "busy_jobs (replicate c Idle) = []" by (simp add: busy_jobs_def)
  moreover have "answered (replicate n None) = []" by (simp add: answered_def filter_empty_conv)
  ultimately show ?thesis by (simp add: pool_inv_def pool_init_def)
qed

lemma pool_inv_step:
  assumes "pool_step one s s'" "pool_inv n one s"
  shows "pool_inv n one s'"
  using assms
proof (induction rule: pool_step.induct)
  case (Take w s i "is")
  from mset_busy_update [OF Take(1), of "Busy i"] Take(2)
  have b: "mset (busy_jobs ((pl_workers s)[w := Busy i])) = mset (busy_jobs (pl_workers s)) + {#i#}" by (simp add: busy_jobs_def)
  have "Left \<in> set ((pl_workers s)[w := Busy i]) \<Longrightarrow> Left \<in> set (pl_workers s)"
    using set_update_subset_insert [of "pl_workers s" w "Busy i"] by auto
  with Take b show ?case by (auto simp: pool_inv_def)
next
  case (Done w s i r)
  have "Busy i \<in> set (pl_workers s)" using Done(1,2) nth_mem by fastforce
  then have "i \<in> set (busy_jobs (pl_workers s))" by (force simp: busy_jobs_def)
  then have busy: "1 \<le> count (mset (busy_jobs (pl_workers s))) i" by (simp add: Suc_le_eq)
  have total: "mset (pl_todo s) + mset (pl_jobs s) + mset (busy_jobs (pl_workers s)) + mset (answered (pl_results s)) = mset [0 ..< n]"
    and len: "length (pl_results s) = n" using Done.prems by (simp_all add: pool_inv_def)
  have once: "count (mset [0 ..< n]) i \<le> 1"
    using distinct_count_atmost_1 [of "[0 ..< n]"] by (simp add: le_Suc_eq split: if_splits)
  then have "count (mset (answered (pl_results s))) i = 0"
    using busy unfolding total [symmetric] count_union by linarith
  then have ans: "i \<notin> set (answered (pl_results s))" by (simp add: count_eq_zero_iff)
  have "i \<in># mset [0 ..< n]" unfolding total [symmetric] using busy by (simp add: count_greater_zero_iff flip: Suc_le_eq)
  then have i: "i < n" by simp
  with ans len have none: "pl_results s ! i = None" by (simp add: answered_iff)
  from mset_busy_update [OF Done(1), of Idle] Done(2)
  have b: "mset (busy_jobs ((pl_workers s)[w := Idle])) + {#i#} = mset (busy_jobs (pl_workers s))" by (simp add: busy_jobs_def)
  have a: "mset (answered ((pl_results s)[i := Some r])) = mset (answered (pl_results s)) + {#i#}"
    using i len none by (intro mset_answered_update) simp_all
  have "Left \<in> set ((pl_workers s)[w := Idle]) \<Longrightarrow> Left \<in> set (pl_workers s)"
    using set_update_subset_insert [of "pl_workers s" w Idle] by auto
  moreover have "one j r'" if "j < n" "(pl_results s)[i := Some r] ! j = Some r'" for j r'
    using that Done.prems Done(3) len by (cases "i = j") (auto simp: pool_inv_def)
  moreover have "mset (pl_todo s) + mset (pl_jobs s) + mset (busy_jobs ((pl_workers s)[w := Idle]))
      + mset (answered ((pl_results s)[i := Some r])) = mset [0 ..< n]"
    unfolding a total [symmetric] b [symmetric] by (simp add: ac_simps)
  ultimately show ?case using Done.prems len by (simp add: pool_inv_def)
next
  case (Leave w s)
  from mset_busy_update [OF Leave(1), of Left] Leave(2)
  have "mset (busy_jobs ((pl_workers s)[w := Left])) = mset (busy_jobs (pl_workers s))" by (simp add: busy_jobs_def)
  with Leave show ?case by (auto simp: pool_inv_def)
qed (auto simp: pool_inv_def)

section \<open>The pool ends, with every record replayed\<close>

fun worker_weight :: "worker \<Rightarrow> nat" where
  "worker_weight Idle = 1"
| "worker_weight (Busy i) = 3"
| "worker_weight Left = 0"

definition pool_measure :: "pool \<Rightarrow> nat" where
  "pool_measure s = 4 * length (pl_todo s) + 3 * length (pl_jobs s) + (if pl_closed s then 0 else 1)
     + sum_list (map worker_weight (pl_workers s))"

lemma weight_update:
  "w < length ws \<Longrightarrow> sum_list (map worker_weight (ws[w := x])) + worker_weight (ws ! w) = sum_list (map worker_weight ws) + worker_weight x"
proof (induction ws arbitrary: w)
  case (Cons a ws)
  then show ?case by (cases w) auto
qed simp

lemma pool_step_decreases: "pool_step one s s' \<Longrightarrow> pool_measure s' < pool_measure s"
proof (induction rule: pool_step.induct)
  case (Take w s i "is")
  with weight_update [of w "pl_workers s" "Busy i"] show ?case by (simp add: pool_measure_def)
next
  case (Done w s i r)
  with weight_update [of w "pl_workers s" Idle] show ?case by (simp add: pool_measure_def)
next
  case (Leave w s)
  with weight_update [of w "pl_workers s" Left] show ?case by (simp add: pool_measure_def)
qed (simp_all add: pool_measure_def)

lemma pool_step_wf: "wfP (\<lambda>s' s. pool_step one s s')"
  by (rule wfp_if_convertible_to_nat [of _ pool_measure]) (rule pool_step_decreases)

lemma pool_step_workers: "pool_step one s s' \<Longrightarrow> length (pl_workers s') = length (pl_workers s)"
  by (induction rule: pool_step.induct) simp_all

lemma busy_in_range: "pool_inv n one s \<Longrightarrow> Busy i \<in> set (pl_workers s) \<Longrightarrow> i < n"
proof -
  assume inv: "pool_inv n one s" and b: "Busy i \<in> set (pl_workers s)"
  from b have "i \<in> set (busy_jobs (pl_workers s))" by (force simp: busy_jobs_def)
  then have "i \<in># mset (pl_todo s) + mset (pl_jobs s) + mset (busy_jobs (pl_workers s)) + mset (answered (pl_results s))" by simp
  then have "i \<in># mset [0 ..< n]" using inv by (simp only: pool_inv_def)
  then show "i < n" by simp
qed

lemma pool_progress:
  assumes inv: "pool_inv n one s" and total: "\<forall>i<n. \<exists>r. one i r" and nd: "\<not> pool_done s"
  shows "\<exists>s'. pool_step one s s'"
proof (cases "pl_todo s")
  case (Cons i "is")
  then show ?thesis by (blast intro: pool_step.Produce)
next
  case todo: Nil
  show ?thesis
  proof (cases "pl_closed s")
    case False
    with todo show ?thesis by (blast intro: pool_step.CloseJobs)
  next
    case closed: True
    with todo nd obtain w where w: "w < length (pl_workers s)" "pl_workers s ! w \<noteq> Left"
      by (auto simp: pool_done_def list_all_length)
    show ?thesis
    proof (cases "pl_workers s ! w")
      case Idle
      show ?thesis
      proof (cases "pl_jobs s")
        case Nil
        with w Idle closed show ?thesis by (blast intro: pool_step.Leave)
      next
        case (Cons i "is")
        with w Idle show ?thesis by (blast intro: pool_step.Take)
      qed
    next
      case (Busy i)
      with w have "Busy i \<in> set (pl_workers s)" using nth_mem by fastforce
      with total inv obtain r where "one i r" using busy_in_range by blast
      with w Busy show ?thesis by (blast intro: pool_step.Done)
    qed (use w in simp)
  qed
qed

lemma pool_done_answers:
  assumes inv: "pool_inv n one s" and "pool_done s" and "pl_workers s \<noteq> []"
  shows "\<forall>i<n. \<exists>r. pl_results s ! i = Some r \<and> one i r"
proof -
  have left: "Left \<in> set (pl_workers s)" using assms(2,3) by (cases "pl_workers s") (auto simp: pool_done_def)
  have "busy_jobs (pl_workers s) = []" using assms(2) by (auto simp: pool_done_def busy_jobs_def list_all_iff)
  with left inv assms(2) have "mset (answered (pl_results s)) = mset [0 ..< n]"
    by (auto simp: pool_inv_def pool_done_def)
  then have "set (answered (pl_results s)) = {0 ..< n}" by (metis set_mset_mset set_upt)
  then have "i \<in> set (answered (pl_results s))" if "i < n" for i using that by simp
  then have "pl_results s ! i \<noteq> None" if "i < n" for i using that by (simp only: answered_iff not_False_eq_True)
  moreover have "\<forall>i r. i < n \<longrightarrow> pl_results s ! i = Some r \<longrightarrow> one i r" using inv by (simp add: pool_inv_def)
  ultimately show ?thesis by (metis not_None_eq)
qed

lemma pool_run_inv:
  "(pool_step one)\<^sup>*\<^sup>* (pool_init c n) s \<Longrightarrow> pool_inv n one s \<and> length (pl_workers s) = c"
proof (induction rule: rtranclp_induct)
  case base
  then show ?case using pool_inv_init by (simp add: pool_init_def)
next
  case (step s s')
  then show ?case using pool_inv_step pool_step_workers by fastforce
qed

section \<open>Executing a batch\<close>

text \<open>
  The results of a batch in the order of its records, each replay with its own circumstances. With
  one worker the code replays them in order; the results of a pool are these for some circumstances.
\<close>

definition Execute ::
  "(storage_error \<Rightarrow> string) \<Rightarrow> (string \<Rightarrow> string \<Rightarrow> bool) \<Rightarrow> fs \<Rightarrow> WorkerPool \<Rightarrow> (nat \<Rightarrow> replay_world) \<Rightarrow> Record list \<Rightarrow> ReplayResult list" where
  "Execute etext accepts fs wp w records =
     map (\<lambda>i. replayOne etext accepts fs wp (w i) (records ! i)) [0 ..< length records]"

definition replay_of ::
  "(storage_error \<Rightarrow> string) \<Rightarrow> (string \<Rightarrow> string \<Rightarrow> bool) \<Rightarrow> fs \<Rightarrow> WorkerPool \<Rightarrow> Record list \<Rightarrow> nat \<Rightarrow> ReplayResult \<Rightarrow> bool" where
  "replay_of etext accepts fs wp records i r \<longleftrightarrow> (\<exists>w. r = replayOne etext accepts fs wp w (records ! i))"

lemma pool_executes:
  assumes run: "(pool_step (replay_of etext accepts fs wp records))\<^sup>*\<^sup>* (pool_init c (length records)) s"
    and c: "0 < c" and stuck: "\<nexists>s'. pool_step (replay_of etext accepts fs wp records) s s'"
  shows "pool_done s \<and> (\<exists>w. pl_results s = map Some (Execute etext accepts fs wp w records))"
proof -
  let ?one = "replay_of etext accepts fs wp records"
  from pool_run_inv [OF run] have inv: "pool_inv (length records) ?one s" and len: "length (pl_workers s) = c" by simp_all
  have "\<forall>i<length records. \<exists>r. ?one i r" by (auto simp: replay_of_def)
  with inv stuck have d: "pool_done s" using pool_progress by blast
  moreover have ne: "pl_workers s \<noteq> []" using c len by auto
  ultimately have all: "\<forall>i<length records. \<exists>r. pl_results s ! i = Some r \<and> ?one i r" using inv pool_done_answers by blast
  then have "\<forall>i. \<exists>w. i < length records \<longrightarrow> pl_results s ! i = Some (replayOne etext accepts fs wp w (records ! i))"
    by (auto simp: replay_of_def)
  then obtain w where w: "\<And>i. i < length records \<Longrightarrow> pl_results s ! i = Some (replayOne etext accepts fs wp (w i) (records ! i))"
    by metis
  have "pl_results s = map Some (Execute etext accepts fs wp w records)"
    using inv w by (intro nth_equalityI) (simp_all add: pool_inv_def Execute_def)
  with d show ?thesis by blast
qed

section \<open>The engine\<close>

text \<open>
  The channel of side effects is its contents and whether it is closed; \<open>None\<close> is the nil channel.
\<close>

record ReplayEngine =
  re_store :: FileStore
  re_sessionID :: string
  re_pool :: WorkerPool
  re_sideEffectCh :: "(SideEffect list \<times> bool) option"
  re_pending :: "SideEffect list"

definition NewReplayEngine ::
  "FileStore \<Rightarrow> string \<Rightarrow> string \<Rightarrow> int \<Rightarrow> int \<Rightarrow> int \<Rightarrow> (SideEffect list \<times> bool) option \<Rightarrow> ReplayEngine" where
  "NewReplayEngine store sessionID targetURL cfgConcurrency cfgTimeout retryCount sideEffectCh =
     (let transform = \<lparr>tc_TargetBaseURL = targetURL, tc_HeaderOverride = [], tc_HeaderRemove = []\<rparr>;
          timeout = (if cfgTimeout = 0 then 30 * 1000000000 else cfgTimeout);
          concurrency = (if cfgConcurrency \<le> 0 then 1 else cfgConcurrency)
      in \<lparr>re_store = store, re_sessionID = sessionID,
          re_pool = NewWorkerPool (Some store) concurrency timeout retryCount transform,
          re_sideEffectCh = sideEffectCh, re_pending = []\<rparr>)"

definition replay_drain :: "ReplayEngine \<Rightarrow> ReplayEngine" where
  "replay_drain e =
     (case re_sideEffectCh e of
        None \<Rightarrow> e
      | Some (effects, shut) \<Rightarrow>
          e\<lparr>re_pending := re_pending e @ effects, re_sideEffectCh := (if shut then None else Some ([], False))\<rparr>)"

text \<open>What matches the window, and what is kept for later; older effects are dropped.\<close>

fun window_loop :: "int \<Rightarrow> int \<Rightarrow> SideEffect list \<Rightarrow> SideEffect list \<times> SideEffect list" where
  "window_loop startedAt finishedAt [] = ([], [])"
| "window_loop startedAt finishedAt (effect # effects) =
     (let (matched, kept) = window_loop startedAt finishedAt effects
      in if se_Timestamp effect < startedAt then (matched, kept)
         else if se_Timestamp effect \<le> finishedAt then (effect # matched, kept)
         else (matched, effect # kept))"

definition takeSideEffectsWindow :: "ReplayEngine \<Rightarrow> int \<Rightarrow> int \<Rightarrow> SideEffect list \<times> ReplayEngine" where
  "takeSideEffectsWindow e startedAt finishedAt =
     (let e = replay_drain e;
          (matched, kept) = window_loop startedAt finishedAt (re_pending e)
      in (matched, e\<lparr>re_pending := kept\<rparr>))"

definition dropPendingSideEffects :: "ReplayEngine \<Rightarrow> ReplayEngine" where
  "dropPendingSideEffects e = (replay_drain e)\<lparr>re_pending := []\<rparr>"

text \<open>Effects that reach the channel; nothing can be sent to a closed or a nil one.\<close>

definition receive_effects :: "SideEffect list \<Rightarrow> ReplayEngine \<Rightarrow> ReplayEngine" where
  "receive_effects effects e =
     (case re_sideEffectCh e of
        Some (ch, False) \<Rightarrow> e\<lparr>re_sideEffectCh := Some (ch @ effects, False)\<rparr>
      | _ \<Rightarrow> e)"

text \<open>
  The records one after the other, each with its circumstances and with the effects that reach the
  channel until its flush has returned.
\<close>

fun executeSequentialWithSideEffects ::
  "(storage_error \<Rightarrow> string) \<Rightarrow> (string \<Rightarrow> string \<Rightarrow> bool) \<Rightarrow> fs \<Rightarrow> ReplayEngine \<Rightarrow> (replay_world \<times> SideEffect list) list \<Rightarrow> Record list
   \<Rightarrow> ReplayResult list \<times> ReplayEngine" where
  "executeSequentialWithSideEffects etext accepts fs e ((w, arrivals) # ws) (r # records) =
     (let result = replayOne etext accepts fs (re_pool e) w r;
          e = receive_effects arrivals e;
          (effects, e) = takeSideEffectsWindow e (rp_StartedAt result) (rp_FinishedAt result);
          result = result\<lparr>rp_Replayed := (rp_Replayed result)\<lparr>rec_SideEffects := effects\<rparr>\<rparr>;
          (results, e) = executeSequentialWithSideEffects etext accepts fs e ws records
      in (result # results, e))"
| "executeSequentialWithSideEffects etext accepts fs e _ _ = ([], e)"

datatype replay_run_error = ReadRecordsFailed storage_error | NoRecordedRecords string | NeedsSequential

text \<open>Errors while saving are logged only.\<close>

fun save_replays :: "json_codec \<Rightarrow> FileStore \<Rightarrow> fs \<Rightarrow> string \<Rightarrow> ReplayResult list \<Rightarrow> fs" where
  "save_replays json st fs sessionID [] = fs"
| "save_replays json st fs sessionID (r # results) =
     save_replays json st (fst (AppendReplayRecord json st fs sessionID (rp_Replayed r))) sessionID results"

definition Replay_Run ::
  "json_codec \<Rightarrow> (storage_error \<Rightarrow> string) \<Rightarrow> (string \<Rightarrow> string \<Rightarrow> bool) \<Rightarrow> (nat \<Rightarrow> replay_world \<times> SideEffect list) \<Rightarrow> fs \<Rightarrow> ReplayEngine
   \<Rightarrow> fs \<times> ReplayEngine \<times> (replay_run_error + ReplayResult list)" where
  "Replay_Run json etext accepts w fs e =
     (case ListRecords json (re_store e) fs (re_sessionID e) of
        (records, Some err) \<Rightarrow> (fs, e, Inl (ReadRecordsFailed err))
      | (records, None) \<Rightarrow>
          if records = [] then (fs, e, Inl (NoRecordedRecords (re_sessionID e)))
          else if re_sideEffectCh e \<noteq> None \<and> wp_concurrency (re_pool e) > 1 then (fs, e, Inl NeedsSequential)
          else
            let (results, e') =
                  (if re_sideEffectCh e \<noteq> None then
                     (let (results, e') = executeSequentialWithSideEffects etext accepts fs e (map w [0 ..< length records]) records
                      in (results, dropPendingSideEffects e'))
                   else (Execute etext accepts fs (re_pool e) (\<lambda>i. fst (w i)) records, e))
            in (save_replays json (re_store e) fs (re_sessionID e) results, e', Inr results))"

section \<open>Side effects of a run\<close>

lemma window_loop_filter:
  "window_loop s f es = (filter (\<lambda>e. s \<le> se_Timestamp e \<and> se_Timestamp e \<le> f) es, filter (\<lambda>e. s \<le> se_Timestamp e \<and> f < se_Timestamp e) es)"
  by (induction es) (auto simp: Let_def)

definition pending_of :: "ReplayEngine \<Rightarrow> SideEffect list" where
  "pending_of e = re_pending e @ (case re_sideEffectCh e of Some (ch, c) \<Rightarrow> ch | None \<Rightarrow> [])"

lemma takeSideEffectsWindow_spec:
  "takeSideEffectsWindow e s f = (effects, e') \<Longrightarrow>
     effects = filter (\<lambda>x. s \<le> se_Timestamp x \<and> se_Timestamp x \<le> f) (pending_of e)
     \<and> pending_of e' = filter (\<lambda>x. s \<le> se_Timestamp x \<and> f < se_Timestamp x) (pending_of e)
     \<and> re_pool e' = re_pool e \<and> re_store e' = re_store e \<and> re_sessionID e' = re_sessionID e
     \<and> (re_sideEffectCh e = Some (ch, False) \<longrightarrow> re_sideEffectCh e' = Some ([], False))"
  by (auto simp: takeSideEffectsWindow_def replay_drain_def window_loop_filter Let_def pending_of_def split: option.splits if_splits)

text \<open>The effects of each record, for given windows and arrivals and what is pending before.\<close>

fun windowed :: "SideEffect list \<Rightarrow> (int \<times> int \<times> SideEffect list) list \<Rightarrow> SideEffect list list" where
  "windowed pending [] = []"
| "windowed pending ((s, f, arrivals) # ws) =
     (let seen = pending @ arrivals
      in filter (\<lambda>x. s \<le> se_Timestamp x \<and> se_Timestamp x \<le> f) seen
         # windowed (filter (\<lambda>x. s \<le> se_Timestamp x \<and> f < se_Timestamp x) seen) ws)"

lemma disjoint_filters: "(\<And>x. \<not> (P x \<and> Q x)) \<Longrightarrow> mset (filter P xs) + mset (filter Q xs) \<subseteq># mset xs"
  by (rule mset_subset_eqI) (auto simp: mset_filter)

lemma windowed_conserved:
  "mset (concat (windowed pending ws)) \<subseteq># mset pending + mset (concat (map (\<lambda>(s, f, arrivals). arrivals) ws))"
proof (induction pending ws rule: windowed.induct)
  case (2 pending s f arrivals ws)
  let ?seen = "pending @ arrivals"
  let ?in = "filter (\<lambda>x. s \<le> se_Timestamp x \<and> se_Timestamp x \<le> f) ?seen"
  let ?kept = "filter (\<lambda>x. s \<le> se_Timestamp x \<and> f < se_Timestamp x) ?seen"
  let ?rest = "mset (concat (map (\<lambda>(s, f, arrivals). arrivals) ws))"
  have "mset (concat (windowed ?kept ws)) \<subseteq># mset ?kept + ?rest" using 2 by simp
  then have "mset ?in + mset (concat (windowed ?kept ws)) \<subseteq># mset ?in + (mset ?kept + ?rest)"
    by (rule subset_mset.add_left_mono)
  also have "\<dots> = (mset ?in + mset ?kept) + ?rest" by (simp add: ac_simps)
  also have "\<dots> \<subseteq># mset ?seen + ?rest"
    by (intro subset_mset.add_right_mono disjoint_filters) auto
  finally show ?case by (simp add: ac_simps)
qed simp

lemma windowed_length [simp]: "length (windowed pending ws) = length ws"
  by (induction pending ws rule: windowed.induct) (simp_all add: Let_def)

lemma windowed_in_window:
  "i < length ws \<Longrightarrow> ws ! i = (s, f, arrivals) \<Longrightarrow> x \<in> set (windowed pending ws ! i) \<Longrightarrow> s \<le> se_Timestamp x \<and> se_Timestamp x \<le> f"
proof (induction pending ws arbitrary: i rule: windowed.induct)
  case (2 pending s' f' arrivals' ws)
  then show ?case by (cases i) (auto simp: Let_def)
qed simp

definition replay_windows :: "(replay_world \<times> SideEffect list) list \<Rightarrow> (int \<times> int \<times> SideEffect list) list" where
  "replay_windows ws = map (\<lambda>(w, arrivals). (rw_started w, rw_finished w, arrivals)) ws"

definition with_replay_effects :: "ReplayResult \<Rightarrow> SideEffect list \<Rightarrow> ReplayResult" where
  "with_replay_effects r es = r\<lparr>rp_Replayed := (rp_Replayed r)\<lparr>rec_SideEffects := es\<rparr>\<rparr>"

lemma executeSequential_results:
  assumes "re_sideEffectCh e = Some (ch, False)" "length ws = length records"
  shows "fst (executeSequentialWithSideEffects etext accepts fs e ws records) =
     map2 with_replay_effects (map2 (\<lambda>w r. replayOne etext accepts fs (re_pool e) w r) (map fst ws) records)
       (windowed (pending_of e) (replay_windows ws))"
  using assms
proof (induction etext accepts fs e ws records arbitrary: ch rule: executeSequentialWithSideEffects.induct)
  case (1 etext accepts fs e w arrivals ws r records)
  let ?result = "replayOne etext accepts fs (re_pool e) w r"
  let ?e1 = "receive_effects arrivals e"
  obtain effects e2 where take: "takeSideEffectsWindow ?e1 (rw_started w) (rw_finished w) = (effects, e2)" by fastforce
  have e1: "re_sideEffectCh ?e1 = Some (ch @ arrivals, False)" "pending_of ?e1 = pending_of e @ arrivals" "re_pool ?e1 = re_pool e"
    using "1.prems"(1) by (simp_all add: receive_effects_def pending_of_def)
  from takeSideEffectsWindow_spec [OF take, of "ch @ arrivals"] e1
  have e2: "effects = filter (\<lambda>x. rw_started w \<le> se_Timestamp x \<and> se_Timestamp x \<le> rw_finished w) (pending_of e @ arrivals)"
    "pending_of e2 = filter (\<lambda>x. rw_started w \<le> se_Timestamp x \<and> rw_finished w < se_Timestamp x) (pending_of e @ arrivals)"
    "re_pool e2 = re_pool e" "re_sideEffectCh e2 = Some ([], False)" by simp_all
  have IH: "fst (executeSequentialWithSideEffects etext accepts fs e2 ws records) =
     map2 with_replay_effects (map2 (\<lambda>w r. replayOne etext accepts fs (re_pool e2) w r) (map fst ws) records)
       (windowed (pending_of e2) (replay_windows ws))"
    using "1.IH" [OF refl refl _ refl refl e2(4)] take "1.prems"(2) by (simp add: replayOne_fixed)
  show ?case
    by (simp add: Let_def case_prod_beta replayOne_fixed take IH e2(3) replay_windows_def with_replay_effects_def)
      (simp add: e2 case_prod_unfold)
qed (auto simp: replay_windows_def)

lemma save_replays_spec:
  assumes "records_inv st sid ''replay-records.jsonl'' fs" "list_all (\<lambda>r. record_ok json (rp_Replayed r)) results"
  shows "records_inv st sid ''replay-records.jsonl'' (save_replays json st fs sid results)
     \<and> ListReplayRecords json st (save_replays json st fs sid results) sid
         = (fst (ListReplayRecords json st fs sid) @ map rp_Replayed results, None)
     \<and> (\<forall>q. q \<noteq> store_baseDir st @ [sid, ''replay-records.jsonl''] \<longrightarrow> map_of (save_replays json st fs sid results) q = map_of fs q)"
  using assms
proof (induction results arbitrary: fs)
  case Nil
  with listRecords_no_error [of st sid "''replay-records.jsonl''" fs json] show ?case
    by (simp add: ListReplayRecords_def prod_eq_iff)
next
  case (Cons r results)
  from Cons.prems(2) have okr: "record_ok json (rp_Replayed r)" by simp
  from append_step_spec [OF Cons.prems(1) okr] obtain fs' where
    fs': "append_step json st sid ''replay-records.jsonl'' fs (rp_Replayed r) = Some fs'" "records_inv st sid ''replay-records.jsonl'' fs'"
      "listRecords json st fs' sid ''replay-records.jsonl'' = (fst (listRecords json st fs sid ''replay-records.jsonl'') @ [rp_Replayed r], None)"
      "\<forall>q. q \<noteq> store_baseDir st @ [sid, ''replay-records.jsonl''] \<longrightarrow> map_of fs' q = map_of fs q" by blast
  have "AppendReplayRecord json st fs sid (rp_Replayed r) = (fs', None)"
    using fs'(1) by (auto simp: append_step_def AppendReplayRecord_def split: prod.splits option.splits)
  then have save: "save_replays json st fs sid (r # results) = save_replays json st fs' sid results" by simp
  have ok: "list_all (\<lambda>r. record_ok json (rp_Replayed r)) results" using Cons.prems(2) by simp
  have list: "fst (ListReplayRecords json st fs' sid) = fst (ListReplayRecords json st fs sid) @ [rp_Replayed r]"
    using fs'(3) by (simp add: ListReplayRecords_def)
  have frame: "map_of fs' q = map_of fs q" if "q \<noteq> store_baseDir st @ [sid, ''replay-records.jsonl'']" for q using fs'(4) that by blast
  note IH = Cons.IH [OF fs'(2) ok]
  have "ListReplayRecords json st (save_replays json st fs' sid results) sid
       = (fst (ListReplayRecords json st fs sid) @ map rp_Replayed (r # results), None)"
    using IH by (simp only: list list.map append_assoc append.simps)
  moreover have "\<forall>q. q \<noteq> store_baseDir st @ [sid, ''replay-records.jsonl''] \<longrightarrow> map_of (save_replays json st fs' sid results) q = map_of fs q"
    using IH frame by metis
  ultimately show ?case unfolding save using IH by blast
qed

section \<open>Properties\<close>

text \<open>
  The headers of a replayed request: the values recorded under any spelling of the key, in
  the order of the record, unless the key is removed, which yields none, or overridden, which
  yields the last override alone; the three headers that proxies add are never sent. Method, URL,
  body and length are those given.
\<close>

theorem TransformWithBody_correct:
  assumes "TransformWithBody accepts req cfg body n = Some r"
  shows "header_values (og_Header r) k =
     (if k \<in> set forwarded_headers then []
      else case filter (\<lambda>e. CanonicalHeaderKey (fst e) = k) (tc_HeaderOverride cfg) of
             [] \<Rightarrow> if k \<in> CanonicalHeaderKey ` set (tc_HeaderRemove cfg) then [] else recorded_values (req_Headers req) k
           | es \<Rightarrow> [snd (last es)])
     \<and> og_Body r = body \<and> og_ContentLength r = n \<and> og_URL r = request_url cfg req"
  using TransformWithBody_values [OF assms] assms by (auto simp: TransformWithBody_def Let_def split: if_splits)

theorem TransformWithBody_correct_witness:
  "header_values (og_Header (the (TransformWithBody (\<lambda>m u. True)
       \<lparr>req_Method = '''', req_Path = ''/a'', req_Query = ''q=1'', req_Headers = [(''x-id'', [''1'', ''2'']), (''Host'', [''h''])],
        req_Body = [], req_BodyRef = '''', req_BodyLen = 0\<rparr>
       \<lparr>tc_TargetBaseURL = ''http://t'', tc_HeaderOverride = [(''HOST'', ''new'')], tc_HeaderRemove = []\<rparr> ''b'' 1))) ''X-Id'' = [''1'', ''2'']"
proof -
  let ?req = "\<lparr>req_Method = '''', req_Path = ''/a'', req_Query = ''q=1'', req_Headers = [(''x-id'', [''1'', ''2'']), (''Host'', [''h''])],
        req_Body = [], req_BodyRef = '''', req_BodyLen = 0\<rparr>"
  let ?cfg = "\<lparr>tc_TargetBaseURL = ''http://t'', tc_HeaderOverride = [(''HOST'', ''new'')], tc_HeaderRemove = []\<rparr>"
  obtain r where r: "TransformWithBody (\<lambda>m u. True) ?req ?cfg ''b'' 1 = Some r" by (simp add: TransformWithBody_def Let_def)
  have "header_values (og_Header r) ''X-Id'' = [''1'', ''2'']"
    using conjunct1 [OF TransformWithBody_correct [OF r, of "''X-Id''"]]
    by (simp add: forwarded_headers_def recorded_values_def CanonicalHeaderKey_def header_byte_def is_upper_def is_lower_def char_of_def bit_0)
  with r show ?thesis by simp
qed

text \<open>
  C33. One replay: the request is sent until an attempt succeeds, at most as often as the retries
  allow and once more; the response is that of the first attempt that succeeds, else the error is
  that of the last. The replayed record has an error text exactly when the replay failed, and keeps
  the sequence number and the request of the original.
\<close>

theorem replayOne_correct:
  assumes "buildReplayRequest accepts fs wp original = Inr req" and "n = nat (wp_retryCount wp)"
    and "outcome = (case find (\<lambda>i. \<not> isl (do_request w i req)) [0 ..< Suc n] of
                      Some i \<Rightarrow> do_request w i req | None \<Rightarrow> do_request w n req)"
    and "res = replayOne etext accepts fs wp w original"
  shows "rp_Original res = original \<and> rec_Sequence (rp_Replayed res) = rec_Sequence original
     \<and> rec_Request (rp_Replayed res) = rec_Request original
     \<and> (rec_Error (rp_Replayed res) = '''' \<longleftrightarrow> rp_Error res = None)
     \<and> (case outcome of
          Inl e \<Rightarrow> rp_Error res = Some e
        | Inr resp \<Rightarrow> resp_StatusCode (rec_Response (rp_Replayed res)) = rs_StatusCode resp
            \<and> resp_Headers (rec_Response (rp_Replayed res)) = rs_Header resp
            \<and> (case rs_Body resp of
                 Inl msg \<Rightarrow> rp_Error res = Some (ReadBodyFailed msg)
               | Inr body \<Rightarrow> rp_Error res = None \<and> resp_Body (rec_Response (rp_Replayed res)) = body))"
proof -
  have "retry_loop accepts fs wp w original 0 n (do_request w 0 req) = outcome"
    unfolding assms(3) using retry_loop_first [OF assms(1), of w 0 n] by (simp only: add_0)
  then have "replayOne etext accepts fs wp w original = (case outcome of
      Inl e \<Rightarrow> \<lparr>rp_Original = original, rp_Replayed = replayed_record w original no_response (rw_duration w) (replay_error_text etext e),
                rp_Error = Some e, rp_StartedAt = rw_started w, rp_FinishedAt = rw_finished w\<rparr>
    | Inr resp \<Rightarrow> (case rs_Body resp of
        Inl msg \<Rightarrow> \<lparr>rp_Original = original, rp_Replayed = replayed_record w original
            \<lparr>resp_StatusCode = rs_StatusCode resp, resp_Headers = rs_Header resp, resp_Body = [], resp_BodyLen = 0\<rparr>
            (rw_duration w) (replay_error_text etext (ReadBodyFailed msg)),
            rp_Error = Some (ReadBodyFailed msg), rp_StartedAt = rw_started w, rp_FinishedAt = rw_finished w\<rparr>
      | Inr body \<Rightarrow> \<lparr>rp_Original = original, rp_Replayed = replayed_record w original
            \<lparr>resp_StatusCode = rs_StatusCode resp, resp_Headers = rs_Header resp, resp_Body = body, resp_BodyLen = int (length body)\<rparr>
            (rw_duration w) '''', rp_Error = None, rp_StartedAt = rw_started w, rp_FinishedAt = rw_finished w\<rparr>))"
    using assms(1,2) by (simp add: replayOne_def Let_def)
  with replayOne_fixed [of etext accepts fs wp w original] replayOne_error [of etext accepts fs wp w original] show ?thesis
    unfolding assms(4) by (auto simp: replayed_record_def split: sum.splits)
qed

text \<open>
  C34. The pool of workers: whatever the number of workers and however they and the producer
  interleave, no run goes on for ever, and where a run can go no further every worker has left and
  the results are a replay of each record, in the order of the records.
\<close>

theorem pool_complete:
  assumes "0 < c"
  shows "wfP (\<lambda>s' s. pool_step (replay_of etext accepts fs wp records) s s')
     \<and> (\<forall>s. (pool_step (replay_of etext accepts fs wp records))\<^sup>*\<^sup>* (pool_init c (length records)) s
          \<longrightarrow> (\<nexists>s'. pool_step (replay_of etext accepts fs wp records) s s')
          \<longrightarrow> pool_done s \<and> (\<exists>w. pl_results s = map Some (Execute etext accepts fs wp w records)))"
  using pool_step_wf pool_executes [OF _ assms] by blast

theorem pool_complete_witness:
  "wfP (\<lambda>s' s. pool_step (replay_of (\<lambda>e. ''e'') (\<lambda>m u. True) demo_fs
      (NewWorkerPool None 2 0 1 \<lparr>tc_TargetBaseURL = ''http://t'', tc_HeaderOverride = [], tc_HeaderRemove = []\<rparr>) [demo_record]) s s')"
  by (rule conjunct1 [OF pool_complete [of 2]]) simp

text \<open>
  C35. A run that captures side effects: every record gets, in the order of arrival, effects whose
  time lies between the start and the end of its replay; no effect is given to two records, none
  appears that did not arrive. The replayed records are appended to the session after those of
  earlier runs, one for each record and in their order.
\<close>

theorem Replay_Run_effects:
  assumes ch: "re_sideEffectCh e = Some ([], False)" and "re_pending e = []" and conc: "wp_concurrency (re_pool e) \<le> 1"
    and recs: "ListRecords json (re_store e) fs (re_sessionID e) = (records, None)" "records \<noteq> []"
    and ws: "ws = map w [0 ..< length records]"
    and results: "results = map2 with_replay_effects (map2 (\<lambda>w r. replayOne etext accepts fs (re_pool e) w r) (map fst ws) records)
       (windowed [] (replay_windows ws))"
    and inv: "records_inv (re_store e) (re_sessionID e) ''replay-records.jsonl'' fs"
    and ok: "list_all (\<lambda>r. record_ok json (rp_Replayed r)) results"
  shows "\<exists>fs' e'. Replay_Run json etext accepts w fs e = (fs', e', Inr results)
     \<and> ListReplayRecords json (re_store e) fs' (re_sessionID e)
         = (fst (ListReplayRecords json (re_store e) fs (re_sessionID e)) @ map rp_Replayed results, None)
     \<and> map rp_Original results = records
     \<and> mset (concat (map (\<lambda>r. rec_SideEffects (rp_Replayed r)) results)) \<subseteq># mset (concat (map snd ws))
     \<and> list_all (\<lambda>r. list_all (\<lambda>x. rp_StartedAt r \<le> se_Timestamp x \<and> se_Timestamp x \<le> rp_FinishedAt r)
           (rec_SideEffects (rp_Replayed r))) results"
proof -
  have len: "length ws = length records" "length (windowed [] (replay_windows ws)) = length records"
    using ws by (simp_all add: replay_windows_def)
  have pend: "pending_of e = []" using assms(1,2) by (simp add: pending_of_def)
  have seq: "fst (executeSequentialWithSideEffects etext accepts fs e ws records) = results"
    using executeSequential_results [OF ch len(1)] results by (simp add: pend)
  have nth: "results ! i = with_replay_effects (replayOne etext accepts fs (re_pool e) (fst (ws ! i)) (records ! i)) (windowed [] (replay_windows ws) ! i)"
    and reslen: "length results = length records" if "i < length records" for i
    using that len by (simp_all add: results)
  have rl: "length results = length records" using len by (simp add: results)
  have orig: "map rp_Original results = records"
    by (rule nth_equalityI) (use rl nth in \<open>simp_all add: with_replay_effects_def replayOne_fixed\<close>)
  have eff: "map (\<lambda>r. rec_SideEffects (rp_Replayed r)) results = windowed [] (replay_windows ws)"
    by (rule nth_equalityI) (use rl len nth in \<open>simp_all add: with_replay_effects_def\<close>)
  have "mset (concat (windowed [] (replay_windows ws))) \<subseteq># mset (concat (map (\<lambda>(s, f, arrivals). arrivals) (replay_windows ws)))"
    using windowed_conserved [of "[]" "replay_windows ws"] by simp
  moreover have "map (\<lambda>(s, f, arrivals). arrivals) (replay_windows ws) = map snd ws" by (simp add: replay_windows_def case_prod_unfold)
  ultimately have sub: "mset (concat (map (\<lambda>r. rec_SideEffects (rp_Replayed r)) results)) \<subseteq># mset (concat (map snd ws))"
    unfolding eff by simp
  have win: "list_all (\<lambda>x. rp_StartedAt (results ! i) \<le> se_Timestamp x \<and> se_Timestamp x \<le> rp_FinishedAt (results ! i))
      (rec_SideEffects (rp_Replayed (results ! i)))" if i: "i < length records" for i
  proof -
    have "replay_windows ws ! i = (rw_started (fst (ws ! i)), rw_finished (fst (ws ! i)), snd (ws ! i))"
      using i len by (simp add: replay_windows_def case_prod_unfold)
    from windowed_in_window [OF _ this, of _ "[]"] i len show ?thesis
      by (simp add: nth with_replay_effects_def replayOne_fixed list_all_iff)
  qed
  let ?fs' = "save_replays json (re_store e) fs (re_sessionID e) results"
  have run: "Replay_Run json etext accepts w fs e
      = (?fs', dropPendingSideEffects (snd (executeSequentialWithSideEffects etext accepts fs e ws records)), Inr results)"
    using recs ch conc seq by (simp add: Replay_Run_def Let_def case_prod_beta flip: ws)
  show ?thesis
    by (rule exI [of _ ?fs'], rule exI, intro conjI, rule run)
      (use save_replays_spec [OF inv ok] orig sub win rl in \<open>simp_all add: list_all_length\<close>)
qed

section \<open>Instances\<close>

definition demo_pool :: WorkerPool where
  "demo_pool = NewWorkerPool None 1 0 1 \<lparr>tc_TargetBaseURL = ''http://t'', tc_HeaderOverride = [], tc_HeaderRemove = []\<rparr>"

text \<open>The first attempt is refused, the second is answered.\<close>

definition demo_rw :: replay_world where
  "demo_rw =
     \<lparr>rw_started = 5, rw_finished = 8, rw_duration = 3, rw_uuid = ''89abcdef-01'',
      rw_do = \<lambda>i req. if i = 0 then Inl (''Get'', ''refused'') else Inr \<lparr>rs_StatusCode = 200, rs_Header = [], rs_Body = Inr ''ok''\<rparr>\<rparr>"

theorem replayOne_correct_witness:
  "rp_Error (replayOne (\<lambda>e. ''e'') (\<lambda>m u. True) demo_fs demo_pool demo_rw demo_record) = None
   \<and> resp_Body (rec_Response (rp_Replayed (replayOne (\<lambda>e. ''e'') (\<lambda>m u. True) demo_fs demo_pool demo_rw demo_record))) = ''ok''"
proof -
  obtain req where req: "buildReplayRequest (\<lambda>m u. True) demo_fs demo_pool demo_record = Inr req"
    by (simp add: buildReplayRequest_def demo_record_def TransformWithBody_def Let_def)
  have n: "1 = nat (wp_retryCount demo_pool)" by (simp add: demo_pool_def NewWorkerPool_def)
  show ?thesis
    using replayOne_correct [OF req n refl refl, where w = demo_rw and etext = "\<lambda>e. ''e''"]
    by (simp add: do_request_def demo_rw_def)
qed

definition demo_replay_fs :: fs where
  "demo_replay_fs = demo_fs @ [([''d'', ''s1'', ''records.jsonl''], File (''o'' @ [CHR 0x0A]))]"

definition demo_engine_replay :: ReplayEngine where
  "demo_engine_replay = NewReplayEngine demo_store ''s1'' ''http://t'' 0 0 1 (Some ([], False))"

definition demo_replayed :: ReplayResult where
  "demo_replayed = with_replay_effects (replayOne (\<lambda>e. ''e'') (\<lambda>m u. True) demo_replay_fs (re_pool demo_engine_replay) demo_rw demo_record) [demo_effect]"

definition demo_replay_json :: json_codec where
  "demo_replay_json = demo_json\<lparr>marshalRecord := \<lambda>r. Some ''p'',
     unmarshalRecord := \<lambda>d. if d = ''p'' then Some (rp_Replayed demo_replayed) else Some demo_record\<rparr>"

lemma demo_replay_inv: "records_inv demo_store ''s1'' ''replay-records.jsonl'' demo_replay_fs"
proof -
  have "store_inv demo_store demo_replay_fs"
    by (auto simp: store_inv_def tree_ok_def node_ok_def demo_store_def demo_replay_fs_def demo_fs_def clean_path_def plain_name_def
        store_files_def strict_prefix_def parent_def)
  then show ?thesis
    by (simp add: records_inv_def demo_store_def demo_replay_fs_def demo_fs_def store_files_def plain_name_def)
qed

lemma demo_replay_records: "ListRecords demo_replay_json demo_store demo_replay_fs ''s1'' = ([demo_record], None)"
proof -
  have inv: "records_inv demo_store ''s1'' ''records.jsonl'' demo_replay_fs"
    using demo_replay_inv by (simp add: records_inv_def demo_store_def demo_replay_fs_def demo_fs_def store_files_def lines_ok_def scan_limit_def)
  have "listRecords demo_replay_json demo_store demo_replay_fs ''s1'' ''records.jsonl'' = (decode_lines demo_replay_json (map dropCR [''o'']), None)"
    by (rule listRecords_unlines [OF inv]) (simp_all add: demo_store_def demo_replay_fs_def demo_fs_def scan_limit_def)
  then show ?thesis by (simp add: ListRecords_def demo_replay_json_def dropCR_def)
qed

theorem Replay_Run_effects_witness:
  "\<exists>fs' e'. Replay_Run demo_replay_json (\<lambda>e. ''e'') (\<lambda>m u. True) (\<lambda>i. (demo_rw, [demo_effect])) demo_replay_fs demo_engine_replay
     = (fs', e', Inr [demo_replayed])"
proof -
  have w: "windowed [] (replay_windows [(demo_rw, [demo_effect])]) = [[demo_effect]]"
    by (simp add: replay_windows_def demo_rw_def demo_effect_def NewSQLSideEffect_def)
  have e: "re_store demo_engine_replay = demo_store" "re_sessionID demo_engine_replay = ''s1''" "re_sideEffectCh demo_engine_replay = Some ([], False)"
    "re_pending demo_engine_replay = []" "wp_concurrency (re_pool demo_engine_replay) \<le> 1"
    by (simp_all add: demo_engine_replay_def NewReplayEngine_def NewWorkerPool_def)
  have ok: "list_all (\<lambda>r. record_ok demo_replay_json (rp_Replayed r)) [demo_replayed]"
    by (simp add: record_ok_def demo_replay_json_def dropCR_def scan_limit_def)
  show ?thesis
    using Replay_Run_effects [where e = demo_engine_replay and w = "\<lambda>i. (demo_rw, [demo_effect])" and records = "[demo_record]"
        and ws = "[(demo_rw, [demo_effect])]" and results = "[demo_replayed]" and etext = "\<lambda>e. ''e''" and accepts = "\<lambda>m u. True"
        and fs = demo_replay_fs and json = demo_replay_json, unfolded e, OF refl refl e(5) demo_replay_records _ _ _ demo_replay_inv ok]
    by (simp add: w demo_replayed_def) blast
qed

end
