(* ===== verification/Json_Diff.thy ===== *)
theory Json_Diff
  imports Model Go_Strings
begin

text \<open>
  The structural JSON comparator of \<^verbatim>\<open>internal/diff/json.go\<close>, with the helpers \<^verbatim>\<open>toFloat64\<close> and
  \<^verbatim>\<open>FormatPath\<close> of \<^verbatim>\<open>internal/diff/rules.go\<close>. The methods of \<^verbatim>\<open>JSONDiffer\<close> call each other;
  here each of them takes the comparison of sub-values as its argument \<open>cmp\<close>, and
  \<open>compareValues\<close> passes itself.

  The specification is an abstract value: objects are maps, arrays are lists, or multisets when
  their order is ignored. The comparator reports nothing exactly when the two abstract values
  are equal; in particular the greedy pairing of the unordered mode never misses a pairing.
\<close>

section \<open>Helpers\<close>

fun toFloat64 :: "any \<Rightarrow> rat option" where
  "toFloat64 (AnyFloat64 n) = Some n"
| "toFloat64 (AnyFloat32 n) = Some n"
| "toFloat64 (AnyInt n) = Some (f64_of_int n)"
| "toFloat64 (AnyInt64 n) = Some (f64_of_int n)"
| "toFloat64 (AnyNumber s f) = f"
| "toFloat64 _ = None"

fun FormatPath :: "string \<Rightarrow> string list \<Rightarrow> string" where
  "FormatPath result [] = result"
| "FormatPath result (p # ps) =
     FormatPath (if result = '''' then p else result @ ''.'' @ p) ps"

text \<open>\<^verbatim>\<open>fmt.Sprintf("%s[%d]", path, i)\<close>.\<close>

definition itemPath :: "string \<Rightarrow> nat \<Rightarrow> string" where
  "itemPath path i = path @ ''['' @ Itoa (int i) @ '']''"

section \<open>The comparator\<close>

type_synonym comparator = "string \<Rightarrow> any \<Rightarrow> any \<Rightarrow> Difference list"

definition compareObjects ::
  "comparator \<Rightarrow> string \<Rightarrow> (string \<times> any) list \<Rightarrow> (string \<times> any) list \<Rightarrow> Difference list" where
  "compareObjects cmp path expected actual =
     (let keys = sort (remdups (map fst expected @ map fst actual))
      in concat (map (\<lambda>k.
           let fieldPath = FormatPath path [k]
           in case map_of expected k of
                Some ev \<Rightarrow>
                  (case map_of actual k of
                     None \<Rightarrow> [difference DiffBodyField fieldPath ev AnyNil
                               (Sprintf ''field missing'' []) SeverityError]
                   | Some av \<Rightarrow> cmp fieldPath ev av)
              | None \<Rightarrow>
                  (case map_of actual k of
                     Some av \<Rightarrow> [difference DiffBodyField fieldPath AnyNil av
                                  (Sprintf ''extra field'' []) SeverityWarning]
                   | None \<Rightarrow> [])) keys))"

text \<open>The inner loop of \<^verbatim>\<open>compareArraysUnordered\<close>: the first unused element that compares equal.\<close>

fun findUnused :: "(any \<Rightarrow> bool) \<Rightarrow> any list \<Rightarrow> bool list \<Rightarrow> nat \<Rightarrow> nat option" where
  "findUnused same [] used j = None"
| "findUnused same (av # avs) used j =
     (if used ! j then findUnused same avs used (Suc j)
      else if same av then Some j
      else findUnused same avs used (Suc j))"

fun unorderedLoop ::
  "comparator \<Rightarrow> string \<Rightarrow> any list \<Rightarrow> nat \<Rightarrow> any list \<Rightarrow> bool list \<Rightarrow> Difference list \<times> bool list" where
  "unorderedLoop cmp path actual i [] used = ([], used)"
| "unorderedLoop cmp path actual i (ev # evs) used =
     (case findUnused (\<lambda>av. cmp (itemPath path i) ev av = []) actual used 0 of
        Some j \<Rightarrow> unorderedLoop cmp path actual (Suc i) evs (used[j := True])
      | None \<Rightarrow>
          (let (diffs, used') = unorderedLoop cmp path actual (Suc i) evs used
           in (difference DiffBodyField (itemPath path i) ev AnyNil
                 (Sprintf ''array element not found in replay result'' []) SeverityError # diffs,
               used')))"

definition compareArraysUnordered ::
  "comparator \<Rightarrow> string \<Rightarrow> any list \<Rightarrow> any list \<Rightarrow> Difference list" where
  "compareArraysUnordered cmp path expected actual =
     (let (diffs, used) = unorderedLoop cmp path actual 0 expected (replicate (length actual) False)
      in diffs @
         concat (map (\<lambda>(av, u). if u then []
             else [difference DiffBodyField (path @ ''[extra]'') AnyNil av
                     (Sprintf ''extra array element in replay result'' []) SeverityWarning])
           (zip actual used)))"

definition compareArrays ::
  "bool \<Rightarrow> comparator \<Rightarrow> string \<Rightarrow> any list \<Rightarrow> any list \<Rightarrow> Difference list" where
  "compareArrays ignoreOrder cmp path expected actual =
     (if length expected \<noteq> length actual
      then [difference DiffBodyField path (AnyInt (length expected)) (AnyInt (length actual))
              (Sprintf ''array length differs: %d vs %d''
                 [AnyInt (length expected), AnyInt (length actual)]) SeverityError]
      else []) @
     (if ignoreOrder then compareArraysUnordered cmp path expected actual
      else concat (map (\<lambda>i. cmp (itemPath path i) (expected ! i) (actual ! i))
                       [0 ..< min (length expected) (length actual)]))"

text \<open>Congruence rules: the comparison is applied to members of the two values only.\<close>

lemma map_of_size: "map_of m k = Some v \<Longrightarrow> size v < size (AnyMap m)"
proof -
  assume "map_of m k = Some v"
  then have "(k, v) \<in> set m" by (rule map_of_SomeD)
  then show ?thesis
    by (induction m) (auto simp: less_Suc_eq_le)
qed

lemma set_size_slice: "v \<in> set xs \<Longrightarrow> size v < size (AnySlice xs)"
  by (induction xs) auto

lemma compareObjects_cong [fundef_cong]:
  assumes "path = path'" and "es = es'" and "as = as'"
    and "\<And>p k e a. map_of es' k = Some e \<Longrightarrow> map_of as' k = Some a \<Longrightarrow> cmp p e a = cmp' p e a"
  shows "compareObjects cmp path es as = compareObjects cmp' path' es' as'"
  unfolding compareObjects_def Let_def assms(1-3)
  by (intro arg_cong [where f = concat] map_cong refl) (auto split: option.splits simp: assms(4))

lemma findUnused_cong:
  "(\<And>a. a \<in> set as \<Longrightarrow> same a = same' a) \<Longrightarrow> findUnused same as used j = findUnused same' as used j"
  by (induction as arbitrary: j) auto

lemma unorderedLoop_cong:
  "(\<And>p e a. e \<in> set es \<Longrightarrow> a \<in> set as \<Longrightarrow> cmp p e a = cmp' p e a) \<Longrightarrow>
   unorderedLoop cmp path as i es used = unorderedLoop cmp' path as i es used"
proof (induction es arbitrary: i used)
  case Nil
  then show ?case by simp
next
  case (Cons e es)
  have "findUnused (\<lambda>a. cmp (itemPath path i) e a = []) as used 0 =
        findUnused (\<lambda>a. cmp' (itemPath path i) e a = []) as used 0"
    by (rule findUnused_cong) (simp add: Cons.prems)
  moreover have "unorderedLoop cmp path as i' es used' = unorderedLoop cmp' path as i' es used'" for i' used'
    by (rule Cons.IH) (simp add: Cons.prems)
  ultimately show ?case by (simp split: option.splits)
qed

lemma compareArrays_cong [fundef_cong]:
  assumes "io = io'" and "path = path'" and "es = es'" and "as = as'"
    and "\<And>p e a. e \<in> set es' \<Longrightarrow> a \<in> set as' \<Longrightarrow> cmp p e a = cmp' p e a"
  shows "compareArrays io cmp path es as = compareArrays io' cmp' path' es' as'"
proof -
  have u: "unorderedLoop cmp path' as' 0 es' used = unorderedLoop cmp' path' as' 0 es' used" for used
    by (rule unorderedLoop_cong) (rule assms(5))
  have m: "map (\<lambda>i. cmp (itemPath path' i) (es' ! i) (as' ! i)) [0 ..< min (length es') (length as')] =
      map (\<lambda>i. cmp' (itemPath path' i) (es' ! i) (as' ! i)) [0 ..< min (length es') (length as')]"
    by (rule map_cong) (auto simp: assms(5))
  show ?thesis
    unfolding compareArrays_def compareArraysUnordered_def assms(1-4) by (simp only: u m)
qed

function compareValues :: "bool \<Rightarrow> comparator" where
  "compareValues ignoreOrder path expected actual =
     (if TypeOf expected \<noteq> TypeOf actual then
        (case (toFloat64 expected, toFloat64 actual) of
           (Some ef, Some af) \<Rightarrow>
             if ef \<noteq> af
             then [difference DiffBodyField path expected actual
                     (Sprintf ''numeric value differs: %v != %v'' [expected, actual]) SeverityError]
             else []
         | _ \<Rightarrow> [difference DiffBodyField path expected actual
                   (Sprintf ''type differs: %T vs %T'' [expected, actual]) SeverityError])
      else
        (case (expected, actual) of
           (AnyMap ev, AnyMap av) \<Rightarrow> compareObjects (compareValues ignoreOrder) path ev av
         | (AnySlice ev, AnySlice av) \<Rightarrow> compareArrays ignoreOrder (compareValues ignoreOrder) path ev av
         | _ \<Rightarrow>
             if expected \<noteq> actual
             then [difference DiffBodyField path expected actual
                     (Sprintf ''%v != %v'' [expected, actual]) SeverityError]
             else []))"
  by pat_completeness auto
termination
  by (relation "measure (\<lambda>(io, path, e, a). size e)") (auto dest: map_of_size set_size_slice)

declare compareValues.simps [simp del]

text \<open>
  \<open>Compare unmarshal\<close>: \<open>unmarshal\<close> is \<^verbatim>\<open>json.Unmarshal\<close> into a variable of type \<^verbatim>\<open>any\<close>, with
  \<open>None\<close> for a non-nil error.
\<close>

definition Compare :: "(bytes \<Rightarrow> any option) \<Rightarrow> bool \<Rightarrow> bytes \<Rightarrow> bytes \<Rightarrow> Difference list" where
  "Compare unmarshal ignoreOrder expected actual =
     (case unmarshal expected of
        None \<Rightarrow>
          if expected \<noteq> actual
          then [difference DiffBody ''body'' (AnyString expected) (AnyString actual)
                  (Sprintf ''response body mismatch (non-JSON)'' []) SeverityError]
          else []
      | Some ev \<Rightarrow>
          (case unmarshal actual of
             None \<Rightarrow> [difference DiffBody ''body'' (AnyString expected) (AnyString actual)
                       (Sprintf ''recorded response is JSON but replay response is not'' []) SeverityError]
           | Some av \<Rightarrow> compareValues ignoreOrder ''body'' ev av))"

section \<open>Abstract JSON values\<close>

text \<open>What \<^verbatim>\<open>json.Unmarshal\<close> can store in a variable of type \<^verbatim>\<open>any\<close>.\<close>

fun is_json :: "any \<Rightarrow> bool" where
  "is_json AnyNil = True"
| "is_json (AnyBool _) = True"
| "is_json (AnyFloat64 _) = True"
| "is_json (AnyString _) = True"
| "is_json (AnySlice xs) = list_all is_json xs"
| "is_json (AnyMap m) = (go_map m \<and> list_all (\<lambda>(k, v). is_json v) m)"
| "is_json _ = False"

datatype jval =
    JNil
  | JBool bool
  | JNum rat
  | JStr string
  | JArr "jval list"
  | JBag "jval multiset"
  | JObj "string \<Rightarrow> jval option"

lemma map_entry_size [termination_simp]: "(k, v) \<in> set m \<Longrightarrow> size v < Suc (size_list (size_prod (\<lambda>_. 0) size) m)"
  by (induction m) auto

text \<open>The abstract value of a JSON value; arrays keep their order unless it is ignored.\<close>

fun abs_json :: "bool \<Rightarrow> any \<Rightarrow> jval" where
  "abs_json ignoreOrder (AnyBool b) = JBool b"
| "abs_json ignoreOrder (AnyFloat64 x) = JNum x"
| "abs_json ignoreOrder (AnyString s) = JStr s"
| "abs_json ignoreOrder (AnySlice xs) =
     (if ignoreOrder then JBag (mset (map (abs_json ignoreOrder) xs))
      else JArr (map (abs_json ignoreOrder) xs))"
| "abs_json ignoreOrder (AnyMap m) = JObj (map_of (map (\<lambda>(k, v). (k, abs_json ignoreOrder v)) m))"
| "abs_json ignoreOrder _ = JNil"

lemma map_of_abs: "map_of (map (\<lambda>(k, v). (k, f v)) m) k = map_option f (map_of m k)"
  by (induction m) auto

lemma is_json_map_of: "is_json (AnyMap m) \<Longrightarrow> map_of m k = Some v \<Longrightarrow> is_json v"
  by (auto simp: list_all_iff dest!: map_of_SomeD)

lemma is_json_slice: "is_json (AnySlice xs) \<Longrightarrow> x \<in> set xs \<Longrightarrow> is_json x"
  by (simp add: list_all_iff)

section \<open>Objects and ordered arrays\<close>

lemma compareObjects_Nil_iff:
  "compareObjects cmp path es as = [] \<longleftrightarrow>
   (\<forall>k. case (map_of es k, map_of as k) of
          (Some e, Some a) \<Rightarrow> cmp (FormatPath path [k]) e a = []
        | (None, None) \<Rightarrow> True
        | _ \<Rightarrow> False)"
proof -
  let ?K = "set (sort (remdups (map fst es @ map fst as)))"
  let ?Q = "\<lambda>k. case (map_of es k, map_of as k) of
      (Some e, Some a) \<Rightarrow> cmp (FormatPath path [k]) e a = [] | (None, None) \<Rightarrow> True | _ \<Rightarrow> False"
  have "k \<in> ?K \<longleftrightarrow> map_of es k \<noteq> None \<or> map_of as k \<noteq> None" for k
    by (simp add: map_of_eq_None_iff)
  then have out: "?Q k" if "k \<notin> ?K" for k using that by simp
  have "compareObjects cmp path es as = [] \<longleftrightarrow> (\<forall>k\<in>?K. ?Q k)"
    unfolding compareObjects_def Let_def concat_map_eq_Nil
    by (rule ball_cong [OF refl]) (simp split: option.split)
  also have "\<dots> \<longleftrightarrow> (\<forall>k. ?Q k)" using out by blast
  finally show ?thesis .
qed

lemma compareArrays_ordered_Nil_iff:
  "compareArrays False cmp path es as = [] \<longleftrightarrow>
   length es = length as \<and> (\<forall>i < length es. cmp (itemPath path i) (es ! i) (as ! i) = [])"
  by (auto simp: compareArrays_def)

section \<open>Unordered arrays: the greedy pairing is exact\<close>

text \<open>The elements that are still unused.\<close>

definition unused :: "any list \<Rightarrow> bool list \<Rightarrow> any list" where
  "unused as used = map fst (filter (\<lambda>(a, u). \<not> u) (zip as used))"

lemma unused_Nil [simp]: "unused [] used = []"
  by (simp add: unused_def)

lemma unused_Cons [simp]: "unused (a # as) (u # us) = (if u then unused as us else a # unused as us)"
  by (simp add: unused_def)

lemma unused_none [simp]: "unused as (replicate (length as) False) = as"
  by (induction as) auto

lemma findUnused_Suc [simp]:
  "findUnused same as (u # us) (Suc j) = map_option Suc (findUnused same as us j)"
  by (induction as arbitrary: j) auto

lemma findUnused_None:
  "length used = length as \<Longrightarrow> findUnused same as used 0 = None \<longleftrightarrow> (\<forall>a\<in>set (unused as used). \<not> same a)"
proof (induction used as rule: list_induct2)
  case Nil
  then show ?case by simp
next
  case (Cons u us a as)
  then show ?case by auto
qed

lemma findUnused_Some:
  "length used = length as \<Longrightarrow> findUnused same as used 0 = Some j \<Longrightarrow>
   j < length as \<and> same (as ! j) \<and> mset (unused as used) = add_mset (as ! j) (mset (unused as (used[j := True])))"
proof (induction used as arbitrary: j rule: list_induct2)
  case Nil
  then show ?case by simp
next
  case (Cons u us a as)
  show ?case
  proof (cases "\<not> u \<and> same a")
    case True
    with Cons.prems have "j = 0" by simp
    with True show ?thesis by simp
  next
    case False
    with Cons.prems obtain j' where j: "j = Suc j'" "findUnused same as us 0 = Some j'"
      by (auto split: if_splits)
    with Cons.IH [OF j(2)] show ?thesis by simp
  qed
qed

text \<open>
  If the comparison reports nothing exactly for elements with the same image under \<open>f\<close>, the
  loop pairs every expected element and uses up every actual one exactly when the images agree
  as multisets.
\<close>

lemma unorderedLoop_exact:
  assumes "\<And>p e a. e \<in> set es \<Longrightarrow> a \<in> set as \<Longrightarrow> cmp p e a = [] \<longleftrightarrow> f e = f a"
    and "length used = length as"
  shows "fst (unorderedLoop cmp path as i es used) = [] \<and>
         unused as (snd (unorderedLoop cmp path as i es used)) = [] \<longleftrightarrow>
         mset (map f es) = mset (map f (unused as used))"
  using assms
proof (induction es arbitrary: i used)
  case Nil
  then show ?case by simp
next
  case (Cons e es)
  let ?same = "\<lambda>a. cmp (itemPath path i) e a = []"
  have sub: "set (unused as used) \<subseteq> set as"
    by (auto simp: unused_def dest: set_zip_leftD)
  have same: "?same a \<longleftrightarrow> f e = f a" if "a \<in> set as" for a
    using Cons.prems(1) that by simp
  show ?case
  proof (cases "findUnused ?same as used 0")
    case None
    then have "\<forall>a\<in>set (unused as used). \<not> ?same a"
      using findUnused_None [OF Cons.prems(2), of ?same] by simp
    with sub same have "f e \<notin> f ` set (unused as used)" by (meson imageE subsetD)
    then have "set (map f (e # es)) \<noteq> set (map f (unused as used))" by auto
    then have "mset (map f (e # es)) \<noteq> mset (map f (unused as used))" by (meson mset_eq_setD)
    with None show ?thesis by (simp add: Let_def case_prod_beta)
  next
    case (Some j)
    note fs = findUnused_Some [OF Cons.prems(2) Some]
    then have fe: "f e = f (as ! j)" using same [of "as ! j"] by simp
    have "mset (map f (unused as used)) = add_mset (f e) (mset (map f (unused as (used[j := True]))))"
      using fs by (simp add: fe)
    with Some Cons.IH [of "used[j := True]" "Suc i"] Cons.prems show ?thesis by simp
  qed
qed

lemma compareArrays_unordered_Nil_iff:
  assumes "\<And>p e a. e \<in> set es \<Longrightarrow> a \<in> set as \<Longrightarrow> cmp p e a = [] \<longleftrightarrow> f e = f a"
  shows "compareArrays True cmp path es as = [] \<longleftrightarrow> mset (map f es) = mset (map f as)"
proof -
  let ?loop = "unorderedLoop cmp path as 0 es (replicate (length as) False)"
  have rest: "concat (map (\<lambda>(av, u). if u then [] else [g av]) (zip as us)) = [] \<longleftrightarrow> unused as us = []"
    for us :: "bool list" and g :: "any \<Rightarrow> Difference"
    by (auto simp: unused_def filter_empty_conv split: if_splits)
  have "mset (map f es) = mset (map f as) \<Longrightarrow> length es = length as"
    by (metis length_map mset_eq_length)
  moreover have "fst ?loop = [] \<and> unused as (snd ?loop) = [] \<longleftrightarrow> mset (map f es) = mset (map f as)"
    by (subst unorderedLoop_exact [where f = f]) (simp_all add: assms)
  ultimately show ?thesis
    unfolding compareArrays_def compareArraysUnordered_def
    by (cases ?loop) (auto simp: rest simp del: concat_eq_Nil_conv)
qed

section \<open>Exactness of the comparator\<close>

lemma compareValues_Map:
  "compareValues io path (AnyMap es) (AnyMap as) = compareObjects (compareValues io) path es as"
  by (simp add: compareValues.simps [of io path "AnyMap es"])

lemma compareValues_Slice:
  "compareValues io path (AnySlice es) (AnySlice as) = compareArrays io (compareValues io) path es as"
  by (simp add: compareValues.simps [of io path "AnySlice es"])

lemma compareValues_scalar:
  assumes "is_json e" and "is_json a" and "TypeOf e \<noteq> TypeOf a \<or> TypeOf e \<notin> {TSlice, TMap}"
  shows "compareValues io path e a = [] \<longleftrightarrow> abs_json io e = abs_json io a"
  using assms unfolding compareValues.simps [of io path e a] by (cases e; cases a) auto

lemma compareValues_Nil_iff:
  "is_json e \<Longrightarrow> is_json a \<Longrightarrow> compareValues io path e a = [] \<longleftrightarrow> abs_json io e = abs_json io a"
proof (induction e arbitrary: path a rule: measure_induct_rule [of size])
  case (less e)
  consider (map) es as where "e = AnyMap es" "a = AnyMap as"
    | (slice) es as where "e = AnySlice es" "a = AnySlice as"
    | (scalar) "TypeOf e \<noteq> TypeOf a \<or> TypeOf e \<notin> {TSlice, TMap}"
    by (cases e; cases a) auto
  then show ?case
  proof cases
    case map
    have IH: "compareValues io p e' a' = [] \<longleftrightarrow> abs_json io e' = abs_json io a'"
      if "map_of es k = Some e'" "map_of as k = Some a'" for k p e' a'
      using map_of_size [OF that(1)] is_json_map_of [OF _ that(1)] is_json_map_of [OF _ that(2)] less.prems
      by (intro less.IH) (simp_all only: map)
    have "compareValues io path e a = [] \<longleftrightarrow>
        (\<forall>k. map_option (abs_json io) (map_of es k) = map_option (abs_json io) (map_of as k))"
      unfolding map compareValues_Map compareObjects_Nil_iff
      by (intro all_cong1) (auto split: option.splits dest: IH)
    then show ?thesis by (simp add: map map_of_abs fun_eq_iff)
  next
    case slice
    have IH: "compareValues io p e' a' = [] \<longleftrightarrow> abs_json io e' = abs_json io a'"
      if "e' \<in> set es" "a' \<in> set as" for p e' a'
      using set_size_slice [OF that(1)] is_json_slice [OF _ that(1)] is_json_slice [OF _ that(2)] less.prems
      by (intro less.IH) (simp_all only: slice)
    show ?thesis
    proof (cases io)
      case True
      have "compareValues io path e a = [] \<longleftrightarrow> mset (map (abs_json io) es) = mset (map (abs_json io) as)"
        unfolding slice compareValues_Slice
        using True IH by (simp add: compareArrays_unordered_Nil_iff [where f = "abs_json io"])
      with True show ?thesis by (simp add: slice)
    next
      case False
      have "compareValues io path e a = [] \<longleftrightarrow> length es = length as \<and>
          (\<forall>i < length es. compareValues io (itemPath path i) (es ! i) (as ! i) = [])"
        using False compareArrays_ordered_Nil_iff [of "compareValues io" path es as]
        by (simp add: slice compareValues_Slice)
      also have "\<dots> \<longleftrightarrow> length es = length as \<and> (\<forall>i < length es. abs_json io (es ! i) = abs_json io (as ! i))"
        using IH [OF nth_mem nth_mem] by metis
      also have "\<dots> \<longleftrightarrow> map (abs_json io) es = map (abs_json io) as"
        by (auto simp: list_eq_iff_nth_eq)
      finally show ?thesis using False by (simp add: slice)
    qed
  next
    case scalar
    with less.prems show ?thesis by (rule compareValues_scalar)
  qed
qed

section \<open>Where the reported differences lie\<close>

definition field_diffs :: "string \<Rightarrow> Difference list \<Rightarrow> bool" where
  "field_diffs path ds =
     list_all (\<lambda>d. df_Kind d = DiffBodyField \<and> prefix path (df_Path d) \<and> \<not> df_Ignored d \<and> df_Rule d = '''') ds"

lemma field_diffs_Nil [simp]: "field_diffs path []"
  by (simp add: field_diffs_def)

lemma field_diffs_append [simp]: "field_diffs path (ds @ ds') \<longleftrightarrow> field_diffs path ds \<and> field_diffs path ds'"
  by (simp add: field_diffs_def)

lemma field_diffs_Cons [simp]:
  "field_diffs path (difference DiffBodyField p e a m sv # ds) \<longleftrightarrow> prefix path p \<and> field_diffs path ds"
  by (simp add: field_diffs_def)

lemma field_diffs_mono: "prefix path path' \<Longrightarrow> field_diffs path' ds \<Longrightarrow> field_diffs path ds"
  by (auto simp: field_diffs_def list_all_iff intro: prefix_order.trans)

lemma field_diffs_concat: "(\<And>x. x \<in> set xs \<Longrightarrow> field_diffs path (f x)) \<Longrightarrow> field_diffs path (concat (map f xs))"
  by (induction xs) auto

lemma prefix_FormatPath: "prefix path (FormatPath path [k])"
  by simp

lemma prefix_itemPath [simp]: "prefix path (itemPath path i)"
  by (simp add: itemPath_def)

lemma compareObjects_field_diffs:
  assumes "\<And>p k e a. map_of es k = Some e \<Longrightarrow> map_of as k = Some a \<Longrightarrow> field_diffs p (cmp p e a)"
  shows "field_diffs path (compareObjects cmp path es as)"
proof -
  have pre: "prefix path (FormatPath path [k])" for k by (rule prefix_FormatPath)
  have "field_diffs path (cmp (FormatPath path [k]) e a)"
    if "map_of es k = Some e" "map_of as k = Some a" for k e a
    using assms [OF that] by (rule field_diffs_mono [OF pre])
  with pre show ?thesis
    unfolding compareObjects_def Let_def
    by (intro field_diffs_concat) (simp split: option.split del: FormatPath.simps)
qed

lemma unorderedLoop_field_diffs: "field_diffs path (fst (unorderedLoop cmp path as i es used))"
  by (induction es arbitrary: i used) (auto split: option.splits simp: Let_def case_prod_beta)

lemma compareArrays_field_diffs:
  assumes "\<And>p e a. e \<in> set es \<Longrightarrow> a \<in> set as \<Longrightarrow> field_diffs p (cmp p e a)"
  shows "field_diffs path (compareArrays io cmp path es as)"
proof -
  have "field_diffs path (cmp (itemPath path i) (es ! i) (as ! i))"
    if "i < length es" "i < length as" for i
    by (rule field_diffs_mono [OF prefix_itemPath assms]) (use that in simp_all)
  moreover have "field_diffs path (compareArraysUnordered cmp path es as)"
    unfolding compareArraysUnordered_def
    using unorderedLoop_field_diffs [of path cmp as 0 es "replicate (length as) False"]
    by (auto simp: Let_def case_prod_beta intro!: field_diffs_concat)
  ultimately show ?thesis
    by (auto simp: compareArrays_def intro!: field_diffs_concat)
qed

lemma compareValues_field_diffs: "field_diffs path (compareValues io path e a)"
proof (induction e arbitrary: path a rule: measure_induct_rule [of size])
  case (less e)
  consider (map) es as where "e = AnyMap es" "a = AnyMap as"
    | (slice) es as where "e = AnySlice es" "a = AnySlice as"
    | (scalar) "TypeOf e \<noteq> TypeOf a \<or> TypeOf e \<notin> {TSlice, TMap}"
    by (cases e; cases a) auto
  then show ?case
  proof cases
    case map
    show ?thesis unfolding map compareValues_Map
      by (intro compareObjects_field_diffs less.IH) (simp only: map map_of_size)
  next
    case slice
    show ?thesis unfolding slice compareValues_Slice
      by (intro compareArrays_field_diffs less.IH) (simp only: slice set_size_slice)
  next
    case scalar
    then show ?thesis unfolding compareValues.simps [of io path e a]
      by (cases e; cases a) (auto split: option.splits)
  qed
qed

lemma Compare_Nil_iff:
  assumes "\<And>b v. unmarshal b = Some v \<Longrightarrow> is_json v"
  shows "Compare unmarshal ignoreOrder expected actual = [] \<longleftrightarrow>
     (case unmarshal expected of
        None \<Rightarrow> expected = actual
      | Some ev \<Rightarrow> (\<exists>av. unmarshal actual = Some av \<and> abs_json ignoreOrder ev = abs_json ignoreOrder av))"
  using assms by (auto simp: Compare_def compareValues_Nil_iff split: option.splits)

section \<open>Properties\<close>

text \<open>
  C6. The JSON comparator is exact. On two decoded JSON values it reports no difference if and
  only if they denote the same abstract value: equal scalars, objects with the same fields,
  arrays equal element by element or, when array order is ignored, equal as multisets. So the
  greedy first-match pairing of the unordered mode is a complete decision procedure.
\<close>

theorem compareValues_exact:
  assumes "is_json expected" and "is_json actual"
  shows "compareValues ignoreOrder path expected actual = [] \<longleftrightarrow>
         abs_json ignoreOrder expected = abs_json ignoreOrder actual"
  using assms by (rule compareValues_Nil_iff)

theorem compareValues_exact_witness:
  "compareValues True ''body'' (AnySlice [AnySlice [AnyFloat64 1, AnyNil], AnyString ''x''])
     (AnySlice [AnyString ''x'', AnySlice [AnyNil, AnyFloat64 1]]) = [] \<and>
   compareValues False ''body'' (AnySlice [AnyFloat64 1, AnyNil]) (AnySlice [AnyNil, AnyFloat64 1]) \<noteq> []"
  by (subst compareValues_exact, simp, simp, subst compareValues_exact) simp_all

text \<open>
  Every difference that the comparator reports lies at or below the path it was called with,
  has the kind \<^verbatim>\<open>body_field\<close>, and is neither ignored nor attributed to a rule.
\<close>

theorem compareValues_paths:
  "\<forall>d\<in>set (compareValues ignoreOrder path expected actual).
     df_Kind d = DiffBodyField \<and> prefix path (df_Path d) \<and> \<not> df_Ignored d \<and> df_Rule d = ''''"
  using compareValues_field_diffs [of path ignoreOrder expected actual]
  by (simp add: field_diffs_def list_all_iff)

theorem compareValues_paths_witness:
  "compareValues False ''body'' (AnyMap [(''a'', AnyNil)]) (AnyMap []) \<noteq> [] \<and>
   df_Kind (hd (compareValues False ''body'' (AnyMap [(''a'', AnyNil)]) (AnyMap []))) = DiffBodyField \<and>
   df_Path (hd (compareValues False ''body'' (AnyMap [(''a'', AnyNil)]) (AnyMap []))) = ''body.a''"
  using compareValues_paths [of False "''body''" "AnyMap [(''a'', AnyNil)]" "AnyMap []"]
  by (simp add: compareValues_Map compareObjects_def)

text \<open>
  Comparing two bodies reports nothing exactly when they agree: if the recorded body is not
  JSON, when the bytes are equal; if it is, when the replayed body is JSON too and denotes the
  same abstract value. The decoder is any function that yields JSON values.
\<close>

theorem Compare_exact:
  assumes decodes_json: "\<And>b v. unmarshal b = Some v \<Longrightarrow> is_json v"
  shows "Compare unmarshal ignoreOrder expected actual = [] \<longleftrightarrow>
     (case unmarshal expected of
        None \<Rightarrow> expected = actual
      | Some ev \<Rightarrow> (\<exists>av. unmarshal actual = Some av \<and> abs_json ignoreOrder ev = abs_json ignoreOrder av))"
  by (rule Compare_Nil_iff [OF decodes_json])

theorem Compare_exact_witness:
  "Compare (\<lambda>b. if b = ''[]'' \<or> b = ''[ ]'' then Some (AnySlice []) else None) False ''[]'' ''[ ]'' = [] \<and>
   Compare (\<lambda>b. if b = ''[]'' \<or> b = ''[ ]'' then Some (AnySlice []) else None) False ''[]'' ''x'' \<noteq> []"
proof -
  let ?u = "\<lambda>b. if b = ''[]'' \<or> b = ''[ ]'' then Some (AnySlice []) else None"
  have u: "\<And>b v. ?u b = Some v \<Longrightarrow> is_json v" by (auto split: if_splits)
  show ?thesis
    using Compare_exact [of ?u False "''[]''" "''[ ]''", OF u] Compare_exact [of ?u False "''[]''" "''x''", OF u]
    by simp
qed

end
