(* ===== verification/Rules.thy ===== *)
theory Rules
  imports Json_Diff Go_Unicode
begin

text \<open>
  The rule engine of \<^verbatim>\<open>internal/diff/rules.go\<close> and the rule loader of
  \<^verbatim>\<open>internal/diff/rule_loader.go\<close>: path patterns and their translation to regular expressions,
  the built-in matchers, the application of rules to differences, and the defaults.

  Of package \<^verbatim>\<open>regexp\<close> only the expressions that \<^verbatim>\<open>pathToRegexp\<close> can build are modelled:
  literal characters, \<^verbatim>\<open>.*\<close>, \<^verbatim>\<open>[^.]*\<close> and \<^verbatim>\<open>\d+\<close> between \<^verbatim>\<open>^\<close> and \<^verbatim>\<open>$\<close>. The parser below
  rejects everything else, and it is proved that it accepts whatever \<^verbatim>\<open>pathToRegexp\<close> returns.
  Matching is on bytes, which agrees with matching on code points for patterns and paths in
  valid UTF-8, the only ones that JSON and YAML decoding produce.
\<close>

section \<open>Regular expressions\<close>

datatype re_item = ReChar char | ReDotStar | ReNoDotStar | ReDigits

text \<open>The characters that \<^verbatim>\<open>regexp.QuoteMeta\<close> escapes.\<close>

definition special :: "char \<Rightarrow> bool" where
  "special c = (c \<in> set ''.+*?()|[]{}^$'' \<or> c = CHR 0x5C)"

definition quote_char :: "char \<Rightarrow> string" where
  "quote_char c = (if special c then [CHR 0x5C, c] else [c])"

definition QuoteMeta :: "string \<Rightarrow> string" where
  "QuoteMeta s = concat (map quote_char s)"

fun parse_items :: "string \<Rightarrow> re_item list option" where
  "parse_items s =
     (if s = ''$'' then Some []
      else case s of
        [] \<Rightarrow> None
      | c # t \<Rightarrow>
          if c = CHR 0x5C then
            (case t of
               [] \<Rightarrow> None
             | d # t' \<Rightarrow>
                 if d = CHR ''d'' then
                   (case t' of e # t'' \<Rightarrow> if e = CHR ''+'' then map_option (Cons ReDigits) (parse_items t'') else None
                    | [] \<Rightarrow> None)
                 else if special d then map_option (Cons (ReChar d)) (parse_items t')
                 else None)
          else if prefix ''.*'' s then map_option (Cons ReDotStar) (parse_items (drop 2 s))
          else if prefix ''[^.]*'' s then map_option (Cons ReNoDotStar) (parse_items (drop 5 s))
          else if special c then None
          else map_option (Cons (ReChar c)) (parse_items t))"

declare parse_items.simps [simp del]

text \<open>\<^verbatim>\<open>regexp.MustCompile\<close> on the fragment; \<open>None\<close> stands for a panic.\<close>

definition MustCompile :: "string \<Rightarrow> re_item list option" where
  "MustCompile s = (case s of c # t \<Rightarrow> if c = CHR ''^'' then parse_items t else None | [] \<Rightarrow> None)"

fun MatchString :: "re_item list \<Rightarrow> string \<Rightarrow> bool" where
  "MatchString [] s = (s = [])"
| "MatchString (ReChar c # r) s = (case s of x # t \<Rightarrow> x = c \<and> MatchString r t | [] \<Rightarrow> False)"
| "MatchString (ReDotStar # r) s =
     (MatchString r s \<or> (case s of x # t \<Rightarrow> x \<noteq> CHR 0x0A \<and> MatchString (ReDotStar # r) t | [] \<Rightarrow> False))"
| "MatchString (ReNoDotStar # r) s =
     (MatchString r s \<or> (case s of x # t \<Rightarrow> x \<noteq> CHR ''.'' \<and> MatchString (ReNoDotStar # r) t | [] \<Rightarrow> False))"
| "MatchString (ReDigits # r) s =
     (case s of x # t \<Rightarrow> is_digit x \<and> (MatchString r t \<or> MatchString (ReDigits # r) t) | [] \<Rightarrow> False)"

section \<open>Rules and matchers\<close>

definition pathToRegexp :: "string \<Rightarrow> string" where
  "pathToRegexp pattern =
     (let escaped = QuoteMeta pattern;
          escaped = ReplaceAll escaped [CHR 0x5C, CHR ''*'', CHR 0x5C, CHR ''*''] ''.*'';
          escaped = ReplaceAll escaped [CHR 0x5C, CHR ''*''] ''[^.]*'';
          escaped = ReplaceAll escaped
            [CHR 0x5C, CHR ''['', CHR 0x5C, CHR ''*'', CHR 0x5C, CHR '']'']
            [CHR 0x5C, CHR ''['', CHR 0x5C, CHR ''d'', CHR ''+'', CHR 0x5C, CHR '']'']
      in ''^'' @ escaped @ ''$'')"

record Rule =
  rule_Name :: string
  rule_Kind :: string
  rule_Paths :: "string list"
  rule_Pattern :: string
  rule_Matcher :: string

datatype Matcher = TimestampMatcher | UUIDMatcher | NumericToleranceMatcher rat

fun matcher_Name :: "Matcher \<Rightarrow> string" where
  "matcher_Name TimestampMatcher = ''timestamp''"
| "matcher_Name UUIDMatcher = ''uuid''"
| "matcher_Name (NumericToleranceMatcher _) = ''numeric_tolerance''"

text \<open>A sequence of character classes, matched against the start of a text.\<close>

fun match_classes :: "(char \<Rightarrow> bool) list \<Rightarrow> string \<Rightarrow> string option" where
  "match_classes [] s = Some s"
| "match_classes (p # ps) [] = None"
| "match_classes (p # ps) (c # s) = (if p c then match_classes ps s else None)"

definition is_hex :: "char \<Rightarrow> bool" where
  "is_hex c = (is_digit c \<or> (CHR ''a'' \<le> c \<and> c \<le> CHR ''f'') \<or> (CHR ''A'' \<le> c \<and> c \<le> CHR ''F''))"



definition timestampRe :: "(char \<Rightarrow> bool) list" where
  "timestampRe =
     replicate 4 is_digit @ [(=) CHR ''-''] @ replicate 2 is_digit @ [(=) CHR ''-''] @
     replicate 2 is_digit @ [\<lambda>c. c = CHR ''T'' \<or> c = CHR '' ''] @
     replicate 2 is_digit @ [(=) CHR '':''] @ replicate 2 is_digit"

definition uuidRe :: "(char \<Rightarrow> bool) list" where
  "uuidRe =
     replicate 8 is_hex @ [(=) CHR ''-''] @ replicate 4 is_hex @ [(=) CHR ''-''] @
     replicate 4 is_hex @ [(=) CHR ''-''] @ replicate 4 is_hex @ [(=) CHR ''-''] @
     replicate 12 is_hex"

definition looksLikeTimestamp :: "string \<Rightarrow> bool" where
  "looksLikeTimestamp s = (match_classes timestampRe s \<noteq> None)"

definition looksLikeUUID :: "string \<Rightarrow> bool" where
  "looksLikeUUID s = (match_classes uuidRe s = Some [])"

text \<open>The method \<^verbatim>\<open>Match\<close> of the three matchers; none of them returns an error.\<close>

fun matcher_Match :: "Matcher \<Rightarrow> string \<Rightarrow> any \<Rightarrow> any \<Rightarrow> bool" where
  "matcher_Match TimestampMatcher path expected actual =
     (case (expected, actual) of
        (AnyString es, AnyString as) \<Rightarrow> looksLikeTimestamp es \<and> looksLikeTimestamp as
      | _ \<Rightarrow> False)"
| "matcher_Match UUIDMatcher path expected actual =
     (case (expected, actual) of
        (AnyString es, AnyString as) \<Rightarrow> looksLikeUUID es \<and> looksLikeUUID as
      | _ \<Rightarrow> False)"
| "matcher_Match (NumericToleranceMatcher tolerance) path expected actual =
     (case (toFloat64 expected, toFloat64 actual) of
        (Some ef, Some af) \<Rightarrow>
          (let diff = f64_sub ef af; diff = (if diff < 0 then - diff else diff)
           in diff \<le> tolerance)
      | _ \<Rightarrow> False)"

section \<open>Rule sets\<close>

record RuleSet =
  rs_Rules :: "Rule list"
  rs_matchers :: "string \<rightharpoonup> Matcher"
  rs_compiled :: "string \<rightharpoonup> re_item list"

fun add_matchers :: "(string \<rightharpoonup> Matcher) \<Rightarrow> Matcher list \<Rightarrow> (string \<rightharpoonup> Matcher)" where
  "add_matchers m [] = m"
| "add_matchers m (x # xs) = add_matchers (m(matcher_Name x \<mapsto> x)) xs"

fun compile_paths :: "(string \<rightharpoonup> re_item list) \<Rightarrow> string list \<Rightarrow> (string \<rightharpoonup> re_item list) option" where
  "compile_paths m [] = Some m"
| "compile_paths m (p # ps) =
     (case MustCompile (pathToRegexp p) of
        None \<Rightarrow> None
      | Some re \<Rightarrow> compile_paths (m(p \<mapsto> re)) ps)"

text \<open>\<open>None\<close> stands for a panic of \<^verbatim>\<open>regexp.MustCompile\<close>.\<close>

definition NewRuleSet :: "Rule list \<Rightarrow> Matcher list \<Rightarrow> RuleSet option" where
  "NewRuleSet rules matchers =
     (case compile_paths Map.empty (concat (map rule_Paths rules)) of
        None \<Rightarrow> None
      | Some compiled \<Rightarrow>
          Some \<lparr>rs_Rules = rules, rs_matchers = add_matchers Map.empty matchers, rs_compiled = compiled\<rparr>)"

fun matchesPath_loop :: "RuleSet \<Rightarrow> string list \<Rightarrow> string \<Rightarrow> bool" where
  "matchesPath_loop rs [] diffPath = False"
| "matchesPath_loop rs (p # ps) diffPath =
     (case rs_compiled rs p of
        Some re \<Rightarrow> if MatchString re diffPath then True else matchesPath_loop rs ps diffPath
      | None \<Rightarrow> matchesPath_loop rs ps diffPath)"

definition matchesPath :: "RuleSet \<Rightarrow> Rule \<Rightarrow> string \<Rightarrow> bool" where
  "matchesPath rs rule diffPath = matchesPath_loop rs (rule_Paths rule) diffPath"

text \<open>The body of the two nested loops of \<^verbatim>\<open>Apply\<close>: one rule on one difference.\<close>

definition apply_rule :: "RuleSet \<Rightarrow> Difference \<Rightarrow> Rule \<Rightarrow> Difference" where
  "apply_rule rs d rule =
     (if matchesPath rs rule (df_Path d) then
        (if rule_Kind rule = ''ignore'' then d\<lparr>df_Ignored := True, df_Rule := rule_Name rule\<rparr>
         else if rule_Kind rule = ''custom'' then
           (case rs_matchers rs (rule_Matcher rule) of
              Some m \<Rightarrow>
                if matcher_Match m (df_Path d) (df_Expected d) (df_Actual d)
                then d\<lparr>df_Ignored := True, df_Rule := rule_Name rule\<rparr> else d
            | None \<Rightarrow> d)
         else d)
      else d)"

definition Apply :: "RuleSet \<Rightarrow> Difference list \<Rightarrow> Difference list" where
  "Apply rs ds = map (\<lambda>d. foldl (apply_rule rs) d (rs_Rules rs)) ds"

section \<open>Defaults\<close>

definition DefaultRuleList :: "Rule list" where
  "DefaultRuleList =
     [\<lparr>rule_Name = ''ignore_timestamps'', rule_Kind = ''custom'',
       rule_Paths = [''**.createdAt'', ''**.updatedAt'', ''**.created_at'', ''**.updated_at'', ''**.timestamp''],
       rule_Pattern = '''', rule_Matcher = ''timestamp''\<rparr>,
      \<lparr>rule_Name = ''ignore_request_ids'', rule_Kind = ''ignore'',
       rule_Paths = [''headers.X-Request-Id'', ''headers.X-Trace-Id'', ''headers.Date'', ''headers.Server''],
       rule_Pattern = '''', rule_Matcher = ''''\<rparr>]"

definition builtin_matchers :: "Matcher list" where
  "builtin_matchers = [TimestampMatcher, UUIDMatcher, NumericToleranceMatcher (f64_round (1 / 1000))]"

definition DefaultRules :: "RuleSet option" where
  "DefaultRules = NewRuleSet DefaultRuleList builtin_matchers"

definition DefaultIgnoreHeaders :: "string list" where
  "DefaultIgnoreHeaders = [''Date'', ''X-Request-Id'', ''X-Trace-Id'', ''Server'', ''Content-Length'']"

section \<open>Loading rules\<close>

record ConfigRule =
  crule_Name :: string
  crule_Kind :: string
  crule_Paths :: "string list"
  crule_Pattern :: string
  crule_Matcher :: string

definition RulesFromConfig :: "ConfigRule list \<Rightarrow> Rule list" where
  "RulesFromConfig rules =
     map (\<lambda>r. \<lparr>rule_Name = crule_Name r, rule_Kind = crule_Kind r, rule_Paths = crule_Paths r,
               rule_Pattern = crule_Pattern r, rule_Matcher = crule_Matcher r\<rparr>) rules"

text \<open>\<^verbatim>\<open>filepath.Ext\<close>: the text from the last dot of the last path element on.\<close>

definition Ext :: "string \<Rightarrow> string" where
  "Ext path =
     (let r = rev path; suffix = takeWhile (\<lambda>c. c \<noteq> CHR ''.'' \<and> c \<noteq> CHR ''/'') r
      in case drop (length suffix) r of
           c # _ \<Rightarrow> if c = CHR ''.'' then CHR ''.'' # rev suffix else []
         | [] \<Rightarrow> [])"

datatype load_error = ReadError string | YamlError string | JsonError string

text \<open>
  \<open>LoadRulesFile\<close>: the file system and the YAML and JSON decoders are arguments, as is the case
  table \<open>low\<close>.
\<close>

definition LoadRulesFile ::
  "(nat \<Rightarrow> nat) \<Rightarrow> (string \<Rightarrow> string + bytes) \<Rightarrow> (bytes \<Rightarrow> string + Rule list) \<Rightarrow>
   (bytes \<Rightarrow> string + Rule list) \<Rightarrow> string \<Rightarrow> load_error + Rule list" where
  "LoadRulesFile low readFile yaml_unmarshal json_unmarshal path =
     (case readFile path of
        Inl e \<Rightarrow> Inl (ReadError e)
      | Inr data \<Rightarrow>
          (let ext = ToLower low (Ext path)
           in if ext = ''.yaml'' \<or> ext = ''.yml''
              then (case yaml_unmarshal data of Inl e \<Rightarrow> Inl (YamlError e) | Inr rules \<Rightarrow> Inr rules)
              else (case json_unmarshal data of Inl e \<Rightarrow> Inl (JsonError e) | Inr rules \<Rightarrow> Inr rules)))"

section \<open>Path patterns: the expression built is the pattern meant\<close>

text \<open>A pattern read directly: \<^verbatim>\<open>**\<close>, \<^verbatim>\<open>*\<close> or a literal character.\<close>

fun glob_items :: "string \<Rightarrow> re_item list" where
  "glob_items [] = []"
| "glob_items (c # s) =
     (if c = CHR ''*'' then
        (case s of
           d # t \<Rightarrow> if d = CHR ''*'' then ReDotStar # glob_items t else ReNoDotStar # glob_items s
         | [] \<Rightarrow> [ReNoDotStar])
      else ReChar c # glob_items s)"

text \<open>The text of an expression for a list of items, and the two intermediate texts.\<close>

fun item_text :: "re_item \<Rightarrow> string" where
  "item_text (ReChar c) = quote_char c"
| "item_text ReDotStar = ''.*''"
| "item_text ReNoDotStar = ''[^.]*''"
| "item_text ReDigits = [CHR 0x5C, CHR ''d'', CHR ''+'']"

definition items_text :: "re_item list \<Rightarrow> string" where
  "items_text items = concat (map item_text items)"

text \<open>The same text with a single star still escaped, as after the first replacement.\<close>

definition step1_text :: "re_item list \<Rightarrow> string" where
  "step1_text items =
     concat (map (\<lambda>i. if i = ReNoDotStar then [CHR 0x5C, CHR ''*''] else item_text i) items)"

definition glob_like :: "re_item list \<Rightarrow> bool" where
  "glob_like items = list_all (\<lambda>i. i \<noteq> ReChar (CHR ''*'') \<and> i \<noteq> ReDigits) items"

lemma glob_items_like: "glob_like (glob_items p)"
  by (induction p rule: glob_items.induct) (auto simp: glob_like_def split: list.splits)

lemma ReplaceAll_Nil [simp]: "ReplaceAll [] old new = []"
  by (subst ReplaceAll.simps) simp

lemma ReplaceAll_hit: "old \<noteq> [] \<Longrightarrow> ReplaceAll (old @ s) old new = new @ ReplaceAll s old new"
  by (subst ReplaceAll.simps) simp

lemma ReplaceAll_miss:
  "old \<noteq> [] \<Longrightarrow> \<not> prefix old (c # s) \<Longrightarrow> ReplaceAll (c # s) old new = c # ReplaceAll s old new"
  by (subst ReplaceAll.simps) simp

lemma special_star [simp]: "special CHR ''*''"
  by (simp add: special_def)

lemma special_backslash [simp]: "special (CHR 0x5C)"
  by (simp add: special_def)

lemma quote_char_star [simp]: "quote_char CHR ''*'' = [CHR 0x5C, CHR ''*'']"
  by (simp add: quote_char_def)

lemma quote_char_not_special: "\<not> special c \<Longrightarrow> quote_char c = [c] \<and> c \<noteq> CHR 0x5C \<and> c \<noteq> CHR ''*''"
  by (auto simp: quote_char_def)

lemma QuoteMeta_simps [simp]: "QuoteMeta [] = []" "QuoteMeta (c # s) = quote_char c @ QuoteMeta s"
  by (simp_all add: QuoteMeta_def)

lemma QuoteMeta_no_star: "QuoteMeta s \<noteq> CHR ''*'' # t"
  by (cases s) (auto simp: quote_char_def)

lemma QuoteMeta_star: "QuoteMeta s = CHR 0x5C # CHR ''*'' # t \<Longrightarrow> \<exists>s'. s = CHR ''*'' # s'"
  by (cases s) (auto simp: quote_char_def split: if_splits)

text \<open>Replacing a text that starts with a backslash passes over an escaped character other than a star.\<close>

lemma ReplaceAll_quote_char:
  assumes "old = CHR 0x5C # x # old'" and "x \<noteq> c" and "\<not> prefix (x # old') s \<or> c \<noteq> CHR 0x5C"
  shows "ReplaceAll (quote_char c @ s) old new = quote_char c @ ReplaceAll s old new"
proof (cases "special c")
  case True
  then have q: "quote_char c = [CHR 0x5C, c]" by (simp add: quote_char_def)
  have "\<not> prefix old (CHR 0x5C # c # s)" using assms(1,2) by simp
  moreover have "\<not> prefix old (c # s)" using assms by auto
  ultimately show ?thesis using assms(1) by (simp add: q ReplaceAll_miss)
next
  case False
  then have q: "quote_char c = [c]" "c \<noteq> CHR 0x5C" using quote_char_not_special by blast+
  then have "\<not> prefix old (c # s)" using assms(1) by simp
  with q assms(1) show ?thesis by (simp add: ReplaceAll_miss)
qed

lemma step1:
  "ReplaceAll (QuoteMeta p) [CHR 0x5C, CHR ''*'', CHR 0x5C, CHR ''*''] ''.*'' = step1_text (glob_items p)"
proof (induction p rule: glob_items.induct)
  case 1
  then show ?case by (simp add: step1_text_def)
next
  case (2 c s)
  let ?old = "[CHR 0x5C, CHR ''*'', CHR 0x5C, CHR ''*'']"
  consider (two) t where "c = CHR ''*''" "s = CHR ''*'' # t"
    | (one) "c = CHR ''*''" "\<nexists>t. s = CHR ''*'' # t"
    | (char) "c \<noteq> CHR ''*''" by blast
  then show ?case
  proof cases
    case two
    have "QuoteMeta (c # s) = ?old @ QuoteMeta t" by (simp add: two)
    then have "ReplaceAll (QuoteMeta (c # s)) ?old ''.*'' = ''.*'' @ ReplaceAll (QuoteMeta t) ?old ''.*''"
      by (metis ReplaceAll_hit list.distinct(1))
    with "2.IH"(1) [OF two] show ?thesis by (simp add: two step1_text_def)
  next
    case one
    have no: "\<not> prefix ?old (CHR 0x5C # CHR ''*'' # QuoteMeta s)"
      using QuoteMeta_star [of s] one(2) by (auto simp: prefix_def)
    have "ReplaceAll (QuoteMeta (c # s)) ?old ''.*'' = CHR 0x5C # CHR ''*'' # ReplaceAll (QuoteMeta s) ?old ''.*''"
      using no by (simp add: one(1) ReplaceAll_miss)
    moreover have "glob_items (c # s) = ReNoDotStar # glob_items s"
      using one by (auto split: list.split)
    moreover have "ReplaceAll (QuoteMeta s) ?old ''.*'' = step1_text (glob_items s)"
      using "2.IH" one by (cases s) (auto simp: step1_text_def)
    ultimately show ?thesis by (simp add: step1_text_def)
  next
    case char
    have "\<not> prefix (tl ?old) (QuoteMeta s)"
      using QuoteMeta_no_star [of s] by (auto simp: prefix_def)
    then have "ReplaceAll (QuoteMeta (c # s)) ?old ''.*'' = quote_char c @ ReplaceAll (QuoteMeta s) ?old ''.*''"
      using char by (simp add: ReplaceAll_quote_char)
    with "2.IH"(3) [OF char] char show ?thesis by (simp add: step1_text_def)
  qed
qed

lemma step1_text_no_star: "glob_like items \<Longrightarrow> step1_text items \<noteq> CHR ''*'' # t"
  by (cases items; cases "hd items")
    (auto simp: step1_text_def glob_like_def quote_char_def special_def)

lemma step2:
  "glob_like items \<Longrightarrow> ReplaceAll (step1_text items) [CHR 0x5C, CHR ''*''] ''[^.]*'' = items_text items"
proof (induction items)
  case Nil
  then show ?case by (simp add: step1_text_def items_text_def)
next
  case (Cons i items)
  let ?old = "[CHR 0x5C, CHR ''*'']"
  let ?s = "step1_text items"
  from Cons.prems have g: "glob_like items" and i: "i \<noteq> ReChar (CHR ''*'')" "i \<noteq> ReDigits"
    by (simp_all add: glob_like_def)
  have IH: "ReplaceAll ?s ?old ''[^.]*'' = items_text items" using Cons.IH g .
  show ?case
  proof (cases i)
    case (ReChar c)
    have "\<not> prefix (tl ?old) ?s" using step1_text_no_star [OF g] by (auto simp: prefix_def)
    then have "ReplaceAll (quote_char c @ ?s) ?old ''[^.]*'' = quote_char c @ ReplaceAll ?s ?old ''[^.]*''"
      using i ReChar by (intro ReplaceAll_quote_char) auto
    with IH show ?thesis by (simp add: ReChar step1_text_def items_text_def)
  next
    case ReDotStar
    with IH show ?thesis by (simp add: step1_text_def items_text_def ReplaceAll_miss)
  next
    case ReNoDotStar
    have "ReplaceAll (?old @ ?s) ?old ''[^.]*'' = ''[^.]*'' @ ReplaceAll ?s ?old ''[^.]*''"
      by (rule ReplaceAll_hit) simp
    with IH show ?thesis by (simp add: ReNoDotStar step1_text_def items_text_def)
  next
    case ReDigits
    with i show ?thesis by simp
  qed
qed

text \<open>After the second replacement no escaped star is left, so the third one changes nothing.\<close>

lemma items_text_no_star: "glob_like items \<Longrightarrow> \<not> prefix [CHR 0x5C, CHR ''*''] (items_text items)"
  by (cases items; cases "hd items")
    (auto simp: items_text_def glob_like_def quote_char_def special_def)

lemma items_text_no_bracket: "glob_like items \<Longrightarrow> \<not> prefix [CHR ''['', CHR 0x5C] (items_text items)"
  by (cases items; cases "hd items")
    (auto simp: items_text_def glob_like_def quote_char_def special_def)

lemma step3:
  assumes "old = [CHR 0x5C, CHR ''['', CHR 0x5C, CHR ''*'', CHR 0x5C, CHR '']'']"
  shows "glob_like items \<Longrightarrow> ReplaceAll (items_text items) old new = items_text items"
proof (induction items)
  case Nil
  then show ?case by (simp add: items_text_def)
next
  case (Cons i items)
  let ?s = "items_text items"
  from Cons.prems have g: "glob_like items" and i: "i \<noteq> ReChar (CHR ''*'')" "i \<noteq> ReDigits"
    by (simp_all add: glob_like_def)
  have IH: "ReplaceAll ?s old new = ?s" using Cons.IH g .
  have s: "\<not> prefix [CHR 0x5C, CHR ''*'', CHR 0x5C, CHR '']''] ?s"
    using items_text_no_star [OF g] by (auto simp: prefix_def)
  show ?case
  proof (cases i)
    case (ReChar c)
    have "ReplaceAll (quote_char c @ ?s) old new = quote_char c @ ReplaceAll ?s old new"
    proof (cases "special c")
      case True
      then have q: "quote_char c = [CHR 0x5C, c]" by (simp add: quote_char_def)
      have "\<not> prefix old (CHR 0x5C # c # ?s)" using s assms by auto
      moreover have "\<not> prefix old (c # ?s)"
        using items_text_no_bracket [OF g] assms by (auto simp: prefix_def)
      ultimately show ?thesis using assms by (simp add: q ReplaceAll_miss)
    next
      case False
      then show ?thesis using assms quote_char_not_special [of c] by (auto simp: ReplaceAll_miss)
    qed
    with IH show ?thesis by (simp add: ReChar items_text_def)
  qed (use i IH assms in \<open>auto simp: items_text_def ReplaceAll_miss\<close>)
qed

lemma pathToRegexp_text: "pathToRegexp p = ''^'' @ items_text (glob_items p) @ ''$''"
  unfolding pathToRegexp_def Let_def
  by (simp add: step1 step2 step3 glob_items_like)

lemma parse_items_quote:
  "parse_items (quote_char c @ s @ ''$'') = map_option (Cons (ReChar c)) (parse_items (s @ ''$''))"
proof (cases "special c")
  case True
  then have "c \<noteq> CHR ''d''" by (auto simp: special_def)
  with True show ?thesis by (subst parse_items.simps) (simp add: quote_char_def)
next
  case False
  then show ?thesis
    by (subst parse_items.simps) (auto simp: quote_char_def special_def)
qed

lemma parse_items_text: "glob_like items \<Longrightarrow> parse_items (items_text items @ ''$'') = Some items"
proof (induction items)
  case Nil
  then show ?case by (subst parse_items.simps) (simp add: items_text_def)
next
  case (Cons i items)
  then have IH: "parse_items (items_text items @ ''$'') = Some items" and i: "i \<noteq> ReDigits"
    by (simp_all add: glob_like_def)
  show ?case
  proof (cases i)
    case (ReChar c)
    with IH parse_items_quote [of c "items_text items"] show ?thesis by (simp add: items_text_def)
  next
    case ReDotStar
    with IH show ?thesis by (subst parse_items.simps) (simp add: items_text_def)
  next
    case ReNoDotStar
    with IH show ?thesis by (subst parse_items.simps) (simp add: items_text_def)
  qed (use i in simp)
qed

lemma MustCompile_pathToRegexp: "MustCompile (pathToRegexp p) = Some (glob_items p)"
  by (simp add: MustCompile_def pathToRegexp_text parse_items_text glob_items_like)

section \<open>The language of an expression\<close>

fun item_lang :: "re_item \<Rightarrow> string \<Rightarrow> bool" where
  "item_lang (ReChar c) s = (s = [c])"
| "item_lang ReDotStar s = (CHR 0x0A \<notin> set s)"
| "item_lang ReNoDotStar s = (CHR ''.'' \<notin> set s)"
| "item_lang ReDigits s = (s \<noteq> [] \<and> list_all is_digit s)"

definition items_lang :: "re_item list \<Rightarrow> string \<Rightarrow> bool" where
  "items_lang items s = (\<exists>parts. s = concat parts \<and> list_all2 item_lang items parts)"

lemma items_lang_Nil [simp]: "items_lang [] s \<longleftrightarrow> s = []"
  by (auto simp: items_lang_def)

lemma items_lang_Cons: "items_lang (i # items) s \<longleftrightarrow> (\<exists>a b. s = a @ b \<and> item_lang i a \<and> items_lang items b)"
  unfolding items_lang_def list_all2_Cons1 by (metis concat.simps(2))

text \<open>A repeated character class is unfolded one character at a time.\<close>

lemma star_unfold:
  assumes "\<And>s. item_lang i s \<longleftrightarrow> list_all p s"
  shows "items_lang (i # r) s \<longleftrightarrow>
     items_lang r s \<or> (case s of x # t \<Rightarrow> p x \<and> items_lang (i # r) t | [] \<Rightarrow> False)"
proof
  assume "items_lang (i # r) s"
  then obtain a b where s: "s = a @ b" "list_all p a" "items_lang r b"
    by (auto simp: items_lang_Cons assms)
  then show "items_lang r s \<or> (case s of x # t \<Rightarrow> p x \<and> items_lang (i # r) t | [] \<Rightarrow> False)"
    by (cases a) (auto simp: items_lang_Cons assms)
next
  assume "items_lang r s \<or> (case s of x # t \<Rightarrow> p x \<and> items_lang (i # r) t | [] \<Rightarrow> False)"
  then show "items_lang (i # r) s"
  proof
    assume "items_lang r s"
    then show ?thesis unfolding items_lang_Cons by (intro exI [of _ "[]"] exI [of _ s]) (simp add: assms)
  next
    assume "case s of x # t \<Rightarrow> p x \<and> items_lang (i # r) t | [] \<Rightarrow> False"
    then obtain x a b where "s = (x # a) @ b" "list_all p (x # a)" "items_lang r b"
      by (auto simp: items_lang_Cons assms split: list.splits)
    then show ?thesis unfolding items_lang_Cons using assms by blast
  qed
qed

lemma MatchString_lang: "MatchString items s \<longleftrightarrow> items_lang items s"
proof (induction items s rule: MatchString.induct)
  case (1 s)
  then show ?case by simp
next
  case (2 c r s)
  then show ?case by (cases s) (auto simp: items_lang_Cons)
next
  case (3 r s)
  have "items_lang (ReDotStar # r) s \<longleftrightarrow>
      items_lang r s \<or> (case s of x # t \<Rightarrow> x \<noteq> CHR 0x0A \<and> items_lang (ReDotStar # r) t | [] \<Rightarrow> False)"
    by (rule star_unfold) (auto simp: list_all_iff)
  with 3 show ?case by (cases s) simp_all
next
  case (4 r s)
  have "items_lang (ReNoDotStar # r) s \<longleftrightarrow>
      items_lang r s \<or> (case s of x # t \<Rightarrow> x \<noteq> CHR ''.'' \<and> items_lang (ReNoDotStar # r) t | [] \<Rightarrow> False)"
    by (rule star_unfold) (auto simp: list_all_iff)
  with 4 show ?case by (cases s) simp_all
next
  case (5 r s)
  show ?case
  proof (cases s)
    case Nil
    then show ?thesis by (auto simp: items_lang_Cons)
  next
    case (Cons x t)
    have "items_lang (ReDigits # r) (x # t) \<longleftrightarrow> is_digit x \<and> (items_lang r t \<or> items_lang (ReDigits # r) t)"
    proof
      assume "items_lang (ReDigits # r) (x # t)"
      then obtain a b where ab: "x # t = a @ b" "a \<noteq> []" "list_all is_digit a" "items_lang r b"
        by (auto simp: items_lang_Cons)
      then obtain a' where "a = x # a'" "t = a' @ b" by (cases a) auto
      with ab have "is_digit x" "list_all is_digit a'" "a' \<noteq> [] \<longrightarrow> item_lang ReDigits a'" by auto
      with ab \<open>t = a' @ b\<close> show "is_digit x \<and> (items_lang r t \<or> items_lang (ReDigits # r) t)"
        unfolding items_lang_Cons by (cases "a' = []") auto
    next
      assume "is_digit x \<and> (items_lang r t \<or> items_lang (ReDigits # r) t)"
      then have "is_digit x" and "\<exists>a b. t = a @ b \<and> list_all is_digit a \<and> items_lang r b"
        by (auto simp: items_lang_Cons intro: exI [of _ "[]"])
      then obtain a b where "t = a @ b" "list_all is_digit (x # a)" "items_lang r b" by auto
      then show "items_lang (ReDigits # r) (x # t)"
        unfolding items_lang_Cons by (intro exI [of _ "x # a"] exI [of _ b]) simp
    qed
    with 5 Cons show ?thesis by simp
  qed
qed

section \<open>Rule sets\<close>

text \<open>The declarative meaning of a path pattern.\<close>

definition glob :: "string \<Rightarrow> string \<Rightarrow> bool" where
  "glob pattern path = items_lang (glob_items pattern) path"

lemma compile_paths_Some: "compile_paths m ps = Some (\<lambda>p. if p \<in> set ps then Some (glob_items p) else m p)"
  by (induction ps arbitrary: m) (auto simp: MustCompile_pathToRegexp fun_eq_iff)

lemma NewRuleSet_Some:
  "NewRuleSet rules ms =
     Some \<lparr>rs_Rules = rules, rs_matchers = add_matchers Map.empty ms,
       rs_compiled = (\<lambda>p. if p \<in> set (concat (map rule_Paths rules)) then Some (glob_items p) else None)\<rparr>"
  by (simp add: NewRuleSet_def compile_paths_Some)

lemma matchesPath_loop_iff:
  "matchesPath_loop rs ps path \<longleftrightarrow> (\<exists>p\<in>set ps. \<exists>re. rs_compiled rs p = Some re \<and> MatchString re path)"
  by (induction ps) (auto split: option.splits)

lemma matchesPath_glob:
  assumes "NewRuleSet rules ms = Some rs" and "rule \<in> set rules"
  shows "matchesPath rs rule path \<longleftrightarrow> (\<exists>p\<in>set (rule_Paths rule). glob p path)"
proof -
  have "rs_compiled rs p = Some (glob_items p)" if "p \<in> set (rule_Paths rule)" for p
    using assms that by (auto simp: NewRuleSet_Some)
  then show ?thesis
    by (auto simp: matchesPath_def matchesPath_loop_iff MatchString_lang glob_def)
qed

text \<open>Whether a rule, on its own, ignores a difference.\<close>

definition rule_ignores :: "(string \<rightharpoonup> Matcher) \<Rightarrow> Rule \<Rightarrow> Difference \<Rightarrow> bool" where
  "rule_ignores matchers rule d \<longleftrightarrow>
     (\<exists>p\<in>set (rule_Paths rule). glob p (df_Path d)) \<and>
     (rule_Kind rule = ''ignore'' \<or>
      rule_Kind rule = ''custom'' \<and>
        (\<exists>m. matchers (rule_Matcher rule) = Some m \<and> matcher_Match m (df_Path d) (df_Expected d) (df_Actual d)))"

definition mark :: "Rule list \<Rightarrow> Difference \<Rightarrow> Difference" where
  "mark hits d = (if hits = [] then d else d\<lparr>df_Ignored := True, df_Rule := rule_Name (last hits)\<rparr>)"

lemma apply_rule_mark:
  assumes "NewRuleSet rules ms = Some rs" and "rule \<in> set rules"
  shows "apply_rule rs d rule = (if rule_ignores (rs_matchers rs) rule d then mark [rule] d else d)"
  using matchesPath_glob [OF assms, of "df_Path d"]
  by (auto simp: apply_rule_def rule_ignores_def mark_def split: option.splits)

lemma rule_ignores_mark [simp]: "rule_ignores m rule (mark hits d) = rule_ignores m rule d"
  by (simp add: rule_ignores_def mark_def)

lemma mark_mark [simp]: "mark [r] (mark hits d) = mark (hits @ [r]) d"
  by (simp add: mark_def)

lemma foldl_apply_rule:
  assumes "NewRuleSet rules ms = Some rs" and "set rules' \<subseteq> set rules"
  shows "foldl (apply_rule rs) d rules' = mark (filter (\<lambda>r. rule_ignores (rs_matchers rs) r d) rules') d"
  using assms(2)
proof (induction rules' rule: rev_induct)
  case Nil
  then show ?case by (simp add: mark_def)
next
  case (snoc r rules')
  then have "foldl (apply_rule rs) d (rules' @ [r]) =
      apply_rule rs (mark (filter (\<lambda>r. rule_ignores (rs_matchers rs) r d) rules') d) r" by simp
  also have "\<dots> = mark (filter (\<lambda>r. rule_ignores (rs_matchers rs) r d) (rules' @ [r])) d"
    using snoc.prems by (simp add: apply_rule_mark [OF assms(1)])
  finally show ?case .
qed

lemma rs_Rules_New: "NewRuleSet rules ms = Some rs \<Longrightarrow> rs_Rules rs = rules"
  by (auto simp: NewRuleSet_Some)

lemma Apply_mark:
  "NewRuleSet rules ms = Some rs \<Longrightarrow>
   Apply rs ds = map (\<lambda>d. mark (filter (\<lambda>r. rule_ignores (rs_matchers rs) r d) rules) d) ds"
  by (simp add: Apply_def rs_Rules_New foldl_apply_rule)

lemma Apply_Nil_iff [simp]: "Apply rs ds = [] \<longleftrightarrow> ds = []"
  by (simp add: Apply_def)

lemma length_Apply [simp]: "length (Apply rs ds) = length ds"
  by (simp add: Apply_def)

lemma matcher_Match_sym: "matcher_Match m path e a = matcher_Match m path a e"
proof (cases m)
  case (NumericToleranceMatcher t)
  have "(let d = f64_sub x y in if d < 0 then - d else d) = (let d = f64_sub y x in if d < 0 then - d else d)" for x y
    by (subst f64_sub_swap) (auto simp: Let_def)
  then show ?thesis by (auto simp: NumericToleranceMatcher Let_def split: option.splits) metis+
qed (auto split: any.splits)

section \<open>Properties\<close>


text \<open>
  The last replacement of \<^verbatim>\<open>pathToRegexp\<close>, meant to restrict \<^verbatim>\<open>[*]\<close> to array indices, never
  applies: whatever the pattern, the text it is applied to does not contain what it looks for.
  So \<^verbatim>\<open>[*]\<close> is compiled to brackets around any text without a dot and also matches the path
  element \<^verbatim>\<open>[extra]\<close>, which is not an index.
\<close>

theorem array_index_wildcard_dead:
  "(let escaped = ReplaceAll (QuoteMeta pattern) [CHR 0x5C, CHR ''*'', CHR 0x5C, CHR ''*''] ''.*'';
        escaped = ReplaceAll escaped [CHR 0x5C, CHR ''*''] ''[^.]*''
    in pathToRegexp pattern = ''^'' @ escaped @ ''$'') \<and>
   (\<exists>re. MustCompile (pathToRegexp ''body.items[*]'') = Some re \<and> MatchString re ''body.items[extra]'')"
proof
  show "let escaped = ReplaceAll (QuoteMeta pattern) [CHR 0x5C, CHR ''*'', CHR 0x5C, CHR ''*''] ''.*'';
        escaped = ReplaceAll escaped [CHR 0x5C, CHR ''*''] ''[^.]*''
    in pathToRegexp pattern = ''^'' @ escaped @ ''$''"
    by (simp add: pathToRegexp_text step1 step2 glob_items_like)
  show "\<exists>re. MustCompile (pathToRegexp ''body.items[*]'') = Some re \<and> MatchString re ''body.items[extra]''"
    by (simp add: MustCompile_pathToRegexp)
qed

text \<open>
  C8. Applying a rule set keeps the list of differences and every field of each difference but
  \<^verbatim>\<open>Ignored\<close> and \<^verbatim>\<open>Rule\<close>. A difference becomes ignored exactly when some rule names its path and
  is of kind \<^verbatim>\<open>ignore\<close>, or of kind \<^verbatim>\<open>custom\<close> with a registered matcher that accepts the two
  values; it is then attributed to the last such rule. Rules of any other kind have no effect,
  and a rule's value pattern is never consulted.
\<close>

theorem Apply_correct:
  assumes "NewRuleSet rules matchers = Some rs"
  shows "Apply rs ds =
    map (\<lambda>d. let hits = filter (\<lambda>r. rule_ignores (rs_matchers rs) r d) rules
             in if hits = [] then d else d\<lparr>df_Ignored := True, df_Rule := rule_Name (last hits)\<rparr>) ds"
  by (simp add: Apply_mark [OF assms] mark_def Let_def)

theorem Apply_correct_witness:
  "\<exists>rs. NewRuleSet DefaultRuleList builtin_matchers = Some rs \<and>
     map df_Rule (Apply rs
       [difference DiffHeader ''headers.Date'' AnyNil AnyNil (Sprintf '''' []) SeverityWarning,
        difference DiffStatusCode ''statusCode'' (AnyInt 200) (AnyInt 500) (Sprintf '''' []) SeverityError]) =
     [''ignore_request_ids'', '''']"
proof -
  obtain rs where rs: "NewRuleSet DefaultRuleList builtin_matchers = Some rs"
    by (simp add: NewRuleSet_Some)
  have g: "glob p q = MatchString (glob_items p) q" for p q
    by (simp add: glob_def MatchString_lang)
  show ?thesis
    using rs by (intro exI [of _ rs])
      (simp add: Apply_correct [OF rs] DefaultRuleList_def rule_ignores_def g)
qed

text \<open>
  No built-in matcher depends on which of the two values was recorded and which replayed.
\<close>

theorem matcher_Match_symmetric:
  "matcher_Match m path expected actual = matcher_Match m path actual expected"
  by (rule matcher_Match_sym)

end
