(* ===== verification/Side_Effects.thy ===== *)
theory Side_Effects
  imports Json_Diff Go_Unicode
begin

text \<open>
  The side-effect comparers of \<^verbatim>\<open>internal/diff\<close>: SQL (\<^verbatim>\<open>db.go\<close>), MongoDB (\<^verbatim>\<open>mongo.go\<close>), Redis
  (\<^verbatim>\<open>redis.go\<close>) and the registry that runs them (\<^verbatim>\<open>sideeffects.go\<close>).

  The interface \<^verbatim>\<open>SideEffectComparer\<close> is a locale: a comparer looks at each effect through a view,
  which is absent for the effects it does not handle, and reports nothing exactly when the two
  sequences of views are equal. The three comparers are interpretations of it.
\<close>

section \<open>SQL\<close>

definition normalizeSQL :: "(nat \<Rightarrow> nat) \<Rightarrow> string \<Rightarrow> string" where
  "normalizeSQL up sql =
     (let sql = TrimSpace sql;
          sql = Join (Fields sql) '' ''
      in ToUpper up sql)"

definition filterByType :: "SideEffect list \<Rightarrow> string list \<Rightarrow> SideEffect list" where
  "filterByType effects dbTypes =
     filter (\<lambda>e. se_Type e = SideEffectDB \<and> SQL e \<noteq> None \<and> DatabaseType e \<in> set dbTypes) effects"

text \<open>
  One pass of the loop over the pairs. The filter has left only effects with a payload, so the
  last case does not occur.
\<close>

definition compare_sql_pair :: "(nat \<Rightarrow> nat) \<Rightarrow> string \<Rightarrow> SideEffect \<Rightarrow> SideEffect \<Rightarrow> Difference list" where
  "compare_sql_pair up path orig replay =
     (case (SQL orig, SQL replay) of
        (Some origPayload, Some replayPayload) \<Rightarrow>
          if normalizeSQL up (sql_Query origPayload) \<noteq> normalizeSQL up (sql_Query replayPayload)
          then [difference DiffDBQuery (path @ ''.query'')
                  (AnyString (sql_Query origPayload)) (AnyString (sql_Query replayPayload))
                  (Sprintf ''SQL statement differs'' []) SeverityError]
          else []
      | _ \<Rightarrow> [])"

definition CompareDBSideEffects ::
  "(nat \<Rightarrow> nat) \<Rightarrow> SideEffect list \<Rightarrow> SideEffect list \<Rightarrow> Difference list" where
  "CompareDBSideEffects up original replay =
     (let origSQL = filterByType original [MySQL, Postgres];
          replaySQL = filterByType replay [MySQL, Postgres]
      in (if length origSQL \<noteq> length replaySQL
          then [difference DiffDBQueryCount ''sideEffects.db''
                  (AnyInt (length origSQL)) (AnyInt (length replaySQL))
                  (Sprintf ''SQL query count differs: %d vs %d''
                     [AnyInt (length origSQL), AnyInt (length replaySQL)]) SeverityError]
          else []) @
         concat (map (\<lambda>i. compare_sql_pair up (itemPath ''sideEffects.db'' i) (origSQL ! i) (replaySQL ! i))
           [0 ..< min (length origSQL) (length replaySQL)]))"

section \<open>MongoDB\<close>

definition filterMongoEffects :: "SideEffect list \<Rightarrow> SideEffect list" where
  "filterMongoEffects effects =
     filter (\<lambda>e. se_Type e = SideEffectDB \<and> DatabaseType e = Mongo \<and> MongoPayload e \<noteq> None) effects"

definition compare_mongo_pair :: "string \<Rightarrow> SideEffect \<Rightarrow> SideEffect \<Rightarrow> Difference list" where
  "compare_mongo_pair path orig replay =
     (case (MongoPayload orig, MongoPayload replay) of
        (Some o', Some r) \<Rightarrow>
          (if mg_Collection o' \<noteq> mg_Collection r
           then [difference DiffMongoOp (path @ ''.collection'')
                   (AnyString (mg_Collection o')) (AnyString (mg_Collection r))
                   (Sprintf ''MongoDB collection differs'' []) SeverityError]
           else []) @
          (if mg_Operation o' \<noteq> mg_Operation r
           then [difference DiffMongoOp (path @ ''.operation'')
                   (AnyString (mg_Operation o')) (AnyString (mg_Operation r))
                   (Sprintf ''MongoDB operation type differs'' []) SeverityError]
           else []) @
          (if mg_Database o' \<noteq> mg_Database r
           then [difference DiffMongoOp (path @ ''.database'')
                   (AnyString (mg_Database o')) (AnyString (mg_Database r))
                   (Sprintf ''MongoDB database differs'' []) SeverityWarning]
           else [])
      | _ \<Rightarrow> [])"

definition CompareMongoSideEffects :: "SideEffect list \<Rightarrow> SideEffect list \<Rightarrow> Difference list" where
  "CompareMongoSideEffects original replay =
     (let origMongo = filterMongoEffects original;
          replayMongo = filterMongoEffects replay
      in (if length origMongo \<noteq> length replayMongo
          then [difference DiffMongoOp ''sideEffects.mongo''
                  (AnyInt (length origMongo)) (AnyInt (length replayMongo))
                  (Sprintf ''MongoDB operation count differs: %d vs %d''
                     [AnyInt (length origMongo), AnyInt (length replayMongo)]) SeverityError]
          else []) @
         concat (map (\<lambda>i. compare_mongo_pair (itemPath ''sideEffects.mongo'' i) (origMongo ! i) (replayMongo ! i))
           [0 ..< min (length origMongo) (length replayMongo)]))"

section \<open>Redis\<close>

definition filterRedisEffects :: "SideEffect list \<Rightarrow> SideEffect list" where
  "filterRedisEffects effects =
     filter (\<lambda>e. se_Type e = SideEffectDB \<and> DatabaseType e = Redis \<and> RedisPayload e \<noteq> None) effects"

definition compare_redis_pair :: "string \<Rightarrow> SideEffect \<Rightarrow> SideEffect \<Rightarrow> Difference list" where
  "compare_redis_pair path orig replay =
     (case (RedisPayload orig, RedisPayload replay) of
        (Some o', Some r) \<Rightarrow>
          (if rd_Command o' \<noteq> rd_Command r
           then [difference DiffRedisCommand (path @ ''.command'')
                   (AnyString (rd_Command o')) (AnyString (rd_Command r))
                   (Sprintf ''Redis command differs'' []) SeverityError]
           else []) @
          (if rd_Key o' \<noteq> rd_Key r
           then [difference DiffRedisCommand (path @ ''.key'')
                   (AnyString (rd_Key o')) (AnyString (rd_Key r))
                   (Sprintf ''Redis key differs'' []) SeverityError]
           else []) @
          (if rd_Args o' \<noteq> rd_Args r
           then [difference DiffRedisCommand (path @ ''.args'')
                   (AnyStrings (rd_Args o')) (AnyStrings (rd_Args r))
                   (Sprintf ''Redis command arguments differ'' []) SeverityError]
           else [])
      | _ \<Rightarrow> [])"

definition CompareRedisSideEffects :: "SideEffect list \<Rightarrow> SideEffect list \<Rightarrow> Difference list" where
  "CompareRedisSideEffects original replay =
     (let origRedis = filterRedisEffects original;
          replayRedis = filterRedisEffects replay
      in (if length origRedis \<noteq> length replayRedis
          then [difference DiffRedisCount ''sideEffects.redis''
                  (AnyInt (length origRedis)) (AnyInt (length replayRedis))
                  (Sprintf ''Redis command count differs: %d vs %d''
                     [AnyInt (length origRedis), AnyInt (length replayRedis)]) SeverityError]
          else []) @
         concat (map (\<lambda>i. compare_redis_pair (itemPath ''sideEffects.redis'' i) (origRedis ! i) (replayRedis ! i))
           [0 ..< min (length origRedis) (length replayRedis)]))"

section \<open>The registry\<close>

record SideEffectComparer =
  HandledDBTypes :: "string list"
  comparer_Compare :: "SideEffect list \<Rightarrow> SideEffect list \<Rightarrow> Difference list"

definition defaultSideEffectComparers :: "(nat \<Rightarrow> nat) \<Rightarrow> SideEffectComparer list" where
  "defaultSideEffectComparers up =
     [\<lparr>HandledDBTypes = [MySQL, Postgres], comparer_Compare = CompareDBSideEffects up\<rparr>,
      \<lparr>HandledDBTypes = [Mongo], comparer_Compare = CompareMongoSideEffects\<rparr>,
      \<lparr>HandledDBTypes = [Redis], comparer_Compare = CompareRedisSideEffects\<rparr>]"

fun countResidualSideEffects :: "SideEffect list \<Rightarrow> string list \<Rightarrow> nat" where
  "countResidualSideEffects [] handled = 0"
| "countResidualSideEffects (effect # effects) handled =
     (if se_Type effect \<noteq> SideEffectDB then 1 + countResidualSideEffects effects handled
      else if DatabaseType effect \<notin> set handled then 1 + countResidualSideEffects effects handled
      else countResidualSideEffects effects handled)"

definition compareSideEffectsWith ::
  "SideEffectComparer list \<Rightarrow> SideEffect list \<Rightarrow> SideEffect list \<Rightarrow> Difference list" where
  "compareSideEffectsWith comparers original replay =
     (let handled = concat (map HandledDBTypes comparers);
          otherOriginal = countResidualSideEffects original handled;
          otherReplay = countResidualSideEffects replay handled
      in concat (map (\<lambda>c. comparer_Compare c original replay) comparers) @
         (if otherOriginal \<noteq> otherReplay
          then [difference DiffDBQueryCount ''sideEffects'' (AnyInt otherOriginal) (AnyInt otherReplay)
                  (Sprintf ''residual side effect count differs: %d vs %d''
                     [AnyInt otherOriginal, AnyInt otherReplay]) SeverityError]
          else []))"

definition CompareSideEffects ::
  "(nat \<Rightarrow> nat) \<Rightarrow> SideEffect list \<Rightarrow> SideEffect list \<Rightarrow> Difference list" where
  "CompareSideEffects up original replay =
     compareSideEffectsWith (defaultSideEffectComparers up) original replay"

section \<open>The interface of a comparer\<close>

locale side_effect_comparer =
  fixes compare :: "SideEffect list \<Rightarrow> SideEffect list \<Rightarrow> Difference list"
    and view :: "SideEffect \<Rightarrow> 'v option"
  assumes compare_Nil_iff: "compare original replay = [] \<longleftrightarrow> List.map_filter view original = List.map_filter view replay"
begin

lemma compare_refl: "compare effects effects = []"
  by (simp add: compare_Nil_iff)

lemma compare_sym: "compare original replay = [] \<longleftrightarrow> compare replay original = []"
  by (auto simp: compare_Nil_iff)

lemma compare_trans: "compare a b = [] \<Longrightarrow> compare b c = [] \<Longrightarrow> compare a c = []"
  by (simp add: compare_Nil_iff)

lemma compare_irrelevant:
  "view e = None \<Longrightarrow> compare (xs @ e # ys) replay = [] \<longleftrightarrow> compare (xs @ ys) replay = []"
  by (simp add: compare_Nil_iff map_filter_def)

end

text \<open>A count check followed by a check of the pairs decides equality of the views.\<close>

lemma pairwise_Nil_iff:
  assumes "\<And>x. x \<in> set xs \<union> set ys \<Longrightarrow> \<exists>v. view x = Some v"
    and "\<And>i x y. x \<in> set xs \<Longrightarrow> y \<in> set ys \<Longrightarrow> cmp i x y = [] \<longleftrightarrow> view x = view y"
  shows "(if length xs \<noteq> length ys then [d] else []) @
           concat (map (\<lambda>i. cmp i (xs ! i) (ys ! i)) [0 ..< min (length xs) (length ys)]) = [] \<longleftrightarrow>
         map (the \<circ> view) xs = map (the \<circ> view) ys"
proof -
  have eq: "cmp i (xs ! i) (ys ! i) = [] \<longleftrightarrow> the (view (xs ! i)) = the (view (ys ! i))"
    if "i < length xs" "i < length ys" for i
    using assms(1) [of "xs ! i"] assms(1) [of "ys ! i"] assms(2) [of "xs ! i" "ys ! i" i] that
    by (auto simp: nth_mem)
  show ?thesis
    by (auto simp: concat_map_eq_Nil eq list_eq_iff_nth_eq [of "map (the \<circ> view) xs"] simp del: concat_eq_Nil_conv)
qed

definition sql_view :: "(nat \<Rightarrow> nat) \<Rightarrow> SideEffect \<Rightarrow> string option" where
  "sql_view up e =
     (if se_Type e = SideEffectDB \<and> DatabaseType e \<in> {MySQL, Postgres}
      then map_option (normalizeSQL up \<circ> sql_Query) (SQL e) else None)"

definition mongo_view :: "SideEffect \<Rightarrow> (string \<times> string \<times> string) option" where
  "mongo_view e =
     (if se_Type e = SideEffectDB \<and> DatabaseType e = Mongo
      then map_option (\<lambda>p. (mg_Collection p, mg_Operation p, mg_Database p)) (MongoPayload e) else None)"

definition redis_view :: "SideEffect \<Rightarrow> (string \<times> string \<times> string list) option" where
  "redis_view e =
     (if se_Type e = SideEffectDB \<and> DatabaseType e = Redis
      then map_option (\<lambda>p. (rd_Command p, rd_Key p, rd_Args p)) (RedisPayload e) else None)"

lemma map_filter_view: "List.map_filter view xs = map (the \<circ> view) (filter (\<lambda>x. view x \<noteq> None) xs)"
  by (simp add: map_filter_def)

lemma sql_pair_Nil_iff:
  "sql_view up x \<noteq> None \<Longrightarrow> sql_view up y \<noteq> None \<Longrightarrow> compare_sql_pair up p x y = [] \<longleftrightarrow> sql_view up x = sql_view up y"
  by (auto simp: sql_view_def compare_sql_pair_def split: option.splits if_splits)

lemma mongo_pair_Nil_iff:
  "mongo_view x \<noteq> None \<Longrightarrow> mongo_view y \<noteq> None \<Longrightarrow> compare_mongo_pair p x y = [] \<longleftrightarrow> mongo_view x = mongo_view y"
  by (auto simp: mongo_view_def compare_mongo_pair_def split: option.splits if_splits)

lemma redis_pair_Nil_iff:
  "redis_view x \<noteq> None \<Longrightarrow> redis_view y \<noteq> None \<Longrightarrow> compare_redis_pair p x y = [] \<longleftrightarrow> redis_view x = redis_view y"
  by (auto simp: redis_view_def compare_redis_pair_def split: option.splits if_splits)

lemma filterByType_view: "filterByType es [MySQL, Postgres] = filter (\<lambda>e. sql_view up e \<noteq> None) es"
  by (auto simp: filterByType_def sql_view_def intro!: filter_cong)

lemma filterMongoEffects_view: "filterMongoEffects es = filter (\<lambda>e. mongo_view e \<noteq> None) es"
  by (auto simp: filterMongoEffects_def mongo_view_def intro!: filter_cong)

lemma filterRedisEffects_view: "filterRedisEffects es = filter (\<lambda>e. redis_view e \<noteq> None) es"
  by (auto simp: filterRedisEffects_def redis_view_def intro!: filter_cong)

interpretation sql: side_effect_comparer "CompareDBSideEffects up" "sql_view up" for up
  by unfold_locales
    (unfold CompareDBSideEffects_def Let_def filterByType_view [of _ up] map_filter_view,
      rule pairwise_Nil_iff, auto simp: sql_pair_Nil_iff)

interpretation mongo: side_effect_comparer CompareMongoSideEffects mongo_view
  by unfold_locales
    (unfold CompareMongoSideEffects_def Let_def filterMongoEffects_view map_filter_view,
      rule pairwise_Nil_iff, auto simp: mongo_pair_Nil_iff)

interpretation redis: side_effect_comparer CompareRedisSideEffects redis_view
  by unfold_locales
    (unfold CompareRedisSideEffects_def Let_def filterRedisEffects_view map_filter_view,
      rule pairwise_Nil_iff, auto simp: redis_pair_Nil_iff)

section \<open>SQL normalisation\<close>

lemma split_fields_append_space:
  "list_all sp b \<Longrightarrow> split_fields sp (a @ b) = split_fields sp a"
proof (induction sp a rule: split_fields.induct)
  case (1 sp a)
  show ?case
  proof (cases "dropWhile sp a")
    case Nil
    then have "dropWhile sp (a @ b) = []"
      using "1.prems" by (auto simp: list_all_iff)
    with Nil show ?thesis by (simp only: split_fields_Nil)
  next
    case (Cons r a')
    then have ab: "dropWhile sp (a @ b) = r # (a' @ b)"
      by (metis append_Cons dropWhile_append dropWhile_eq_Nil_conv list.distinct(1))
    have b: "takeWhile (\<lambda>x. \<not> sp x) b = []" "dropWhile (\<lambda>x. \<not> sp x) b = b"
      using "1.prems" by (cases b; simp)+
    then have "takeWhile (\<lambda>x. \<not> sp x) (a' @ b) = takeWhile (\<lambda>x. \<not> sp x) a'"
      "dropWhile (\<lambda>x. \<not> sp x) (a' @ b) = dropWhile (\<lambda>x. \<not> sp x) a' @ b"
      by (auto simp: takeWhile_append dropWhile_append takeWhile_eq_all_conv [THEN iffD2])
    with "1.IH" [OF Cons "1.prems"] show ?thesis
      by (simp only: split_fields_Cons [OF Cons] split_fields_Cons [OF ab])
  qed
qed

lemma split_fields_trim:
  "split_fields sp (rev (dropWhile sp (rev (dropWhile sp s)))) = split_fields sp s"
proof -
  let ?t = "dropWhile sp s"
  have "?t = rev (dropWhile sp (rev ?t)) @ rev (takeWhile sp (rev ?t))"
    by (metis rev_append rev_rev_ident takeWhile_dropWhile_id)
  moreover have "list_all sp (rev (takeWhile sp (rev ?t)))"
    by (auto simp: list_all_iff dest: set_takeWhileD)
  ultimately have "split_fields sp ?t = split_fields sp (rev (dropWhile sp (rev ?t)))"
    by (metis split_fields_append_space)
  then show ?thesis by (simp add: split_fields_dropWhile)
qed

lemma split_fields_Join:
  assumes "\<And>w. w \<in> set ws \<Longrightarrow> w \<noteq> [] \<and> (\<forall>c\<in>set w. \<not> is_space c)"
  shows "split_fields is_space (Join ws '' '') = ws"
  using assms
proof (induction ws "'' '' :: string" rule: Join.induct)
  case 1
  then show ?case by (simp add: split_fields_Nil)
next
  case (2 w)
  then obtain c w' where w: "w = c # w'" by (cases w) auto
  with 2 have c: "dropWhile is_space w = c # w'" and w': "\<forall>x\<in>set w'. \<not> is_space x" by auto
  show ?case
    unfolding Join.simps split_fields_Cons [OF c] using w'
    by (simp add: w split_fields_Nil takeWhile_eq_all_conv [THEN iffD2] dropWhile_eq_Nil_conv [THEN iffD2])
next
  case (3 w v ws)
  then obtain c w' where w: "w = c # w'" by (cases w) auto
  let ?rest = "'' '' @ Join (v # ws) '' ''"
  have nc: "\<not> is_space c" and w': "\<forall>x\<in>set w'. \<not> is_space x" using "3.prems" [of w] w by auto
  have c: "dropWhile is_space (Join (w # v # ws) '' '') = c # (w' @ ?rest)"
    using nc w by simp
  have sp: "is_space CHR '' ''" by (simp add: is_space_def IsSpace_def)
  have "takeWhile (\<lambda>x. \<not> is_space x) (w' @ ?rest) = w'" "dropWhile (\<lambda>x. \<not> is_space x) (w' @ ?rest) = ?rest"
    using w' sp by (simp_all add: takeWhile_append2 dropWhile_append2)
  moreover have "split_fields is_space ?rest = split_fields is_space (Join (v # ws) '' '')"
    using split_fields_dropWhile [of is_space ?rest] split_fields_dropWhile [of is_space "Join (v # ws) '' ''"] sp
    by simp
  moreover have "split_fields is_space (Join (v # ws) '' '') = v # ws"
    by (rule "3.hyps", rule "3.prems") simp
  ultimately show ?case
    unfolding split_fields_Cons [OF c] by (simp add: w)
qed

lemma map_Join: "map f (Join ws '' '') = Join (map (map f) ws) [f CHR '' '']"
  by (induction ws "'' '' :: string" rule: Join.induct) simp_all

lemma split_fields_ascii:
  "list_all is_ascii s \<Longrightarrow> w \<in> set (split_fields sp s) \<Longrightarrow> list_all is_ascii w"
proof (induction sp s rule: split_fields.induct)
  case (1 sp s)
  show ?case
  proof (cases "dropWhile sp s")
    case Nil
    with "1.prems" show ?thesis by (simp add: split_fields_Nil)
  next
    case (Cons r s')
    have sub: "set (r # s') \<subseteq> set s" by (metis Cons set_dropWhileD subsetI)
    then have a: "is_ascii r" "list_all is_ascii (dropWhile (\<lambda>x. \<not> sp x) s')" "list_all is_ascii (takeWhile (\<lambda>x. \<not> sp x) s')"
      using "1.prems"(1) by (auto simp: list_all_iff dest: set_dropWhileD set_takeWhileD)
    from "1.prems"(2) consider "w = r # takeWhile (\<lambda>x. \<not> sp x) s'"
      | "w \<in> set (split_fields sp (dropWhile (\<lambda>x. \<not> sp x) s'))"
      by (auto simp: split_fields_Cons [OF Cons])
    then show ?thesis using "1.IH" [OF Cons a(2)] a by cases auto
  qed
qed

lemma Join_ascii: "(\<And>w. w \<in> set ws \<Longrightarrow> list_all is_ascii w) \<Longrightarrow> list_all is_ascii (Join ws '' '')"
  by (induction ws "'' '' :: string" rule: Join.induct) (auto simp: is_ascii_def)

lemma normalizeSQL_ascii:
  assumes "list_all is_ascii s"
  shows "normalizeSQL up s = Join (map (map upper_char) (Fields s)) '' ''"
proof -
  have t: "list_all is_ascii (TrimSpace s)"
    using assms by (auto simp: TrimSpace_ascii list_all_iff dest!: set_dropWhileD)
  have f: "Fields (TrimSpace s) = Fields s"
    using assms t by (simp add: Fields_ascii) (simp add: TrimSpace_ascii split_fields_trim)
  have "list_all is_ascii (Join (Fields s) '' '')"
    using assms by (auto simp: Fields_ascii intro!: Join_ascii intro: split_fields_ascii)
  then show ?thesis
    by (simp add: normalizeSQL_def f ToUpper_ascii map_Join) (simp add: upper_char_def)
qed

lemma normalizeSQL_words:
  assumes "list_all is_ascii s"
  shows "split_fields is_space (normalizeSQL up s) = map (map upper_char) (Fields s)"
proof -
  have "w \<noteq> [] \<and> (\<forall>c\<in>set w. \<not> is_space c)" if w: "w \<in> set (map (map upper_char) (Fields s))" for w
  proof -
    from w obtain v where v: "v \<in> set (split_fields is_space s)" "w = map upper_char v"
      using assms by (auto simp: Fields_ascii)
    from split_fields_words [OF v(1)] split_fields_ascii [OF assms v(1)] v(2) show ?thesis
      by (auto simp: list_all_iff)
  qed
  then show ?thesis unfolding normalizeSQL_ascii [OF assms] by (rule split_fields_Join)
qed

lemma CompareSideEffects_Nil_iff:
  "CompareSideEffects up original replay = [] \<longleftrightarrow>
     List.map_filter (sql_view up) original = List.map_filter (sql_view up) replay \<and>
     List.map_filter mongo_view original = List.map_filter mongo_view replay \<and>
     List.map_filter redis_view original = List.map_filter redis_view replay \<and>
     countResidualSideEffects original Supported = countResidualSideEffects replay Supported"
  by (simp add: CompareSideEffects_def compareSideEffectsWith_def defaultSideEffectComparers_def
      Supported_def sql.compare_Nil_iff mongo.compare_Nil_iff redis.compare_Nil_iff Let_def)

section \<open>Properties\<close>

text \<open>
  C22. The registry is exact. Comparing the side effects of a recorded and of a replayed request
  reports nothing if and only if the two have, each in order, the same SQL statements up to
  normalisation, the same MongoDB operations (collection, operation, database), the same Redis
  commands (command, key, arguments), and the same number of effects that no comparer handles.
  How effects of different databases interleave does not matter.
\<close>

theorem CompareSideEffects_exact:
  "CompareSideEffects up original replay = [] \<longleftrightarrow>
     List.map_filter (sql_view up) original = List.map_filter (sql_view up) replay \<and>
     List.map_filter mongo_view original = List.map_filter mongo_view replay \<and>
     List.map_filter redis_view original = List.map_filter redis_view replay \<and>
     countResidualSideEffects original Supported = countResidualSideEffects replay Supported"
  by (rule CompareSideEffects_Nil_iff)

text \<open>
  Two SQL statements in ASCII are treated as the same exactly when they consist of the same
  words up to the case of ASCII letters; white space matters only as a separator of words.
\<close>

theorem normalizeSQL_exact:
  assumes "list_all is_ascii s" and "list_all is_ascii t"
  shows "normalizeSQL up s = normalizeSQL up t \<longleftrightarrow>
         map (map upper_char) (Fields s) = map (map upper_char) (Fields t)"
  by (metis assms normalizeSQL_ascii normalizeSQL_words)

theorem normalizeSQL_exact_witness:
  "normalizeSQL id ''select  1 '' = normalizeSQL id ''SELECT 1'' \<and>
   normalizeSQL id ''select 1'' \<noteq> normalizeSQL id ''select1''"
proof -
  have a: "list_all is_ascii ''select  1 ''" "list_all is_ascii ''SELECT 1''"
    "list_all is_ascii ''select 1''" "list_all is_ascii ''select1''"
    by (simp_all add: is_ascii_def)
  have f: "Fields ''select  1 '' = [''select'', ''1'']" "Fields ''SELECT 1'' = [''SELECT'', ''1'']"
    "Fields ''select 1'' = [''select'', ''1'']" "Fields ''select1'' = [''select1'']"
    by (simp_all add: Fields_ascii is_ascii_def split_fields.simps is_space_def IsSpace_def)
  show ?thesis
    using normalizeSQL_exact [OF a(1,2), of id] normalizeSQL_exact [OF a(3,4), of id]
    by (simp add: f upper_char_def char_of_eq_iff)
qed

text \<open>
  The upper-casing of a whole statement, not only of its keywords, hides differences in string
  literals: two updates that store different values compare as equal.
\<close>

theorem normalizeSQL_literals_conflated:
  "normalizeSQL up (''UPDATE u SET name = '' @ [CHR 0x27] @ ''bob'' @ [CHR 0x27]) =
   normalizeSQL up (''UPDATE u SET name = '' @ [CHR 0x27] @ ''BOB'' @ [CHR 0x27])"
proof -
  have a: "list_all is_ascii (''UPDATE u SET name = '' @ [CHR 0x27] @ ''bob'' @ [CHR 0x27])"
    "list_all is_ascii (''UPDATE u SET name = '' @ [CHR 0x27] @ ''BOB'' @ [CHR 0x27])"
    by (simp_all add: is_ascii_def)
  show ?thesis
    unfolding normalizeSQL_ascii [OF a(1)] normalizeSQL_ascii [OF a(2)] Fields_ascii [OF a(1)] Fields_ascii [OF a(2)]
    by (simp add: split_fields.simps is_space_def IsSpace_def upper_char_def char_of_eq_iff)
qed

end
