(* ===== verification/Diff_Engine.thy ===== *)
theory Diff_Engine
  imports Rules Side_Effects Storage
begin

text \<open>
  The diff engine (\<^verbatim>\<open>internal/diff/engine.go\<close>), the summary of its results
  (\<^verbatim>\<open>FormatDiffSummary\<close> in \<^verbatim>\<open>internal/diff/rules.go\<close>) and the summary by category of the reports
  (\<^verbatim>\<open>internal/reporter\<close>). A run reads both record files of a session from the store, pairs the
  records by sequence number, compares each pair, applies the rules and stores the results.
\<close>

section \<open>The engine\<close>

record EngineConfig =
  cfg_SessionID :: string
  cfg_Rules :: "Rule list"
  cfg_IgnoreOrder :: bool
  cfg_IgnoreHeaders :: "string list"
  cfg_MaxDiffs :: int

record Engine =
  eng_sessionID :: string
  eng_ruleSet :: RuleSet
  eng_ignoreOrder :: bool
  eng_maxDiffs :: int
  eng_ignoreHeaders :: "string list"

text \<open>\<open>None\<close> is a panic while compiling the rules.\<close>

definition NewEngine :: "EngineConfig \<Rightarrow> Engine option" where
  "NewEngine cfg =
     (let ignoreHeaders = DefaultIgnoreHeaders @ cfg_IgnoreHeaders cfg
      in case DefaultRules of
           None \<Rightarrow> None
         | Some defaults \<Rightarrow>
             (case NewRuleSet (rs_Rules defaults @ cfg_Rules cfg) builtin_matchers of
                None \<Rightarrow> None
              | Some ruleSet \<Rightarrow>
                  Some \<lparr>eng_sessionID = cfg_SessionID cfg, eng_ruleSet = ruleSet,
                    eng_ignoreOrder = cfg_IgnoreOrder cfg,
                    eng_maxDiffs = (if cfg_MaxDiffs cfg \<le> 0 then 1000 else cfg_MaxDiffs cfg),
                    eng_ignoreHeaders = ignoreHeaders\<rparr>))"

text \<open>\<^verbatim>\<open>fmt.Sprintf("%v", vs)\<close> of a slice of strings.\<close>

definition sprint_strings :: "string list \<Rightarrow> string" where
  "sprint_strings vs = ''['' @ Join vs '' '' @ '']''"

fun compare_header :: "string list \<Rightarrow> headers \<Rightarrow> string \<times> string list \<Rightarrow> Difference list" where
  "compare_header ignored actual (k, ev) =
     (if k \<in> set ignored then []
      else case map_of actual k of
             None \<Rightarrow> [difference DiffHeader (''headers.'' @ k) (AnyStrings ev) AnyNil
                       (Sprintf ''response header missing: %s'' [AnyString k]) SeverityWarning]
           | Some av \<Rightarrow>
               if sprint_strings ev \<noteq> sprint_strings av
               then [difference DiffHeader (''headers.'' @ k) (AnyStrings ev) (AnyStrings av)
                       (Sprintf ''response header differs: %s'' [AnyString k]) SeverityWarning]
               else [])"

definition compareHeaders :: "Engine \<Rightarrow> headers \<Rightarrow> headers \<Rightarrow> Difference list" where
  "compareHeaders e expected actual = concat (map (compare_header (eng_ignoreHeaders e) actual) expected)"

definition limitDiffs :: "Engine \<Rightarrow> Difference list \<Rightarrow> bool \<Rightarrow> Difference list" where
  "limitDiffs e ds matched =
     (if int (length ds) \<le> eng_maxDiffs e then ds
      else take (nat (eng_maxDiffs e)) ds @
        [(difference DiffBody '''' AnyNil AnyNil
            (Sprintf ''differences truncated after %d items'' [AnyInt (eng_maxDiffs e)]) SeverityInfo)
           \<lparr>df_Ignored := matched\<rparr>])"

text \<open>The differences of a pair of records before the rules are applied.\<close>

definition raw_differences ::
  "(nat \<Rightarrow> nat) \<Rightarrow> (bytes \<Rightarrow> any option) \<Rightarrow> Engine \<Rightarrow> Record \<Rightarrow> Record \<Rightarrow> Difference list" where
  "raw_differences up unmarshal e original replay =
     (if resp_StatusCode (rec_Response original) \<noteq> resp_StatusCode (rec_Response replay)
      then [difference DiffStatusCode ''statusCode''
              (AnyInt (resp_StatusCode (rec_Response original))) (AnyInt (resp_StatusCode (rec_Response replay)))
              (Sprintf ''status code differs: %d vs %d''
                 [AnyInt (resp_StatusCode (rec_Response original)), AnyInt (resp_StatusCode (rec_Response replay))])
              SeverityError]
      else []) @
     compareHeaders e (resp_Headers (rec_Response original)) (resp_Headers (rec_Response replay)) @
     (if 0 < length (resp_Body (rec_Response original)) \<or> 0 < length (resp_Body (rec_Response replay))
      then Compare unmarshal (eng_ignoreOrder e) (resp_Body (rec_Response original)) (resp_Body (rec_Response replay))
      else []) @
     CompareSideEffects up (rec_SideEffects original) (rec_SideEffects replay)"

fun all_ignored :: "Difference list \<Rightarrow> bool" where
  "all_ignored [] = True"
| "all_ignored (d # ds) = (if \<not> df_Ignored d then False else all_ignored ds)"

definition compareRecords ::
  "(nat \<Rightarrow> nat) \<Rightarrow> (bytes \<Rightarrow> any option) \<Rightarrow> Engine \<Rightarrow> Record \<Rightarrow> Record \<Rightarrow> DiffResult" where
  "compareRecords up unmarshal e original replay =
     (if rec_Error replay \<noteq> '''' then
        \<lparr>res_RecordID = rec_ID original, res_Sequence = rec_Sequence original,
         res_Request = rec_Request original, res_Match = False,
         res_Differences =
           [difference DiffBody '''' AnyNil AnyNil
              (Sprintf ''replay failed: %s'' [AnyString (rec_Error replay)]) SeverityError]\<rparr>
      else
        let ds = Apply (eng_ruleSet e) (raw_differences up unmarshal e original replay);
            matched = all_ignored ds
        in \<lparr>res_RecordID = rec_ID original, res_Sequence = rec_Sequence original,
            res_Request = rec_Request original, res_Match = matched,
            res_Differences = limitDiffs e ds matched\<rparr>)"

section \<open>A run\<close>

fun replay_index :: "(int \<rightharpoonup> Record) \<Rightarrow> Record list \<Rightarrow> (int \<rightharpoonup> Record)" where
  "replay_index m [] = m"
| "replay_index m (r # replays) = replay_index (m(rec_Sequence r \<mapsto> r)) replays"

definition compare_original ::
  "(nat \<Rightarrow> nat) \<Rightarrow> (bytes \<Rightarrow> any option) \<Rightarrow> Engine \<Rightarrow> (int \<rightharpoonup> Record) \<Rightarrow> Record \<Rightarrow> DiffResult" where
  "compare_original up unmarshal e replayMap orig =
     (case replayMap (rec_Sequence orig) of
        None \<Rightarrow>
          \<lparr>res_RecordID = rec_ID orig, res_Sequence = rec_Sequence orig, res_Request = rec_Request orig,
           res_Match = False,
           res_Differences =
             [difference DiffBody '''' AnyNil AnyNil (Sprintf ''replay record missing'' []) SeverityError]\<rparr>
      | Some replay \<Rightarrow> compareRecords up unmarshal e orig replay)"

datatype engine_error =
    LoadRecordsFailed storage_error
  | LoadReplaysFailed storage_error
  | NoRecords string
  | NoReplays string

text \<open>A failure to store the results is only logged.\<close>

definition Run ::
  "(nat \<Rightarrow> nat) \<Rightarrow> (bytes \<Rightarrow> any option) \<Rightarrow> json_codec \<Rightarrow> FileStore \<Rightarrow> Engine \<Rightarrow> fs
     \<Rightarrow> fs \<times> (engine_error + DiffResult list)" where
  "Run up unmarshal json st e fs =
     (case ListRecords json st fs (eng_sessionID e) of
        (_, Some err) \<Rightarrow> (fs, Inl (LoadRecordsFailed err))
      | (originals, None) \<Rightarrow>
          (case ListReplayRecords json st fs (eng_sessionID e) of
             (_, Some err) \<Rightarrow> (fs, Inl (LoadReplaysFailed err))
           | (replays, None) \<Rightarrow>
               if originals = [] then (fs, Inl (NoRecords (eng_sessionID e)))
               else if replays = [] then (fs, Inl (NoReplays (eng_sessionID e)))
               else let results = map (compare_original up unmarshal e (replay_index Map.empty replays)) originals
                    in (fst (SaveResults json st fs (eng_sessionID e) results), Inr results)))"

section \<open>Summaries\<close>

fun summary_differences :: "DiffSummary \<Rightarrow> Difference list \<Rightarrow> DiffSummary" where
  "summary_differences s [] = s"
| "summary_differences s (d # ds) =
     summary_differences
       (if df_Ignored d then s\<lparr>sum_IgnoreCount := sum_IgnoreCount s + 1\<rparr>
        else if df_Severity d = SeverityError then s\<lparr>sum_ErrorCount := sum_ErrorCount s + 1\<rparr>
        else s) ds"

fun summary_results :: "DiffSummary \<Rightarrow> DiffResult list \<Rightarrow> DiffSummary" where
  "summary_results s [] = s"
| "summary_results s (r # rs) =
     (let s = (if res_Match r then s\<lparr>sum_MatchCount := sum_MatchCount s + 1\<rparr>
               else s\<lparr>sum_DiffCount := sum_DiffCount s + 1\<rparr>)
      in summary_results (summary_differences s (res_Differences r)) rs)"

definition FormatDiffSummary :: "DiffResult list \<Rightarrow> DiffSummary" where
  "FormatDiffSummary results =
     (let s = summary_results
                \<lparr>sum_SessionID = '''', sum_TotalCount = length results, sum_MatchCount = 0, sum_DiffCount = 0,
                 sum_ErrorCount = 0, sum_IgnoreCount = 0, sum_MatchRate = 0\<rparr> results
      in if 0 < sum_TotalCount s
         then s\<lparr>sum_MatchRate := f64_div (f64_of_int (int (sum_MatchCount s))) (f64_of_int (int (sum_TotalCount s)))\<rparr>
         else s)"

record DifferenceSummary =
  ds_HTTP :: nat
  ds_SQL :: nat
  ds_MongoDB :: nat
  ds_Redis :: nat
  ds_UnknownSideEffect :: nat
  ds_Ignored :: nat

definition Total :: "DifferenceSummary \<Rightarrow> nat" where
  "Total s = ds_HTTP s + ds_SQL s + ds_MongoDB s + ds_Redis s + ds_UnknownSideEffect s"

definition summarize_difference :: "DifferenceSummary \<Rightarrow> Difference \<Rightarrow> DifferenceSummary" where
  "summarize_difference s d =
     (if df_Ignored d then s\<lparr>ds_Ignored := ds_Ignored s + 1\<rparr>
      else case df_Kind d of
             DiffStatusCode \<Rightarrow> s\<lparr>ds_HTTP := ds_HTTP s + 1\<rparr>
           | DiffHeader \<Rightarrow> s\<lparr>ds_HTTP := ds_HTTP s + 1\<rparr>
           | DiffBody \<Rightarrow> s\<lparr>ds_HTTP := ds_HTTP s + 1\<rparr>
           | DiffBodyField \<Rightarrow> s\<lparr>ds_HTTP := ds_HTTP s + 1\<rparr>
           | DiffDBQuery \<Rightarrow> s\<lparr>ds_SQL := ds_SQL s + 1\<rparr>
           | DiffDBQueryCount \<Rightarrow>
               if df_Path d = ''sideEffects.db'' then s\<lparr>ds_SQL := ds_SQL s + 1\<rparr>
               else s\<lparr>ds_UnknownSideEffect := ds_UnknownSideEffect s + 1\<rparr>
           | DiffMongoOp \<Rightarrow> s\<lparr>ds_MongoDB := ds_MongoDB s + 1\<rparr>
           | DiffRedisCommand \<Rightarrow> s\<lparr>ds_Redis := ds_Redis s + 1\<rparr>
           | DiffRedisCount \<Rightarrow> s\<lparr>ds_Redis := ds_Redis s + 1\<rparr>
           | DiffExternalCall \<Rightarrow> s\<lparr>ds_UnknownSideEffect := ds_UnknownSideEffect s + 1\<rparr>
           | DiffOther k \<Rightarrow> s\<lparr>ds_UnknownSideEffect := ds_UnknownSideEffect s + 1\<rparr>)"

definition SummarizeDifferences :: "DiffResult list \<Rightarrow> DifferenceSummary" where
  "SummarizeDifferences results =
     foldl (\<lambda>s r. foldl summarize_difference s (res_Differences r))
       \<lparr>ds_HTTP = 0, ds_SQL = 0, ds_MongoDB = 0, ds_Redis = 0, ds_UnknownSideEffect = 0, ds_Ignored = 0\<rparr> results"

datatype Reporter = TerminalReporter | JSONReporter | HTMLReporter

definition NewReporter :: "string \<Rightarrow> string + Reporter" where
  "NewReporter format =
     (if format = ''terminal'' \<or> format = '''' then Inr TerminalReporter
      else if format = ''json'' then Inr JSONReporter
      else if format = ''html'' then Inr HTMLReporter
      else Inl (''unsupported report format: '' @ format))"

section \<open>Facts\<close>

lemma all_ignored_iff: "all_ignored ds \<longleftrightarrow> list_all df_Ignored ds"
  by (induction ds) auto

lemma replay_index_last:
  "replay_index m rs seq = (case filter (\<lambda>r. rec_Sequence r = seq) rs of [] \<Rightarrow> m seq | xs \<Rightarrow> Some (last xs))"
proof (induction rs arbitrary: m)
  case (Cons r rs)
  then show ?case by (cases "filter (\<lambda>r. rec_Sequence r = seq) rs") auto
qed simp

lemma replay_index_None: "replay_index Map.empty rs seq = None \<longleftrightarrow> (\<forall>r\<in>set rs. rec_Sequence r \<noteq> seq)"
proof (cases "filter (\<lambda>r. rec_Sequence r = seq) rs")
  case (Cons r xs)
  then have "r \<in> set rs \<and> rec_Sequence r = seq"
    using filter_eq_ConsD [OF Cons] by auto
  with Cons show ?thesis by (auto simp: replay_index_last)
qed (simp add: replay_index_last filter_empty_conv)

lemma NewEngine_Some:
  "\<exists>rs. NewRuleSet (DefaultRuleList @ cfg_Rules cfg) builtin_matchers = Some rs
      \<and> NewEngine cfg = Some \<lparr>eng_sessionID = cfg_SessionID cfg, eng_ruleSet = rs, eng_ignoreOrder = cfg_IgnoreOrder cfg,
          eng_maxDiffs = (if cfg_MaxDiffs cfg \<le> 0 then 1000 else cfg_MaxDiffs cfg),
          eng_ignoreHeaders = DefaultIgnoreHeaders @ cfg_IgnoreHeaders cfg\<rparr>"
  by (simp add: NewEngine_def DefaultRules_def NewRuleSet_Some Let_def)

lemma NewEngine_fields:
  assumes "NewEngine cfg = Some e"
  shows "NewRuleSet (DefaultRuleList @ cfg_Rules cfg) builtin_matchers = Some (eng_ruleSet e)"
    "0 < eng_maxDiffs e" "eng_ignoreHeaders e = DefaultIgnoreHeaders @ cfg_IgnoreHeaders cfg"
    "eng_ignoreOrder e = cfg_IgnoreOrder cfg" "eng_sessionID e = cfg_SessionID cfg"
  using NewEngine_Some [of cfg] assms by (auto split: if_splits)

lemma limitDiffs_ignored: "list_all df_Ignored (limitDiffs e ds (all_ignored ds)) \<longleftrightarrow> all_ignored ds"
  by (auto simp: limitDiffs_def all_ignored_iff list_all_iff dest: in_set_takeD)

lemma limitDiffs_length: "0 < eng_maxDiffs e \<Longrightarrow> int (length (limitDiffs e ds m)) \<le> eng_maxDiffs e + 1"
  by (auto simp: limitDiffs_def)

lemma limitDiffs_Nil: "0 < eng_maxDiffs e \<Longrightarrow> limitDiffs e ds m = [] \<longleftrightarrow> ds = []"
  by (auto simp: limitDiffs_def)

lemma compareRecords_match_ignored:
  "res_Match (compareRecords up unmarshal e a b) \<longleftrightarrow> list_all df_Ignored (res_Differences (compareRecords up unmarshal e a b))"
  by (simp add: compareRecords_def Let_def limitDiffs_ignored)

lemma compare_header_Nil_iff:
  "compare_header ignored actual (k, ev) = [] \<longleftrightarrow>
     k \<in> set ignored \<or> (\<exists>av. map_of actual k = Some av \<and> Join av '' '' = Join ev '' '')"
  by (auto simp: sprint_strings_def split: option.splits)

lemma compareHeaders_Nil_iff:
  "compareHeaders e expected actual = [] \<longleftrightarrow>
     (\<forall>(k, ev)\<in>set expected. k \<in> set (eng_ignoreHeaders e) \<or>
        (\<exists>av. map_of actual k = Some av \<and> Join av '' '' = Join ev '' ''))"
  unfolding compareHeaders_def concat_map_eq_Nil
  by (intro ball_cong refl) (auto simp: compare_header_Nil_iff simp del: compare_header.simps)

lemma Apply_ignored:
  assumes "NewRuleSet rules ms = Some rs" "list_all (\<lambda>d. \<not> df_Ignored d) ds"
  shows "list_all df_Ignored (Apply rs ds) \<longleftrightarrow> (\<forall>d\<in>set ds. \<exists>r\<in>set rules. rule_ignores (rs_matchers rs) r d)"
proof -
  have "df_Ignored (mark hits d) \<longleftrightarrow> hits \<noteq> [] \<or> df_Ignored d" for hits d by (simp add: mark_def)
  with assms(2) show ?thesis
    by (simp add: Apply_mark [OF assms(1)] list_all_iff filter_empty_conv)
qed

lemma summary_differences_counts:
  "summary_differences s ds = s\<lparr>sum_ErrorCount := sum_ErrorCount s + length (filter (\<lambda>d. \<not> df_Ignored d \<and> df_Severity d = SeverityError) ds),
      sum_IgnoreCount := sum_IgnoreCount s + length (filter df_Ignored ds)\<rparr>"
  by (induction ds arbitrary: s) auto

lemma summary_results_counts:
  "summary_results s rs = s\<lparr>sum_MatchCount := sum_MatchCount s + length (filter res_Match rs),
      sum_DiffCount := sum_DiffCount s + length (filter (\<lambda>r. \<not> res_Match r) rs),
      sum_ErrorCount := sum_ErrorCount s + length (filter (\<lambda>d. \<not> df_Ignored d \<and> df_Severity d = SeverityError) (concat (map res_Differences rs))),
      sum_IgnoreCount := sum_IgnoreCount s + length (filter df_Ignored (concat (map res_Differences rs)))\<rparr>"
  by (induction rs arbitrary: s) (auto simp: Let_def summary_differences_counts)

text \<open>The category of the report that a difference counts for.\<close>

definition category :: "Difference \<Rightarrow> string" where
  "category d =
     (if df_Ignored d then ''ignored''
      else if df_Kind d \<in> {DiffStatusCode, DiffHeader, DiffBody, DiffBodyField} then ''http''
      else if df_Kind d = DiffDBQuery \<or> df_Kind d = DiffDBQueryCount \<and> df_Path d = ''sideEffects.db'' then ''sql''
      else if df_Kind d = DiffMongoOp then ''mongoDb''
      else if df_Kind d \<in> {DiffRedisCommand, DiffRedisCount} then ''redis''
      else ''unknownSideEffect'')"

definition in_category :: "string \<Rightarrow> Difference list \<Rightarrow> nat" where
  "in_category c ds = length (filter (\<lambda>d. category d = c) ds)"

lemma summarize_differences_counts:
  "foldl summarize_difference s ds =
     \<lparr>ds_HTTP = ds_HTTP s + in_category ''http'' ds, ds_SQL = ds_SQL s + in_category ''sql'' ds,
      ds_MongoDB = ds_MongoDB s + in_category ''mongoDb'' ds, ds_Redis = ds_Redis s + in_category ''redis'' ds,
      ds_UnknownSideEffect = ds_UnknownSideEffect s + in_category ''unknownSideEffect'' ds,
      ds_Ignored = ds_Ignored s + in_category ''ignored'' ds\<rparr>"
proof (induction ds arbitrary: s)
  case (Cons d ds)
  show ?case
    unfolding foldl_Cons Cons
    by (cases "df_Ignored d"; cases "df_Kind d")
      (simp_all add: summarize_difference_def category_def in_category_def)
qed (simp add: in_category_def)

lemma summarize_results_counts:
  "foldl (\<lambda>s r. foldl summarize_difference s (res_Differences r)) s rs =
   foldl summarize_difference s (concat (map res_Differences rs))"
  by (induction rs arbitrary: s) auto

lemma in_category_total:
  "in_category ''http'' ds + in_category ''sql'' ds + in_category ''mongoDb'' ds + in_category ''redis'' ds
     + in_category ''unknownSideEffect'' ds + in_category ''ignored'' ds = length ds"
  by (induction ds) (auto simp: in_category_def category_def)

lemma raw_not_ignored: "list_all (\<lambda>d. \<not> df_Ignored d) (raw_differences up unmarshal e a b)"
proof -
  let ?ok = "list_all (\<lambda>d. \<not> df_Ignored d)"
  have cc: "?ok (concat xss)" if "\<And>xs. xs \<in> set xss \<Longrightarrow> ?ok xs" for xss
    using that by (auto simp: list_all_iff)
  have vals: "?ok (compareValues io p v w)" for io p v w
    using compareValues_field_diffs [of p io v w] by (auto simp: field_diffs_def list_all_iff)
  have "?ok (compare_header ig ac kv)" for ig ac kv
    by (cases kv) (auto split: option.splits)
  then have "?ok (compareHeaders e x y)" for x y
    unfolding compareHeaders_def by (intro cc) auto
  moreover have "?ok (Compare unmarshal io x y)" for io x y
    using vals by (auto simp: Compare_def split: option.splits)
  moreover have "?ok (compare_sql_pair up p x y)" "?ok (compare_mongo_pair p x y)" "?ok (compare_redis_pair p x y)" for p x y
    by (auto simp: compare_sql_pair_def compare_mongo_pair_def compare_redis_pair_def split: option.splits)
  then have "?ok (CompareDBSideEffects up x y)" "?ok (CompareMongoSideEffects x y)" "?ok (CompareRedisSideEffects x y)" for x y
    unfolding CompareDBSideEffects_def CompareMongoSideEffects_def CompareRedisSideEffects_def Let_def list_all_append
    by (auto intro!: cc)
  then have "?ok (CompareSideEffects up x y)" for x y
    by (simp add: CompareSideEffects_def compareSideEffectsWith_def defaultSideEffectComparers_def Let_def)
  ultimately show ?thesis by (simp add: raw_differences_def)
qed

lemma permuted_headers:
  assumes "go_map actual" "mset actual = mset actual'" and "mset expected = mset expected'"
  shows "mset (compareHeaders e expected actual) = mset (compareHeaders e expected' actual')"
proof -
  have "map_of actual = map_of actual'" using assms(1,2) by (rule go_map_mset_map_of)
  then have "compare_header ig actual = compare_header ig actual'" for ig by (auto simp: fun_eq_iff)
  with concat_map_cong_mset [OF assms(3)] show ?thesis by (simp add: compareHeaders_def)
qed

section \<open>Properties\<close>


text \<open>
  C23. A pair of records matches exactly when the replay succeeded and every difference between
  them, before truncation, is ignored by one of the default rules or of the configured ones.
\<close>

theorem compareRecords_match:
  assumes new: "NewEngine cfg = Some e"
  shows "res_Match (compareRecords up unmarshal e original replay) \<longleftrightarrow>
     rec_Error replay = '''' \<and>
     (\<forall>d\<in>set (raw_differences up unmarshal e original replay).
        \<exists>r\<in>set (DefaultRuleList @ cfg_Rules cfg). rule_ignores (rs_matchers (eng_ruleSet e)) r d)"
  using Apply_ignored [OF NewEngine_fields(1) [OF new] raw_not_ignored]
  by (simp add: compareRecords_def Let_def all_ignored_iff)

text \<open>
  C5. A run over a session with records and replays succeeds and yields one result for each
  recorded request, in order, with its id, sequence number and request. The result is that of
  comparing it with the last replay of the same sequence number, and a mismatch when there is
  none. A result counts as a match exactly when all the differences it lists are ignored, and it
  lists at most one more than the limit.
\<close>

theorem Run_results:
  assumes new: "NewEngine cfg = Some e"
    and records: "ListRecords json st fs (eng_sessionID e) = (originals, None)" "originals \<noteq> []"
    and replays: "ListReplayRecords json st fs (eng_sessionID e) = (replays, None)" "replays \<noteq> []"
  shows "\<exists>fs' results. Run up unmarshal json st e fs = (fs', Inr results) \<and> length results = length originals \<and>
     (\<forall>i<length originals.
        res_RecordID (results ! i) = rec_ID (originals ! i) \<and>
        res_Sequence (results ! i) = rec_Sequence (originals ! i) \<and>
        res_Request (results ! i) = rec_Request (originals ! i) \<and>
        (case filter (\<lambda>r. rec_Sequence r = rec_Sequence (originals ! i)) replays of
           [] \<Rightarrow> \<not> res_Match (results ! i)
         | candidates \<Rightarrow> results ! i = compareRecords up unmarshal e (originals ! i) (last candidates)) \<and>
        (res_Match (results ! i) \<longleftrightarrow> list_all df_Ignored (res_Differences (results ! i))) \<and>
        int (length (res_Differences (results ! i))) \<le> eng_maxDiffs e + 1)"
proof -
  define f where "f = compare_original up unmarshal e (replay_index Map.empty replays)"
  have run: "Run up unmarshal json st e fs = (fst (SaveResults json st fs (eng_sessionID e) (map f originals)), Inr (map f originals))"
    using records replays by (simp add: Run_def Let_def f_def)
  have id: "res_RecordID (f r) = rec_ID r" "res_Sequence (f r) = rec_Sequence r" "res_Request (f r) = rec_Request r" for r
    by (simp_all add: f_def compare_original_def compareRecords_def Let_def split: option.split)
  have pair: "case filter (\<lambda>q. rec_Sequence q = rec_Sequence r) replays of
      [] \<Rightarrow> \<not> res_Match (f r) | candidates \<Rightarrow> f r = compareRecords up unmarshal e r (last candidates)" for r
    by (simp add: f_def compare_original_def replay_index_last split: list.split)
  have match: "res_Match (f r) \<longleftrightarrow> list_all df_Ignored (res_Differences (f r))" for r
    by (simp add: f_def compare_original_def compareRecords_match_ignored split: option.split)
  have bound: "int (length (res_Differences (f r))) \<le> eng_maxDiffs e + 1" for r
    using NewEngine_fields(2) [OF new] limitDiffs_length [of e]
    by (simp add: f_def compare_original_def compareRecords_def Let_def split: option.split)
  show ?thesis
    by (intro exI conjI allI impI, rule run, simp_all only: length_map nth_map) (rule id pair match bound)+
qed

text \<open>
  A run fails exactly when one of the record files cannot be read or holds no record, and then
  it changes nothing; otherwise, in a store in its invariant and when the results survive their
  encoding, loading the results of the session gives the results of the run.
\<close>

theorem Run_stores_results:
  assumes inv: "store_inv st fs" and sid: "plain_name (eng_sessionID e)"
    "map_of fs (store_baseDir st @ [eng_sessionID e]) = Some Dir"
    and json: "\<And>fs' rs. Run up unmarshal json st e fs = (fs', Inr rs) \<Longrightarrow>
      \<exists>d. marshalResults json rs = Some d \<and> unmarshalResults json d = Some rs"
  shows "(case Run up unmarshal json st e fs of
      (fs', Inl err) \<Rightarrow> fs' = fs \<and>
        (snd (ListRecords json st fs (eng_sessionID e)) \<noteq> None \<or> snd (ListReplayRecords json st fs (eng_sessionID e)) \<noteq> None
         \<or> fst (ListRecords json st fs (eng_sessionID e)) = [] \<or> fst (ListReplayRecords json st fs (eng_sessionID e)) = [])
    | (fs', Inr results) \<Rightarrow>
        store_inv st fs' \<and> LoadResults json st fs' (eng_sessionID e) = Inr results \<and> results \<noteq> [])"
proof -
  obtain os x where os: "ListRecords json st fs (eng_sessionID e) = (os, x)" by fastforce
  obtain rs y where rs: "ListReplayRecords json st fs (eng_sessionID e) = (rs, y)" by fastforce
  let ?res = "map (compare_original up unmarshal e (replay_index Map.empty rs)) os"
  show ?thesis
  proof (cases "x = None \<and> y = None \<and> os \<noteq> [] \<and> rs \<noteq> []")
    case True
    then have run: "Run up unmarshal json st e fs = (fst (SaveResults json st fs (eng_sessionID e) ?res), Inr ?res)"
      by (simp add: Run_def Let_def os rs)
    obtain d where "marshalResults json ?res = Some d" "unmarshalResults json d = Some ?res"
      using json [OF run] by blast
    from SaveResults_spec [OF inv sid this] obtain fs' where
      "SaveResults json st fs (eng_sessionID e) ?res = (fs', None)" "store_inv st fs'"
      "LoadResults json st fs' (eng_sessionID e) = Inr ?res" by blast
    with True run show ?thesis by simp
  next
    case False
    then show ?thesis by (cases x; cases y; cases "os = []"; cases "rs = []") (simp_all add: Run_def os rs)
  qed
qed

text \<open>
  The order in which Go visits the headers does not matter: for any two orders of the same
  header maps the same differences are found, in some order, and the same matches.
\<close>

theorem compareHeaders_any_order:
  assumes "go_map actual" and "mset actual = mset actual'" and "mset expected = mset expected'"
  shows "mset (compareHeaders e expected actual) = mset (compareHeaders e expected' actual') \<and>
     (list_all P (compareHeaders e expected actual) \<longleftrightarrow> list_all P (compareHeaders e expected' actual'))"
  using permuted_headers [OF assms, of e] by (metis list_all_iff mset_eq_setD)

text \<open>
  Headers are compared by the text of their value lists, so one value with a space in it and
  two values are taken for the same header.
\<close>

theorem header_values_conflated:
  "compareHeaders e [(''Vary'', [''a b''])] [(''Vary'', [''a'', ''b''])] = []"
  by (simp add: compareHeaders_def sprint_strings_def)

text \<open>
  The summary counts every result as a match or as a difference, every ignored difference as
  ignored, and the others as errors exactly when their severity says so, so no difference is
  counted twice.
\<close>

theorem FormatDiffSummary_correct:
  "let s = FormatDiffSummary results; ds = concat (map res_Differences results)
   in sum_TotalCount s = length results \<and> sum_MatchCount s = length (filter res_Match results) \<and>
      sum_MatchCount s + sum_DiffCount s = sum_TotalCount s \<and>
      sum_IgnoreCount s = length (filter df_Ignored ds) \<and>
      sum_ErrorCount s = length (filter (\<lambda>d. \<not> df_Ignored d \<and> df_Severity d = SeverityError) ds) \<and>
      sum_ErrorCount s + sum_IgnoreCount s \<le> length ds"
proof -
  have "length (filter res_Match results) + length (filter (\<lambda>r. \<not> res_Match r) results) = length results"
    by (rule sum_length_filter_compl)
  moreover have "length (filter (\<lambda>d. \<not> df_Ignored d \<and> df_Severity d = SeverityError) ds) + length (filter df_Ignored ds) \<le> length ds" for ds
    by (induction ds) auto
  note this [of "concat (map res_Differences results)"]
  ultimately show ?thesis by (simp add: FormatDiffSummary_def Let_def summary_results_counts)
qed

text \<open>
  C27. The match rate lies between 0 and 1, and as long as there are fewer than \<open>2 ^ 53\<close> results
  it is 1 only if all of them match.
\<close>

theorem MatchRate_bounds:
  assumes "length results < 2 ^ 53"
  shows "0 \<le> sum_MatchRate (FormatDiffSummary results) \<and> sum_MatchRate (FormatDiffSummary results) \<le> 1
     \<and> (results \<noteq> [] \<longrightarrow> (sum_MatchRate (FormatDiffSummary results) = 1 \<longleftrightarrow> list_all res_Match results))"
proof (cases "results = []")
  case True
  then show ?thesis by (simp add: FormatDiffSummary_def)
next
  case False
  define m where "m = length (filter res_Match results)"
  define t where "t = length results"
  have mt: "m \<le> t" "0 < t" "t < 2 ^ 53" using False assms by (simp_all add: m_def t_def)
  have rate: "sum_MatchRate (FormatDiffSummary results) = f64_round (of_nat m / of_nat t)"
  proof -
    have "f64_of_int (int n) = of_nat n" if "n < 2 ^ 53" for n
      using that f64_round_int [of "int n"] by (simp add: f64_of_int_def)
    then have "f64_of_int (int m) = of_nat m" "f64_of_int (int t) = of_nat t"
      using mt by (auto intro: le_less_trans)
    with mt show ?thesis
      by (simp add: FormatDiffSummary_def Let_def summary_results_counts f64_div_def m_def t_def)
  qed
  have all: "list_all res_Match results \<longleftrightarrow> m = t"
    using length_filter_less [of _ results res_Match] by (fastforce simp: m_def t_def list_all_iff)
  have "0 \<le> f64_round (of_nat m / of_nat t) \<and> f64_round (of_nat m / of_nat t) \<le> 1"
    using mt by (intro conjI f64_round_nonneg f64_round_le_1) simp_all
  moreover have "f64_round (of_nat m / of_nat t) = 1 \<longleftrightarrow> m = t"
    using mt f64_round_ratio_less_1 [of m t] by (cases "m = t") auto
  ultimately show ?thesis using False by (simp add: rate all)
qed

text \<open>
  The report puts every difference into exactly one category: each counter is the number of
  differences of its category, the categories and the ignored ones together are all differences,
  and the ignored ones are those that the summary of the engine counts.
\<close>

theorem SummarizeDifferences_correct:
  "let s = SummarizeDifferences results; ds = concat (map res_Differences results)
   in ds_HTTP s = in_category ''http'' ds \<and> ds_SQL s = in_category ''sql'' ds \<and>
      ds_MongoDB s = in_category ''mongoDb'' ds \<and> ds_Redis s = in_category ''redis'' ds \<and>
      ds_UnknownSideEffect s = in_category ''unknownSideEffect'' ds \<and>
      Total s + ds_Ignored s = length ds \<and> ds_Ignored s = sum_IgnoreCount (FormatDiffSummary results)"
proof -
  have "in_category ''ignored'' ds = length (filter df_Ignored ds)" for ds
    by (induction ds) (auto simp: in_category_def category_def)
  moreover have "sum_IgnoreCount (FormatDiffSummary results) = length (filter df_Ignored (concat (map res_Differences results)))"
    by (simp add: FormatDiffSummary_def Let_def summary_results_counts)
  moreover have "SummarizeDifferences results = foldl summarize_difference
      \<lparr>ds_HTTP = 0, ds_SQL = 0, ds_MongoDB = 0, ds_Redis = 0, ds_UnknownSideEffect = 0, ds_Ignored = 0\<rparr>
      (concat (map res_Differences results))"
    unfolding SummarizeDifferences_def by (rule summarize_results_counts)
  ultimately show ?thesis
    using in_category_total [of "concat (map res_Differences results)"]
    by (simp add: Let_def summarize_differences_counts Total_def)
qed

section \<open>Instances\<close>

definition demo_cfg :: EngineConfig where
  "demo_cfg = \<lparr>cfg_SessionID = ''s1'', cfg_Rules = [], cfg_IgnoreOrder = False, cfg_IgnoreHeaders = [], cfg_MaxDiffs = 0\<rparr>"

definition demo_recorded :: fs where
  "demo_recorded =
     demo_fs @ [([''d'', ''s1'', ''records.jsonl''], File (''r1'' @ [CHR 0x0A])),
                ([''d'', ''s1'', ''replay-records.jsonl''], File (''r1'' @ [CHR 0x0A]))]"

lemma demo_recorded_inv: "store_inv demo_store demo_recorded"
  by (auto simp: store_inv_def tree_ok_def node_ok_def demo_store_def demo_fs_def demo_recorded_def clean_path_def
      plain_name_def store_files_def strict_prefix_def split: if_splits)

lemma demo_recorded_lists:
  "ListRecords demo_json demo_store demo_recorded ''s1'' = ([demo_record], None)"
  "ListReplayRecords demo_json demo_store demo_recorded ''s1'' = ([demo_record], None)"
  by (simp_all add: ListRecords_def ListReplayRecords_def listRecords_def ReadFile_def demo_defs demo_recorded_def
      JoinPath_def Scan_def scan_limit_def dropCR_def)

lemma demo_engine: obtains e where "NewEngine demo_cfg = Some e" "eng_sessionID e = ''s1''"
  using NewEngine_Some [of demo_cfg] by (auto simp: demo_cfg_def)


theorem compareRecords_match_witness:
  "\<exists>e. NewEngine demo_cfg = Some e \<and>
     \<not> res_Match (compareRecords id (\<lambda>b. None) e demo_record (demo_record\<lparr>rec_Error := ''timeout''\<rparr>))"
proof -
  obtain e where e: "NewEngine demo_cfg = Some e" by (rule demo_engine)
  with compareRecords_match [OF e, of id "\<lambda>b. None" demo_record "demo_record\<lparr>rec_Error := ''timeout''\<rparr>"] show ?thesis
    by auto
qed

theorem Run_results_witness:
  "\<exists>e fs' results. NewEngine demo_cfg = Some e \<and>
     Run id (\<lambda>b. None) demo_json demo_store e demo_recorded = (fs', Inr results) \<and> length results = 1"
proof -
  obtain e where e: "NewEngine demo_cfg = Some e" "eng_sessionID e = ''s1''" by (rule demo_engine)
  from Run_results [OF e(1), of demo_json demo_store demo_recorded "[demo_record]" "[demo_record]" id "\<lambda>b. None"] e(2)
  show ?thesis using e(1) by (auto simp: demo_recorded_lists)
qed

theorem Run_stores_results_witness:
  "\<exists>e json fs' results. NewEngine demo_cfg = Some e \<and>
     Run id (\<lambda>b. None) json demo_store e demo_recorded = (fs', Inr results) \<and>
     LoadResults json demo_store fs' ''s1'' = Inr results \<and> results \<noteq> []"
proof -
  obtain e where e: "NewEngine demo_cfg = Some e" "eng_sessionID e = ''s1''" by (rule demo_engine)
  define rs where "rs = map (compare_original id (\<lambda>b. None) e (replay_index Map.empty [demo_record])) [demo_record]"
  define json where "json = demo_json\<lparr>unmarshalResults := \<lambda>d. Some rs\<rparr>"
  have lists: "ListRecords json demo_store demo_recorded ''s1'' = ([demo_record], None)"
    "ListReplayRecords json demo_store demo_recorded ''s1'' = ([demo_record], None)"
    by (simp_all add: json_def ListRecords_def ListReplayRecords_def listRecords_def ReadFile_def demo_defs demo_recorded_def
        JoinPath_def Scan_def scan_limit_def dropCR_def)
  have run: "Run id (\<lambda>b. None) json demo_store e demo_recorded
      = (fst (SaveResults json demo_store demo_recorded ''s1'' rs), Inr rs)"
    by (simp add: Run_def lists e Let_def rs_def)
  have "map_of demo_recorded (store_baseDir demo_store @ [''s1'']) = Some Dir"
    by (simp add: demo_store_def demo_fs_def demo_recorded_def)
  moreover have "marshalResults json rs = Some ''''" "unmarshalResults json '''' = Some rs"
    by (simp_all add: json_def demo_json_def)
  ultimately have "case Run id (\<lambda>b. None) json demo_store e demo_recorded of
      (fs', Inl err) \<Rightarrow> True
    | (fs', Inr results) \<Rightarrow> LoadResults json demo_store fs' ''s1'' = Inr results \<and> results \<noteq> []"
    using Run_stores_results [OF demo_recorded_inv, of e id "\<lambda>b. None" json] run e
    by (auto simp: plain_name_def)
  with run e(1) show ?thesis by (intro exI [of _ e] exI [of _ json]) auto
qed

theorem compareHeaders_any_order_witness:
  "\<exists>e. NewEngine demo_cfg = Some e \<and>
     mset (compareHeaders e [(''A'', [''1'']), (''B'', [''2''])] []) = mset (compareHeaders e [(''B'', [''2'']), (''A'', [''1''])] [])"
proof -
  obtain e where e: "NewEngine demo_cfg = Some e" by (rule demo_engine)
  with compareHeaders_any_order [of "[]" "[]" "[(''A'', [''1'']), (''B'', [''2''])]" "[(''B'', [''2'']), (''A'', [''1''])]" e]
  show ?thesis by auto
qed

theorem MatchRate_bounds_witness:
  "sum_MatchRate (FormatDiffSummary
     [\<lparr>res_RecordID = '''', res_Sequence = 1, res_Request = rec_Request demo_record, res_Match = False, res_Differences = []\<rparr>]) \<noteq> 1"
  using MatchRate_bounds [of
    "[\<lparr>res_RecordID = '''', res_Sequence = 1, res_Request = rec_Request demo_record, res_Match = False, res_Differences = []\<rparr>]"]
  by simp

end
