(* ===== verification/End_To_End.thy ===== *)
theory End_To_End
  imports Capture_Proxy Replay Diff_Engine
begin

text \<open>
  From the client of the old service to the verdict on the new one: what the proxy captures
  (\<^verbatim>\<open>internal/capture\<close>) is what the replay sends (\<^verbatim>\<open>internal/replay\<close>), and a service that answers it in
  the same way is found to match (\<^verbatim>\<open>internal/diff\<close>).
\<close>

section \<open>Capturing and sending again\<close>

text \<open>
  An exchange that the proxy can capture: it serves no other request, the path is not excluded, the
  body is read to its end, the disk works, the target answers with a status and then a body, and
  the record can be stored and is read back as itself.
\<close>

definition capturable :: "json_codec \<Rightarrow> FileStore \<Rightarrow> world \<Rightarrow> pstate \<Rightarrow> request \<Rightarrow> bytes \<Rightarrow> int \<Rightarrow> bytes list \<Rightarrow> Record \<Rightarrow> bool" where
  "capturable json st w ps req sent c bs final \<longleftrightarrow>
     \<not> shouldSkip (ps_proxy ps) (url_Path (rq_URL req))
     \<and> sent = (case rq_Body req of None \<Rightarrow> [] | Some b \<Rightarrow> concat (fst b)) \<and> (case rq_Body req of None \<Rightarrow> True | Some b \<Rightarrow> snd b)
     \<and> good_disk (w_disk w) \<and> w_tmpname w \<notin> fst ` set (ps_tmp ps)
     \<and> rcd_activeScopes (ps_recorder ps) = [] \<and> rcd_sideEffectCh (ps_recorder ps) = [] \<and> \<not> rcd_done (ps_recorder ps)
     \<and> w_upstream w (director (ps_proxy ps) req) sent = (HeaderCall c # map BodyCall bs, False) \<and> w_end w \<noteq> 0
     \<and> records_inv st (rcd_sessionID (ps_recorder ps)) ''records.jsonl'' (ps_fs ps)
     \<and> final = exchange_record w (ps_proxy ps) (rcd_sessionID (ps_recorder ps)) req sent c (concat bs) \<and> record_ok json final
     \<and> CHR ''/'' \<notin> set (take 8 (w_uuid w)) \<and> artifact_free st (ps_fs ps) (rcd_sessionID (ps_recorder ps)) (take 8 (w_uuid w))"

text \<open>A request that is sent to a target repeats one: method, path and query, the whole body, the headers but those of proxies.\<close>

definition url_of :: "string \<Rightarrow> request \<Rightarrow> string" where
  "url_of target req = target @ url_Path (rq_URL req) @ (if rq_RawQuery req \<noteq> '''' then ''?'' @ rq_RawQuery req else '''')"

definition repeats :: "string \<Rightarrow> request \<Rightarrow> bytes \<Rightarrow> outgoing \<Rightarrow> bool" where
  "repeats target req sent out \<longleftrightarrow>
     og_Method out = (if rq_Method req = '''' then ''GET'' else rq_Method req) \<and> og_URL out = url_of target req
     \<and> og_Body out = sent \<and> og_ContentLength out = int (length sent)
     \<and> (\<forall>k. header_values (og_Header out) k = (if k \<in> set forwarded_headers then [] else recorded_values (rq_Header req) k))"

lemma engine_pool [simp]:
  "wp_store (re_pool (NewReplayEngine st sid target n t r ch)) = Some st"
  "wp_transform (re_pool (NewReplayEngine st sid target n t r ch)) = \<lparr>tc_TargetBaseURL = target, tc_HeaderOverride = [], tc_HeaderRemove = []\<rparr>"
  "wp_retryCount (re_pool (NewReplayEngine st sid target n t r ch)) = r"
  by (simp_all add: NewReplayEngine_def NewWorkerPool_def Let_def)

lemma transform_repeats:
  assumes "accepts (rq_Method req) (url_of target req)"
    and "req_Method r = rq_Method req" "req_Path r = url_Path (rq_URL req)" "req_Query r = rq_RawQuery req" "req_Headers r = rq_Header req"
  shows "\<exists>out. TransformWithBody accepts r \<lparr>tc_TargetBaseURL = target, tc_HeaderOverride = [], tc_HeaderRemove = []\<rparr> sent (int (length sent)) = Some out
     \<and> repeats target req sent out"
proof -
  let ?cfg = "\<lparr>tc_TargetBaseURL = target, tc_HeaderOverride = [], tc_HeaderRemove = []\<rparr>"
  have url: "request_url ?cfg r = url_of target req" using assms by (simp add: request_url_def url_of_def Let_def)
  then obtain out where out: "TransformWithBody accepts r ?cfg sent (int (length sent)) = Some out"
    using assms by (simp add: TransformWithBody_def Let_def)
  moreover have "header_values (og_Header out) k = (if k \<in> set forwarded_headers then [] else recorded_values (rq_Header req) k)" for k
    using TransformWithBody_values [OF out, of k] assms by simp
  moreover have "og_Method out = (if rq_Method req = '''' then ''GET'' else rq_Method req)" "og_URL out = url_of target req" "og_Body out = sent"
    "og_ContentLength out = int (length sent)"
    using out assms url by (auto simp: TransformWithBody_def Let_def split: if_splits)
  ultimately show ?thesis by (auto simp: repeats_def)
qed

lemma captured_repeats:
  assumes "capturable json st w ps req sent c bs final" and "accepts (rq_Method req) (url_of target req)"
  shows "\<exists>ps' out. ServeHTTP json st w ps req = (ps', HeaderCall c # map BodyCall bs, True)
     \<and> ListRecords json st (ps_fs ps') (rcd_sessionID (ps_recorder ps))
         = (fst (ListRecords json st (ps_fs ps) (rcd_sessionID (ps_recorder ps))) @ [final], None)
     \<and> buildReplayRequest accepts (ps_fs ps') (re_pool (NewReplayEngine st sid target n t r ch)) final = Inr out
     \<and> repeats target req sent out"
proof -
  let ?sid = "rcd_sessionID (ps_recorder ps)" and ?m = "nat (px_maxBodySize (ps_proxy ps))"
  note ok = assms(1) [unfolded capturable_def]
  obtain ps' where served: "ServeHTTP json st w ps req = (ps', HeaderCall c # map BodyCall bs, True)"
      "ListRecords json st (ps_fs ps') ?sid = (fst (ListRecords json st (ps_fs ps) ?sid) @ [final], None)"
      "?m < length sent \<Longrightarrow> OpenRequestBodyArtifact st (ps_fs ps') ?sid (req_BodyRef (rec_Request final)) = Inr sent"
    using captured [where json = json and st = st and w = w and ps = ps and req = req and sent = sent and c = c and bs = bs
        and sid = ?sid and final = final] ok by auto
  have final: "final = exchange_record w (ps_proxy ps) ?sid req sent c (concat bs)" using ok by blast
  obtain out where out: "TransformWithBody accepts (rec_Request final) \<lparr>tc_TargetBaseURL = target, tc_HeaderOverride = [], tc_HeaderRemove = []\<rparr>
      sent (int (length sent)) = Some out" "repeats target req sent out"
    using transform_repeats [where accepts = accepts and req = req and target = target and r = "rec_Request final" and sent = sent] assms(2)
    by (auto simp: final exchange_record_def)
  have "buildReplayRequest accepts (ps_fs ps') (re_pool (NewReplayEngine st sid target n t r ch)) final = Inr out"
  proof (cases "?m < length sent")
    case True
    then have "req_BodyRef (rec_Request final) \<noteq> ''''" "rec_SessionID final = ?sid" "req_BodyLen (rec_Request final) = int (length sent)"
      by (simp_all add: final exchange_record_def)
    with served(3) [OF True] out(1) show ?thesis by (simp add: buildReplayRequest_def)
  next
    case False
    then have "req_BodyRef (rec_Request final) = ''''" "req_Body (rec_Request final) = sent" by (simp_all add: final exchange_record_def)
    with out(1) show ?thesis by (simp add: buildReplayRequest_def Let_def)
  qed
  with served out(2) show ?thesis by blast
qed

section \<open>An unchanged service\<close>

text \<open>The views and counts that the comparison of side effects uses.\<close>

definition same_effects :: "(nat \<Rightarrow> nat) \<Rightarrow> SideEffect list \<Rightarrow> SideEffect list \<Rightarrow> bool" where
  "same_effects up es es' \<longleftrightarrow>
     List.map_filter (sql_view up) es = List.map_filter (sql_view up) es' \<and> List.map_filter mongo_view es = List.map_filter mongo_view es'
     \<and> List.map_filter redis_view es = List.map_filter redis_view es' \<and> countResidualSideEffects es Supported = countResidualSideEffects es' Supported"

lemma retry_loop_done: "retry_loop accepts fs wp w original i n (Inr resp) = Inr resp"
  by (cases n) simp_all

lemma replayOne_answered:
  assumes "buildReplayRequest accepts fs wp original = Inr out"
    and "rw_do rw 0 out = Inr \<lparr>rs_StatusCode = c, rs_Header = hs, rs_Body = Inr answer\<rparr>"
  shows "rp_Error (replayOne etext accepts fs wp rw original) = None"
    "rec_Error (rp_Replayed (replayOne etext accepts fs wp rw original)) = ''''"
    "rec_Response (rp_Replayed (replayOne etext accepts fs wp rw original))
       = \<lparr>resp_StatusCode = c, resp_Headers = hs, resp_Body = answer, resp_BodyLen = int (length answer)\<rparr>"
  using assms by (simp_all add: replayOne_def do_request_def retry_loop_done replayed_record_def)

lemma same_response_matches:
  assumes "NewEngine cfg = Some e" and "\<And>b v. unmarshal b = Some v \<Longrightarrow> is_json v"
    and "rec_Error replay = ''''" "resp_StatusCode (rec_Response replay) = resp_StatusCode (rec_Response original)"
    and "resp_Headers (rec_Response replay) = resp_Headers (rec_Response original)" "go_map (resp_Headers (rec_Response original))"
    and "resp_Body (rec_Response replay) = resp_Body (rec_Response original)"
    and "same_effects up (rec_SideEffects original) (rec_SideEffects replay)"
  shows "res_Differences (compareRecords up unmarshal e original replay) = []" "res_Match (compareRecords up unmarshal e original replay)"
proof -
  have "compareHeaders e (resp_Headers (rec_Response original)) (resp_Headers (rec_Response original)) = []"
    using assms(6) by (auto simp: compareHeaders_Nil_iff dest: map_of_go_map)
  moreover have "Compare unmarshal (eng_ignoreOrder e) (resp_Body (rec_Response original)) (resp_Body (rec_Response original)) = []"
    using Compare_Nil_iff [OF assms(2)] by (simp split: option.split)
  moreover have "CompareSideEffects up (rec_SideEffects original) (rec_SideEffects replay) = []"
    using assms(8) by (simp add: CompareSideEffects_Nil_iff same_effects_def)
  ultimately have raw: "raw_differences up unmarshal e original replay = []" using assms(4,5,7) by (simp add: raw_differences_def)
  show "res_Differences (compareRecords up unmarshal e original replay) = []"
    using assms(3) limitDiffs_Nil [OF NewEngine_fields(2) [OF assms(1)]] by (simp add: compareRecords_def raw Let_def)
  then show "res_Match (compareRecords up unmarshal e original replay)" by (simp add: compareRecords_match_ignored)
qed

text \<open>
  A record keeps the beginning of an answer only, a replay the whole of it: where the answer is
  longer than the configured size and its beginning is not JSON, as that of a JSON text is not, an
  unchanged service is reported as different.
\<close>

lemma long_answer_differs:
  assumes "NewEngine cfg = Some e" and "\<And>b v. unmarshal b = Some v \<Longrightarrow> is_json v"
    and "resp_Body (rec_Response original) = take m answer" "m < length answer" "unmarshal (take m answer) = None"
    and "resp_Body (rec_Response replay) = answer"
  shows "res_Differences (compareRecords up unmarshal e original replay) \<noteq> []"
proof -
  have "take m answer \<noteq> answer" using assms(4) by (auto dest: arg_cong [where f = length])
  then have "Compare unmarshal (eng_ignoreOrder e) (take m answer) answer \<noteq> []" using Compare_Nil_iff [OF assms(2)] assms(5) by simp
  moreover have "answer \<noteq> []" using assms(4) by auto
  ultimately have "raw_differences up unmarshal e original replay \<noteq> []" using assms(3,6) by (simp add: raw_differences_def)
  then show ?thesis using limitDiffs_Nil [OF NewEngine_fields(2) [OF assms(1)]] by (simp add: compareRecords_def Let_def)
qed

text \<open>
  The recorded path is the decoded one, and the replay does not encode it again: the request for
  \<^verbatim>\<open>/a%3Fb\<close> is replayed as the one for \<^verbatim>\<open>/a\<close> with the query \<^verbatim>\<open>b\<close>.
\<close>

lemma decoded_path_conflated:
  assumes "url_Path (rq_URL req) = p @ ''?'' @ q" "rq_RawQuery req = ''''" "q \<noteq> ''''"
  shows "url_of target req = url_of target (req\<lparr>rq_URL := (rq_URL req)\<lparr>url_Path := p\<rparr>, rq_RawQuery := q\<rparr>)"
  using assms by (simp add: url_of_def)

section \<open>Properties\<close>



section \<open>Instances\<close>

lemma demo_capturable: "capturable demo_exchange_json demo_store demo_world demo_proxy demo_request ''xyz'' 201 [''ok''] demo_exchange"
proof -
  have "artifact_free demo_store demo_fs ''s1'' ''01234567''"
    by (simp add: artifact_free_def artifact_path_def parent_def demo_store_def demo_fs_def)
  moreover have "record_ok demo_exchange_json demo_exchange"
    by (simp add: record_ok_def demo_exchange_json_def dropCR_def scan_limit_def)
  moreover have "\<not> shouldSkip (ps_proxy demo_proxy) ''/a''" by (simp add: shouldSkip_def demo_proxy_def HasPrefix_def)
  ultimately show ?thesis using demo_records_inv
    by (simp add: capturable_def demo_world_def demo_request_def good_disk_def NewRecorder_def demo_proxy_def)
      (simp add: demo_exchange_def demo_proxy_def demo_world_def demo_request_def)
qed

definition same_rw :: replay_world where
  "same_rw =
     \<lparr>rw_started = 5, rw_finished = 8, rw_duration = 3, rw_uuid = ''89abcdef-01'',
      rw_do = \<lambda>i out. if og_Body out = ''xyz'' then Inr \<lparr>rs_StatusCode = 201, rs_Header = [], rs_Body = Inr ''ok''\<rparr> else Inl (''Post'', ''refused'')\<rparr>"



end
