(* ===== verification/Go_Duration.thy ===== *)
theory Go_Duration
  imports Go_Strings Go_Float
begin

text \<open>
  \<^verbatim>\<open>time.ParseDuration\<close>, which the configuration and the commands use for timeouts and delays. A
  duration is a number of nanoseconds; \<open>None\<close> stands for a non-nil error. The sum of the parts is
  a \<^verbatim>\<open>uint64\<close>, as in the library.
\<close>

definition max_duration :: nat where
  "max_duration = 2 ^ 63"

text \<open>The leading digits as a number, unless it exceeds \<^verbatim>\<open>1<<63\<close>.\<close>

fun leadingInt :: "nat \<Rightarrow> string \<Rightarrow> (nat \<times> string) option" where
  "leadingInt x [] = Some (x, [])"
| "leadingInt x (c # s) =
     (if \<not> is_digit c then Some (x, c # s)
      else if max_duration div 10 < x then None
      else let y = 10 * x + (of_char c - 48)
           in if max_duration < y then None else leadingInt y s)"

text \<open>The digits after a point as a number and its scale; digits that no longer fit are skipped.\<close>

fun leadingFraction :: "bool \<Rightarrow> nat \<Rightarrow> rat \<Rightarrow> string \<Rightarrow> nat \<times> rat \<times> string" where
  "leadingFraction over x scale [] = (x, scale, [])"
| "leadingFraction over x scale (c # s) =
     (if \<not> is_digit c then (x, scale, c # s)
      else if over \<or> (max_duration - 1) div 10 < x then leadingFraction True x scale s
      else let y = 10 * x + (of_char c - 48)
           in if max_duration < y then leadingFraction True x scale s
              else leadingFraction over y (f64_round (10 * scale)) s)"

definition duration_units :: "(string \<times> nat) list" where
  "duration_units =
     [(''ns'', 1), (''us'', 1000), ([CHR 0xC2, CHR 0xB5, CHR ''s''], 1000), ([CHR 0xCE, CHR 0xBC, CHR ''s''], 1000),
      (''ms'', 1000000), (''s'', 1000000000), (''m'', 60000000000), (''h'', 3600000000000)]"

lemma leadingInt_length: "leadingInt x s = Some (y, t) \<Longrightarrow> length t \<le> length s"
  by (induction x s rule: leadingInt.induct) (force simp: Let_def split: if_splits)+

lemma leadingFraction_length: "leadingFraction b x sc s = (y, sc', t) \<Longrightarrow> length t \<le> length s"
proof (induction b x sc s rule: leadingFraction.induct)
  case (2 over x scale c s)
  let ?y = "10 * x + (of_char c - 48)"
  consider "\<not> is_digit c" | "is_digit c" "over \<or> (max_duration - 1) div 10 < x"
    | "is_digit c" "\<not> (over \<or> (max_duration - 1) div 10 < x)" "max_duration < ?y"
    | "is_digit c" "\<not> (over \<or> (max_duration - 1) div 10 < x)" "\<not> max_duration < ?y" by blast
  then show ?case
  proof cases
    case 1
    with 2 show ?thesis by auto
  next
    case a: 2
    then have "leadingFraction over x scale (c # s) = leadingFraction True x scale s" by simp
    with 2(1) [of ] a 2(4) show ?thesis by simp
  next
    case a: 3
    then have "leadingFraction over x scale (c # s) = leadingFraction True x scale s" by (simp add: Let_def)
    with 2(2) [of ?y] a 2(4) show ?thesis by simp
  next
    case a: 4
    then have "leadingFraction over x scale (c # s) = leadingFraction over ?y (f64_round (10 * scale)) s" by (simp add: Let_def)
    with 2(3) [of ?y] a 2(4) show ?thesis by simp
  qed
qed simp

text \<open>One part, a number with a unit: its value and what follows it.\<close>

definition duration_part :: "string \<Rightarrow> (nat \<times> string) option" where
  "duration_part s =
     (if s = [] \<or> \<not> (hd s = CHR ''.'' \<or> is_digit (hd s)) then None
      else case leadingInt 0 s of
             None \<Rightarrow> None
           | Some (v, s1) \<Rightarrow>
               (let pre = (length s1 \<noteq> length s);
                    (f, scale, s2, post) =
                      (case s1 of
                         c # t \<Rightarrow> if c = CHR ''.'' then
                                     (let (f, scale, u) = leadingFraction False 0 1 t in (f, scale, u, length u \<noteq> length t))
                                   else (0, 1, s1, False)
                       | [] \<Rightarrow> (0, 1, s1, False));
                    u = takeWhile (\<lambda>c. c \<noteq> CHR ''.'' \<and> \<not> is_digit c) s2;
                    rest = drop (length u) s2
                in if \<not> pre \<and> \<not> post \<or> u = [] then None
                   else case map_of duration_units u of
                          None \<Rightarrow> None
                        | Some unit \<Rightarrow>
                            if max_duration div unit < v then None
                            else let v = v * unit;
                                     w = (if 0 < f then v + nat \<lfloor>f64_round (f64_of_int (int f) * f64_div (of_nat unit) scale)\<rfloor> else v)
                                 in if 0 < f \<and> max_duration < w then None else Some (w, rest)))"

lemma duration_part_length: "duration_part s = Some (v, t) \<Longrightarrow> length t < length s"
proof -
  assume p: "duration_part s = Some (v, t)"
  then obtain v1 s1 where l: "leadingInt 0 s = Some (v1, s1)"
    by (auto simp: duration_part_def split: if_splits option.splits)
  have "\<exists>u s2. u \<noteq> [] \<and> u = takeWhile (\<lambda>c. c \<noteq> CHR ''.'' \<and> \<not> is_digit c) s2 \<and> t = drop (length u) s2 \<and> length s2 \<le> length s1"
  proof (cases s1)
    case Nil
    with p l show ?thesis by (auto simp: duration_part_def Let_def split: if_splits option.splits)
  next
    case (Cons c s')
    show ?thesis
    proof (cases "c = CHR ''.''")
      case True
      obtain f sc u where f: "leadingFraction False 0 1 s' = (f, sc, u)" by (metis prod_cases3)
      with p l Cons True have "takeWhile (\<lambda>c. c \<noteq> CHR ''.'' \<and> \<not> is_digit c) u \<noteq> []"
        "t = drop (length (takeWhile (\<lambda>c. c \<noteq> CHR ''.'' \<and> \<not> is_digit c) u)) u"
        by (auto simp: duration_part_def Let_def split: if_splits option.splits)
      with leadingFraction_length [OF f] Cons show ?thesis by (intro exI [of _ "takeWhile (\<lambda>c. c \<noteq> CHR ''.'' \<and> \<not> is_digit c) u"] exI [of _ u]) simp
    next
      case False
      with p l Cons have "takeWhile (\<lambda>c. c \<noteq> CHR ''.'' \<and> \<not> is_digit c) s1 \<noteq> []"
        "t = drop (length (takeWhile (\<lambda>c. c \<noteq> CHR ''.'' \<and> \<not> is_digit c) s1)) s1"
        by (auto simp: duration_part_def Let_def split: if_splits option.splits)
      then show ?thesis by blast
    qed
  qed
  then obtain u s2 where u: "u \<noteq> []" "u = takeWhile (\<lambda>c. c \<noteq> CHR ''.'' \<and> \<not> is_digit c) s2" "t = drop (length u) s2" "length s2 \<le> length s1"
    by blast
  from u(1,2) have "0 < length u" "length u \<le> length s2" by (simp_all add: length_takeWhile_le)
  moreover have "length t = length s2 - length u" by (simp add: u(3))
  ultimately show ?thesis using u(4) leadingInt_length [OF l] by linarith
qed

text \<open>The loop over the parts; \<open>d\<close> is the sum so far.\<close>

function duration_loop :: "nat \<Rightarrow> string \<Rightarrow> nat option" where
  "duration_loop d s =
     (if s = [] then Some d
      else case duration_part s of
             None \<Rightarrow> None
           | Some (v, t) \<Rightarrow>
               (let d' = (d + v) mod 2 ^ 64
                in if max_duration < d' then None else duration_loop d' t))"
  by pat_completeness auto
termination by (relation "measure (\<lambda>(d, s). length s)") (auto dest: duration_part_length)

declare duration_loop.simps [simp del]

definition ParseDuration :: "string \<Rightarrow> int option" where
  "ParseDuration s =
     (let neg = (case s of c # _ \<Rightarrow> c = CHR ''-'' | [] \<Rightarrow> False);
          t = (case s of c # t \<Rightarrow> if c = CHR ''-'' \<or> c = CHR ''+'' then t else s | [] \<Rightarrow> [])
      in if t = ''0'' then Some 0
         else if t = [] then None
         else case duration_loop 0 t of
                None \<Rightarrow> None
              | Some d \<Rightarrow> if neg then Some (- int d) else if max_duration \<le> d then None else Some (int d))"

section \<open>Whole numbers of a unit\<close>

lemma digits_val_mono: "list_all is_digit t \<Longrightarrow> digits_val s \<le> digits_val (s @ t)"
proof (induction t rule: rev_induct)
  case (snoc c t)
  then have "digits_val s \<le> digits_val (s @ t)" by simp
  also have "\<dots> \<le> digits_val ((s @ t) @ [c])" by (simp only: digits_val_snoc)
  finally show ?case by simp
qed simp

lemma leadingInt_digits:
  "list_all is_digit t \<Longrightarrow> digits_val (s @ t) \<le> max_duration \<Longrightarrow> r = [] \<or> \<not> is_digit (hd r) \<Longrightarrow>
   leadingInt (digits_val s) (t @ r) = Some (digits_val (s @ t), r)"
proof (induction t arbitrary: s)
  case Nil
  then show ?case by (cases r) auto
next
  case (Cons c t)
  have y: "10 * digits_val s + (of_char c - 48) = digits_val (s @ [c])" by (simp only: digits_val_snoc)
  have le: "digits_val (s @ [c]) \<le> max_duration"
    using digits_val_mono [of t "s @ [c]"] Cons.prems by simp
  then have "digits_val s \<le> max_duration div 10" using y by linarith
  with le y Cons.prems Cons.IH [of "s @ [c]"] show ?case by (simp add: Let_def not_less)
qed

lemma ParseDuration_whole:
  assumes unit: "map_of duration_units u = Some k" "u \<noteq> []" "list_all (\<lambda>c. c \<noteq> CHR ''.'' \<and> \<not> is_digit c) u" and n: "n * k < max_duration" "0 < k"
  shows "ParseDuration (nat_str n @ u) = Some (int (n * k))"
proof -
  have "n \<le> n * k" using n(2) by simp
  then have le: "n \<le> max_duration" using n(1) by linarith
  have nd: "\<not> is_digit (hd u)" "hd u \<noteq> CHR ''.''" using unit(2,3) by (cases u; simp)+
  have li: "leadingInt 0 (nat_str n @ u) = Some (n, u)"
    using leadingInt_digits [of "nat_str n" "[]" u] nat_str_digits [of n] nd le by (simp add: digits_val_nat_str) (simp add: digits_val_def)
  obtain c ds where h: "nat_str n = c # ds" by (cases "nat_str n") auto
  then have d: "is_digit c" using nat_str_digits [of n] by simp
  have "hd (nat_str n) \<noteq> CHR ''-''" "hd (nat_str n) \<noteq> CHR ''+''" using nat_str_head by blast+
  then have c: "c \<noteq> CHR ''-''" "c \<noteq> CHR ''+''" by (simp_all add: h)
  have tw: "takeWhile (\<lambda>c. c \<noteq> CHR ''.'' \<and> \<not> is_digit c) u = u" using unit(3) by (simp add: takeWhile_eq_all_conv list_all_iff)
  have v: "\<not> max_duration div k < n" using n by (simp add: not_less less_eq_div_iff_mult_less_eq)
  have "duration_part (nat_str n @ u) = Some (n * k, [])"
  proof (cases u)
    case (Cons a u')
    with nd have "a \<noteq> CHR ''.''" by simp
    with li tw unit(1,2) v Cons d h show ?thesis by (simp add: duration_part_def Let_def)
  qed (use unit(2) in simp)
  moreover have "n * k mod 2 ^ 64 = n * k" using n by (simp add: max_duration_def)
  ultimately have "duration_loop 0 (nat_str n @ u) = Some (n * k)"
    using n(1) by (subst duration_loop.simps) (simp add: duration_loop.simps [of _ "[]"] Let_def h)
  then show ?thesis using c n(1) unit(2) by (auto simp: ParseDuration_def Let_def h)
qed

text \<open>What \<^verbatim>\<open>fmt.Sprintf("%dms", n)\<close> prints is read back as that many milliseconds.\<close>

lemma ParseDuration_ms: "0 \<le> n \<Longrightarrow> n * 1000000 < 2 ^ 63 \<Longrightarrow> ParseDuration (Itoa n @ ''ms'') = Some (n * 1000000)"
proof -
  assume n: "0 \<le> n" "n * 1000000 < 2 ^ 63"
  then have "nat n * 1000000 < max_duration" by (simp add: max_duration_def nat_less_iff)
  with ParseDuration_whole [of "''ms''" 1000000 "nat n"] n(1) show ?thesis
    by (simp add: Itoa_def duration_units_def is_digit_def)
qed

lemma ParseDuration_s: "0 \<le> n \<Longrightarrow> n * 1000000000 < 2 ^ 63 \<Longrightarrow> ParseDuration (Itoa n @ ''s'') = Some (n * 1000000000)"
proof -
  assume n: "0 \<le> n" "n * 1000000000 < 2 ^ 63"
  then have "nat n * 1000000000 < max_duration" by (simp add: max_duration_def nat_less_iff)
  with ParseDuration_whole [of "''s''" 1000000000 "nat n"] n(1) show ?thesis
    by (simp add: Itoa_def duration_units_def is_digit_def)
qed

end
