(* ===== verification/Config.thy ===== *)
theory Config
  imports Rules Go_Duration File_System Db_Hooks
begin

text \<open>
  The configuration (\<^verbatim>\<open>internal/config\<close>): its types and defaults (\<^verbatim>\<open>config.go\<close>), validation
  (\<^verbatim>\<open>validate.go\<close>) and the store that keeps it in a file (\<^verbatim>\<open>store.go\<close>). JSON encoding and decoding
  are a parameter; decoding starts from a given value, whose fields it replaces.
\<close>

section \<open>Types\<close>

record DBProxyConfig =
  dp_Type :: string
  dp_ListenAddr :: string
  dp_TargetAddr :: string

record CaptureConfig =
  cc_ListenAddr :: string
  cc_MaxBodySize :: int
  cc_ExcludePaths :: "string list"
  cc_DBProxies :: "DBProxyConfig list"

record ReplayConfig =
  rc_Concurrency :: int
  rc_Timeout :: string
  rc_RetryCount :: int
  rc_DelayMs :: int
  rc_DBProxies :: "DBProxyConfig list"

record DiffConfig =
  dc_IgnoreHeaders :: "string list"
  dc_IgnoreOrder :: bool
  dc_MaxDiffs :: int
  dc_Rules :: "ConfigRule list"
  dc_RulesFile :: string

record StorageConfig =
  stc_DataDir :: string
  stc_MaxSessions :: int

record LogConfig =
  lc_Level :: string
  lc_LogDir :: string

record AppConfig =
  cfg_Capture :: CaptureConfig
  cfg_Replay :: ReplayConfig
  cfg_Diff :: DiffConfig
  cfg_Storage :: StorageConfig
  cfg_Log :: LogConfig

definition DefaultConfig :: AppConfig where
  "DefaultConfig =
     \<lparr>cfg_Capture = \<lparr>cc_ListenAddr = '':18080'', cc_MaxBodySize = 10 * 1024 * 1024, cc_ExcludePaths = [], cc_DBProxies = []\<rparr>,
      cfg_Replay = \<lparr>rc_Concurrency = 1, rc_Timeout = ''30s'', rc_RetryCount = 0, rc_DelayMs = 0, rc_DBProxies = []\<rparr>,
      cfg_Diff = \<lparr>dc_IgnoreHeaders = [''Date'', ''X-Request-Id'', ''X-Trace-Id'', ''Server'', ''Content-Length''],
        dc_IgnoreOrder = False, dc_MaxDiffs = 1000, dc_Rules = [], dc_RulesFile = ''''\<rparr>,
      cfg_Storage = \<lparr>stc_DataDir = '''', stc_MaxSessions = 100\<rparr>,
      cfg_Log = \<lparr>lc_Level = ''info'', lc_LogDir = ''''\<rparr>\<rparr>"

section \<open>Validation\<close>

datatype config_error =
    ConfigNil
  | NegativeMaxBodySize
  | BadConcurrency
  | NegativeDelayMs
  | NegativeRetryCount
  | InvalidTimeout
  | BadMaxDiffs
  | BadLogLevel
  | BadProxyType string nat
  | EmptyListenAddr string nat
  | EmptyTargetAddr string nat

fun validateDBProxies :: "string \<Rightarrow> nat \<Rightarrow> DBProxyConfig list \<Rightarrow> config_error option" where
  "validateDBProxies path i [] = None"
| "validateDBProxies path i (proxy # proxies) =
     (if \<not> IsSupported (dp_Type proxy) then Some (BadProxyType path i)
      else if dp_ListenAddr proxy = '''' then Some (EmptyListenAddr path i)
      else if dp_TargetAddr proxy = '''' then Some (EmptyTargetAddr path i)
      else validateDBProxies path (Suc i) proxies)"

definition Validate :: "(nat \<Rightarrow> nat) \<Rightarrow> AppConfig option \<Rightarrow> config_error option" where
  "Validate low c =
     (case c of
        None \<Rightarrow> Some ConfigNil
      | Some cfg \<Rightarrow>
          if cc_MaxBodySize (cfg_Capture cfg) < 0 then Some NegativeMaxBodySize
          else if rc_Concurrency (cfg_Replay cfg) < 1 then Some BadConcurrency
          else if rc_DelayMs (cfg_Replay cfg) < 0 then Some NegativeDelayMs
          else if rc_RetryCount (cfg_Replay cfg) < 0 then Some NegativeRetryCount
          else if ParseDuration (rc_Timeout (cfg_Replay cfg)) = None then Some InvalidTimeout
          else if dc_MaxDiffs (cfg_Diff cfg) < 1 then Some BadMaxDiffs
          else if ToLower low (lc_Level (cfg_Log cfg)) \<notin> {''debug'', ''info'', ''warn'', ''error''} then Some BadLogLevel
          else case validateDBProxies ''capture.dbProxies'' 0 (cc_DBProxies (cfg_Capture cfg)) of
                 Some err \<Rightarrow> Some err
               | None \<Rightarrow> validateDBProxies ''replay.dbProxies'' 0 (rc_DBProxies (cfg_Replay cfg)))"

section \<open>The store\<close>

record config_codec =
  marshalConfig :: "AppConfig \<Rightarrow> bytes option"
  unmarshalConfig :: "bytes \<Rightarrow> AppConfig \<Rightarrow> AppConfig option"

datatype store_error = ConfigFile fs_error | ConfigUnmarshal | ConfigMarshal | NoHomeDir

record ConfigStore =
  cs_path :: path
  cs_config :: AppConfig

definition DefaultPath :: "path option \<Rightarrow> store_error + path" where
  "DefaultPath home =
     (case home of
        None \<Rightarrow> Inl NoHomeDir
      | Some homeDir \<Rightarrow> Inr (JoinPath (JoinPath homeDir [''.shadiff'']) [''config.json'']))"

definition Store_Load :: "config_codec \<Rightarrow> fs \<Rightarrow> ConfigStore \<Rightarrow> store_error + ConfigStore" where
  "Store_Load json fs s =
     (case ReadFile fs (cs_path s) of
        Inl e \<Rightarrow> Inl (ConfigFile e)
      | Inr data \<Rightarrow>
          (case unmarshalConfig json data DefaultConfig of
             None \<Rightarrow> Inl ConfigUnmarshal
           | Some cfg \<Rightarrow> Inr (s\<lparr>cs_config := cfg\<rparr>)))"

definition Store_Save :: "config_codec \<Rightarrow> fs \<Rightarrow> ConfigStore \<Rightarrow> fs \<times> store_error option" where
  "Store_Save json fs s =
     (case marshalConfig json (cs_config s) of
        None \<Rightarrow> (fs, Some ConfigMarshal)
      | Some data \<Rightarrow>
          (case WriteFile fs (cs_path s) data of
             Inl e \<Rightarrow> (fs, Some (ConfigFile e))
           | Inr fs' \<Rightarrow> (fs', None)))"

definition Store_Get :: "ConfigStore \<Rightarrow> AppConfig" where
  "Store_Get s = cs_config s"

text \<open>\<^verbatim>\<open>Update\<close> changes the configuration in memory first; when it cannot be written, the change stays.\<close>

definition Store_Update :: "config_codec \<Rightarrow> fs \<Rightarrow> ConfigStore \<Rightarrow> (AppConfig \<Rightarrow> AppConfig) \<Rightarrow> fs \<times> ConfigStore \<times> store_error option" where
  "Store_Update json fs s fn =
     (let s' = s\<lparr>cs_config := fn (cs_config s)\<rparr>
      in case marshalConfig json (cs_config s') of
           None \<Rightarrow> (fs, s', Some ConfigMarshal)
         | Some data \<Rightarrow>
             (case WriteFile fs (cs_path s') data of
                Inl e \<Rightarrow> (fs, s', Some (ConfigFile e))
              | Inr fs' \<Rightarrow> (fs', s', None)))"

text \<open>\<open>home\<close> is what \<^verbatim>\<open>os.UserHomeDir\<close> returns; \<open>cfgFile\<close> is \<open>None\<close> for the empty path.\<close>

definition NewStoreWithPath ::
  "config_codec \<Rightarrow> path option \<Rightarrow> fs \<Rightarrow> path option \<Rightarrow> fs \<times> (store_error + ConfigStore)" where
  "NewStoreWithPath json home fs cfgFile =
     (case (case cfgFile of Some p \<Rightarrow> Inr p | None \<Rightarrow> DefaultPath home) of
        Inl e \<Rightarrow> (fs, Inl e)
      | Inr path \<Rightarrow>
          (case MkdirAll fs [] (parent path) of
             Inl e \<Rightarrow> (fs, Inl (ConfigFile e))
           | Inr fs' \<Rightarrow>
               (let s = \<lparr>cs_path = path, cs_config = DefaultConfig\<rparr>
                in case Store_Load json fs' s of
                     Inr s' \<Rightarrow> (fs', Inr s')
                   | Inl (ConfigFile e) \<Rightarrow>
                       if IsNotExist e then
                         (case Store_Save json fs' s of
                            (fs'', Some err) \<Rightarrow> (fs'', Inl err)
                          | (fs'', None) \<Rightarrow> (fs'', Inr s))
                       else (fs', Inl (ConfigFile e))
                   | Inl err \<Rightarrow> (fs', Inl err))))"

definition NewStore where
  "NewStore json home fs = NewStoreWithPath json home fs None"

text \<open>The directory named by the configuration is given to \<open>resolve\<close>, which makes a path of it.\<close>

definition Store_DataDir :: "(string \<Rightarrow> path) \<Rightarrow> path option \<Rightarrow> ConfigStore \<Rightarrow> path" where
  "Store_DataDir resolve home s =
     (if stc_DataDir (cfg_Storage (Store_Get s)) \<noteq> '''' then resolve (stc_DataDir (cfg_Storage (Store_Get s)))
      else case home of
             Some homeDir \<Rightarrow> JoinPath homeDir [''.shadiff'']
           | None \<Rightarrow> resolve ''.shadiff'')"

section \<open>Validated configurations\<close>

definition proxy_ok :: "DBProxyConfig \<Rightarrow> bool" where
  "proxy_ok p \<longleftrightarrow> IsSupported (dp_Type p) \<and> dp_ListenAddr p \<noteq> '''' \<and> dp_TargetAddr p \<noteq> ''''"

lemma validateDBProxies_None: "validateDBProxies path i ps = None \<longleftrightarrow> list_all proxy_ok ps"
  by (induction path i ps rule: validateDBProxies.induct) (auto simp: proxy_ok_def)

lemma validateDBProxies_first:
  "validateDBProxies path i ps = Some err \<Longrightarrow>
     \<exists>j < length ps. list_all proxy_ok (take j ps) \<and> \<not> proxy_ok (ps ! j)
       \<and> err \<in> {BadProxyType path (i + j), EmptyListenAddr path (i + j), EmptyTargetAddr path (i + j)}"
proof (induction path i ps rule: validateDBProxies.induct)
  case (2 path i p ps)
  show ?case
  proof (cases "proxy_ok p")
    case True
    then have p: "\<not> \<not> IsSupported (dp_Type p)" "dp_ListenAddr p \<noteq> ''''" "dp_TargetAddr p \<noteq> ''''" by (simp_all add: proxy_ok_def)
    with 2(2) have "validateDBProxies path (Suc i) ps = Some err" by simp
    from 2(1) [OF p this] obtain j where "j < length ps" "list_all proxy_ok (take j ps)" "\<not> proxy_ok (ps ! j)"
      "err \<in> {BadProxyType path (Suc i + j), EmptyListenAddr path (Suc i + j), EmptyTargetAddr path (Suc i + j)}"
      by blast
    with True show ?thesis by (intro exI [of _ "Suc j"]) auto
  next
    case False
    with 2(2) show ?thesis by (intro exI [of _ 0]) (auto simp: proxy_ok_def split: if_splits)
  qed
qed simp

lemma IsSupported_NewHook: "IsSupported (hc_DBType c) \<longleftrightarrow> (\<exists>px. NewHook c = Inr px)"
  by (auto simp: IsSupported_def Supported_def NewHook_def hookConstructors_def split: option.splits)

definition hook_config :: "DBProxyConfig \<Rightarrow> Config" where
  "hook_config p = \<lparr>hc_DBType = dp_Type p, hc_ListenAddr = dp_ListenAddr p, hc_TargetAddr = dp_TargetAddr p\<rparr>"

lemma ToLower_info: "ToLower low ''info'' = ''info''"
  by (simp add: ToLower_def is_ascii_def lower_char_def)

section \<open>Properties\<close>

lemma MkdirAll_exists:
  "(\<And>q. strict_prefix d q \<Longrightarrow> prefix q (d @ es) \<Longrightarrow> map_of fs q = Some Dir) \<Longrightarrow> MkdirAll fs d es = Inr fs"
proof (induction es arbitrary: d)
  case (Cons e es)
  have "map_of fs (d @ [e]) = Some Dir" by (rule Cons.prems) (auto simp: strict_prefix_def)
  moreover have "MkdirAll fs (d @ [e]) es = Inr fs"
    by (rule Cons.IH, rule Cons.prems) (auto simp: strict_prefix_def dest: append_prefixD prefix_order.antisym)
  ultimately show ?case by (simp add: Let_def)
qed simp

text \<open>
  The configuration store: where there is no file, a new store starts from the defaults and
  writes them; what an update makes of the configuration is what the next store on that path reads.
\<close>

theorem config_store_roundtrip:
  assumes codec: "marshalConfig json DefaultConfig = Some b" "marshalConfig json (f DefaultConfig) = Some b'"
      "unmarshalConfig json b' DefaultConfig = Some (f DefaultConfig)"
    and fs: "tree_ok fs" "p \<noteq> []" "map_of fs p = None"
    and dirs: "list_all (\<lambda>q. case map_of fs q of Some (File x) \<Rightarrow> False | _ \<Rightarrow> True) (prefixes (parent p))"
  shows "\<exists>fs1 s fs2 s2. NewStoreWithPath json home fs (Some p) = (fs1, Inr s) \<and> Store_Get s = DefaultConfig
     \<and> Store_Update json fs1 s f = (fs2, s2, None) \<and> Store_Get s2 = f DefaultConfig
     \<and> NewStoreWithPath json home fs2 (Some p) = (fs2, Inr s2)"
proof -
  have nofile: "map_of fs q \<noteq> Some (File x)" if "prefix q (parent p)" for q x
  proof
    assume f: "map_of fs q = Some (File x)"
    have "case map_of fs q of Some (File x) \<Rightarrow> False | _ \<Rightarrow> True"
      using dirs that unfolding list_all_iff by (meson in_set_prefixes)
    with f show False by simp
  qed
  obtain fs0 where mk: "MkdirAll fs [] (parent p) = Inr fs0" using MkdirAll_total [of "[]" "parent p" fs] nofile by auto
  note m = MkdirAll_map_of [OF mk]
  have tree0: "tree_ok fs0" by (rule MkdirAll_tree_ok [OF mk fs(1)]) (use fs(1) in \<open>simp add: tree_ok_iff\<close>)
  have root: "map_of fs [] = Some Dir" using fs(1) by (simp add: tree_ok_iff)
  have dir: "map_of fs0 (parent p) = Some Dir" using m root by (cases "parent p = []") (auto simp: strict_prefix_def)
  have "length (parent p) < length p" using fs(2) by (simp add: parent_def)
  then have "\<not> prefix p (parent p)" by (auto dest: prefix_length_le)
  with m fs(3) have none: "map_of fs0 p = None" by auto
  let ?fs1 = "put p (File b) fs0" and ?fs2 = "put p (File b') (put p (File b) fs0)"
  have load0: "ReadFile fs0 p = Inl (NotExist p)"
    using ReadFile_None [OF tree0 none fs(2)] dir by (simp add: parent_def)
  have w1: "WriteFile fs0 p b = Inr ?fs1" using dir none by (intro WriteFile_ok) auto
  have pp: "p \<noteq> parent p" using fs(2) by (cases p rule: rev_cases) (auto simp: parent_def)
  have w2: "WriteFile ?fs1 p b' = Inr ?fs2" using dir pp by (intro WriteFile_ok) auto
  have "map_of ?fs2 q = Some Dir" if "strict_prefix [] q" "prefix q ([] @ parent p)" for q
  proof -
    have "q \<noteq> p" using that(2) \<open>\<not> prefix p (parent p)\<close> by auto
    with that m show ?thesis by simp
  qed
  then have mk2: "MkdirAll ?fs2 [] (parent p) = Inr ?fs2" by (rule MkdirAll_exists)
  have r2: "ReadFile ?fs2 p = Inr b'" by (rule ReadFile_WriteFile [OF w2])
  let ?s = "\<lparr>cs_path = p, cs_config = DefaultConfig\<rparr>"
  have "NewStoreWithPath json home fs (Some p) = (?fs1, Inr ?s)"
    by (simp add: NewStoreWithPath_def mk Store_Load_def load0 Store_Save_def codec(1) w1 Let_def)
  moreover have "Store_Update json ?fs1 ?s f = (?fs2, ?s\<lparr>cs_config := f DefaultConfig\<rparr>, None)"
    by (simp add: Store_Update_def codec(2) w2 Let_def)
  moreover have "NewStoreWithPath json home ?fs2 (Some p) = (?fs2, Inr (?s\<lparr>cs_config := f DefaultConfig\<rparr>))"
    by (simp add: NewStoreWithPath_def mk2 Store_Load_def r2 codec(3) Let_def)
  ultimately show ?thesis by (intro exI conjI) (assumption | simp add: Store_Get_def)+
qed

section \<open>Instances\<close>

lemma DefaultConfig_valid: "Validate low (Some DefaultConfig) = None"
proof -
  have "Itoa 30 @ ''s'' = ''30s''" by (simp add: Itoa_def nat_str.simps digit_char_def char_of_def bit_0)
  with ParseDuration_s [of 30] have "ParseDuration ''30s'' = Some 30000000000" by simp
  then show ?thesis by (simp add: Validate_def DefaultConfig_def ToLower_info)
qed

definition demo_config_codec :: config_codec where
  "demo_config_codec =
     \<lparr>marshalConfig = \<lambda>c. Some (lc_Level (cfg_Log c)),
      unmarshalConfig = \<lambda>d c. Some (c\<lparr>cfg_Log := (cfg_Log c)\<lparr>lc_Level := d\<rparr>\<rparr>)\<rparr>"

definition demo_change :: "AppConfig \<Rightarrow> AppConfig" where
  "demo_change c = c\<lparr>cfg_Log := (cfg_Log c)\<lparr>lc_Level := ''debug''\<rparr>\<rparr>"

theorem config_store_roundtrip_witness:
  "\<exists>fs2 s2. NewStoreWithPath demo_config_codec None fs2 (Some [''h'', ''config.json'']) = (fs2, Inr s2)
     \<and> lc_Level (cfg_Log (Store_Get s2)) = ''debug''"
proof -
  have codec: "marshalConfig demo_config_codec DefaultConfig = Some ''info''"
    "marshalConfig demo_config_codec (demo_change DefaultConfig) = Some ''debug''"
    "unmarshalConfig demo_config_codec ''debug'' DefaultConfig = Some (demo_change DefaultConfig)"
    by (simp_all add: demo_config_codec_def demo_change_def DefaultConfig_def)
  have "\<exists>fs1 s fs2 s2. NewStoreWithPath demo_config_codec None [([], Dir)] (Some [''h'', ''config.json'']) = (fs1, Inr s)
     \<and> Store_Get s = DefaultConfig \<and> Store_Update demo_config_codec fs1 s demo_change = (fs2, s2, None)
     \<and> Store_Get s2 = demo_change DefaultConfig
     \<and> NewStoreWithPath demo_config_codec None fs2 (Some [''h'', ''config.json'']) = (fs2, Inr s2)"
    by (rule config_store_roundtrip [where f = demo_change, OF codec]) (simp_all add: tree_ok_def parent_def)
  moreover have "lc_Level (cfg_Log (demo_change DefaultConfig)) = ''debug''" by (simp add: demo_change_def)
  ultimately show ?thesis by metis
qed

end
