(* ===== verification/Runtime.thy ===== *)
theory Runtime
  imports Config Storage
begin

text \<open>
  What the commands share (\<^verbatim>\<open>cmd/runtime.go\<close>, \<^verbatim>\<open>cmd/dbproxy.go\<close>, and \<^verbatim>\<open>resolveSession\<close> and
  \<^verbatim>\<open>findSession\<close> of \<^verbatim>\<open>cmd/replay.go\<close> and \<^verbatim>\<open>cmd/record_stop.go\<close>): the runtime context, the values
  that flags and configuration give together, database proxy specifications and the hooks started
  for them, and the session that an argument names.
\<close>

section \<open>The runtime context\<close>

record appRuntime =
  rt_ConfigPath :: path
  rt_Config :: AppConfig
  rt_DataDir :: path
  rt_LogDir :: path

datatype runtime_error = LoadConfigFailed store_error | InvalidConfig config_error | NoDefaultPath store_error

text \<open>\<open>resolve\<close> makes a path of a text, \<open>home\<close> is the home directory, \<open>cfgFile\<close> the flag \<^verbatim>\<open>--config\<close>.\<close>

definition initRuntime ::
  "config_codec \<Rightarrow> (nat \<Rightarrow> nat) \<Rightarrow> (string \<Rightarrow> path) \<Rightarrow> path option \<Rightarrow> fs \<Rightarrow> path option \<Rightarrow> fs \<times> (runtime_error + appRuntime)" where
  "initRuntime json low resolve home fs cfgFile =
     (case NewStoreWithPath json home fs cfgFile of
        (fs', Inl err) \<Rightarrow> (fs', Inl (LoadConfigFailed err))
      | (fs', Inr store) \<Rightarrow>
          (let cfg = Store_Get store
           in case Validate low (Some cfg) of
                Some err \<Rightarrow> (fs', Inl (InvalidConfig err))
              | None \<Rightarrow>
                  (let dataDir = Store_DataDir resolve home store;
                       logDir = (if lc_LogDir (cfg_Log cfg) = '''' then JoinPath dataDir [''logs''] else resolve (lc_LogDir (cfg_Log cfg)))
                   in case (case cfgFile of Some p \<Rightarrow> Inr p | None \<Rightarrow> DefaultPath home) of
                        Inl err \<Rightarrow> (fs', Inl (NoDefaultPath err))
                      | Inr configPath \<Rightarrow>
                          (fs', Inr \<lparr>rt_ConfigPath = configPath, rt_Config = cfg, rt_DataDir = dataDir, rt_LogDir = logDir\<rparr>))))"

definition effectiveLogLevel :: "(nat \<Rightarrow> nat) \<Rightarrow> bool \<Rightarrow> bool \<Rightarrow> appRuntime \<Rightarrow> string" where
  "effectiveLogLevel low quiet verbose rt =
     (if quiet then ''error'' else if verbose then ''debug'' else ToLower low (lc_Level (cfg_Log (rt_Config rt))))"

definition effectiveString :: "bool \<Rightarrow> string \<Rightarrow> string \<Rightarrow> string" where
  "effectiveString cmdFlagChanged flagValue cfgValue =
     (if cmdFlagChanged then flagValue else if cfgValue \<noteq> '''' then cfgValue else flagValue)"

definition effectiveStrings :: "bool \<Rightarrow> string list \<Rightarrow> string list \<Rightarrow> string list" where
  "effectiveStrings cmdFlagChanged flagValue cfgValue =
     (if cmdFlagChanged then flagValue else if 0 < length cfgValue then cfgValue else flagValue)"

definition effectiveBool :: "bool \<Rightarrow> bool \<Rightarrow> bool \<Rightarrow> bool" where
  "effectiveBool cmdFlagChanged flagValue cfgValue = (if cmdFlagChanged then flagValue else cfgValue)"

definition effectiveInt :: "bool \<Rightarrow> int \<Rightarrow> int \<Rightarrow> int" where
  "effectiveInt cmdFlagChanged flagValue cfgValue =
     (if cmdFlagChanged then flagValue else if cfgValue \<noteq> 0 then cfgValue else flagValue)"

lemma initRuntime_valid: "initRuntime json low resolve home fs cfgFile = (fs', Inr rt) \<Longrightarrow> Validate low (Some (rt_Config rt)) = None"
  by (auto simp: initRuntime_def Let_def split: prod.splits sum.splits option.splits)

section \<open>Database proxies\<close>

datatype dbproxy_error = InvalidDBProxy string

definition parseDBProxySpec :: "string \<Rightarrow> dbproxy_error + DBProxyConfig" where
  "parseDBProxySpec spec =
     (case SplitN2 spec ''://'' of
        [t, r] \<Rightarrow>
          (case SplitN2 r ''->'' of
             [l, a] \<Rightarrow> Inr \<lparr>dp_Type = t, dp_ListenAddr = l, dp_TargetAddr = a\<rparr>
           | _ \<Rightarrow> Inl (InvalidDBProxy spec))
      | _ \<Rightarrow> Inl (InvalidDBProxy spec))"

fun parse_specs :: "string list \<Rightarrow> dbproxy_error + DBProxyConfig list" where
  "parse_specs [] = Inr []"
| "parse_specs (spec # specs) =
     (case parseDBProxySpec spec of
        Inl err \<Rightarrow> Inl err
      | Inr proxy \<Rightarrow>
          (case parse_specs specs of
             Inl err \<Rightarrow> Inl err
           | Inr proxies \<Rightarrow> Inr (proxy # proxies)))"

definition resolveRecordDBProxies :: "bool \<Rightarrow> string list \<Rightarrow> AppConfig \<Rightarrow> dbproxy_error + DBProxyConfig list" where
  "resolveRecordDBProxies flagChanged flagValues cfg =
     (if \<not> flagChanged then Inr (cc_DBProxies (cfg_Capture cfg)) else parse_specs flagValues)"

definition resolveReplayDBProxies :: "bool \<Rightarrow> string list \<Rightarrow> AppConfig \<Rightarrow> dbproxy_error + DBProxyConfig list" where
  "resolveReplayDBProxies flagChanged flagValues cfg =
     (if \<not> flagChanged then Inr (rc_DBProxies (cfg_Replay cfg)) else parse_specs flagValues)"

text \<open>
  The loop of \<^verbatim>\<open>startDBHooks\<close>: \<open>start\<close> is the outcome of \<^verbatim>\<open>Start\<close>, \<open>hooks\<close> are those started so far.
  The result has the hooks that were stopped again beside it.
\<close>

datatype start_error = HookUnsupported UnsupportedDBError | HookStart string

fun start_hooks ::
  "(tcpProxy \<Rightarrow> string option) \<Rightarrow> tcpProxy list \<Rightarrow> DBProxyConfig list \<Rightarrow> (start_error + tcpProxy list) \<times> tcpProxy list" where
  "start_hooks start hooks [] = (Inr hooks, [])"
| "start_hooks start hooks (proxy # proxies) =
     (case NewHook (hook_config proxy) of
        Inl err \<Rightarrow> (Inl (HookUnsupported err), hooks)
      | Inr hook \<Rightarrow>
          (case start hook of
             Some err \<Rightarrow> (Inl (HookStart err), hooks)
           | None \<Rightarrow> start_hooks start (hooks @ [hook]) proxies))"

definition startDBHooks where
  "startDBHooks start proxies = start_hooks start [] proxies"

section \<open>Sessions by name\<close>

datatype resolve_error = QuerySessionsFailed storage_error | SessionNotFound string | AmbiguousSession "Session list"

definition name_filter :: "string \<Rightarrow> SessionFilter" where
  "name_filter name = \<lparr>flt_Name = name, flt_Status = '''', flt_Tags = []\<rparr>"

definition resolveSession :: "json_codec \<Rightarrow> FileStore \<Rightarrow> fs \<Rightarrow> string \<Rightarrow> resolve_error + string" where
  "resolveSession json st fs nameOrID =
     (case Get json st fs nameOrID of
        Inr sess \<Rightarrow> Inr (sess_ID sess)
      | Inl _ \<Rightarrow>
          (case ListSessions json st fs (Some (name_filter nameOrID)) of
             Inl err \<Rightarrow> Inl (QuerySessionsFailed err)
           | Inr [] \<Rightarrow> Inl (SessionNotFound nameOrID)
           | Inr (s # sessions) \<Rightarrow> Inr (sess_ID s)))"

definition findSession :: "json_codec \<Rightarrow> FileStore \<Rightarrow> fs \<Rightarrow> string \<Rightarrow> resolve_error + Session" where
  "findSession json st fs nameOrID =
     (case Get json st fs nameOrID of
        Inr sess \<Rightarrow> Inr sess
      | Inl _ \<Rightarrow>
          (case ListSessions json st fs (Some (name_filter nameOrID)) of
             Inl err \<Rightarrow> Inl (QuerySessionsFailed err)
           | Inr sessions \<Rightarrow>
               (case sessions of
                  [] \<Rightarrow> Inl (SessionNotFound nameOrID)
                | [s] \<Rightarrow> Inr s
                | _ \<Rightarrow> Inl (AmbiguousSession sessions))))"

section \<open>Facts\<close>

lemma SplitN2_index: "(\<And>j. j < length a \<Longrightarrow> \<not> prefix sep (drop j (a @ sep @ b))) \<Longrightarrow> SplitN2 (a @ sep @ b) sep = [a, b]"
  by (simp add: SplitN2_def Index_append_Some)

lemma SplitN2_head: "c \<notin> set a \<Longrightarrow> SplitN2 (a @ (c # sep) @ b) (c # sep) = [a, b]"
proof (rule SplitN2_index)
  fix j
  assume "c \<notin> set a" "j < length a"
  then have "drop j (a @ (c # sep) @ b) = a ! j # drop (Suc j) a @ (c # sep) @ b" "a ! j \<noteq> c"
    by (auto simp: Cons_nth_drop_Suc [symmetric])
  then show "\<not> prefix (c # sep) (drop j (a @ (c # sep) @ b))" by auto
qed

lemma SplitN2_second:
  assumes "d \<notin> set a" "d \<noteq> c"
  shows "SplitN2 (a @ [c, d] @ b) [c, d] = [a, b]"
proof (rule SplitN2_index)
  fix j
  assume j: "j < length a"
  show "\<not> prefix [c, d] (drop j (a @ [c, d] @ b))"
  proof
    assume "prefix [c, d] (drop j (a @ [c, d] @ b))"
    then obtain r where r: "drop j (a @ [c, d] @ b) = c # d # r" by (auto simp: prefix_def)
    have "(a @ [c, d] @ b) ! (j + 1) = drop j (a @ [c, d] @ b) ! 1" using j by (intro nth_drop [symmetric]) simp
    then have "(a @ [c, d] @ b) ! (j + 1) = d" by (simp only: r nth_Cons_Suc nth_Cons_0 One_nat_def)
    then show False using assms j by (cases "Suc j < length a") (auto simp: nth_append nth_Cons' split: if_splits)
  qed
qed

text \<open>The text that \<^verbatim>\<open>buildDaemonChildArgs\<close> makes of a proxy.\<close>

definition dbproxy_spec :: "DBProxyConfig \<Rightarrow> string" where
  "dbproxy_spec db = dp_Type db @ ''://'' @ dp_ListenAddr db @ ''->'' @ dp_TargetAddr db"

lemma parse_dbproxy_spec:
  assumes "CHR '':'' \<notin> set (dp_Type db)" "CHR ''>'' \<notin> set (dp_ListenAddr db)"
  shows "parseDBProxySpec (dbproxy_spec db) = Inr db"
  using SplitN2_head [OF assms(1), of "''//''" "dp_ListenAddr db @ ''->'' @ dp_TargetAddr db"]
    SplitN2_second [OF assms(2), of "CHR ''-''" "dp_TargetAddr db"]
  by (simp add: parseDBProxySpec_def dbproxy_spec_def)

lemma parse_specs_map: "parse_specs (map dbproxy_spec dbs) = Inr dbs"
  if "list_all (\<lambda>db. CHR '':'' \<notin> set (dp_Type db) \<and> CHR ''>'' \<notin> set (dp_ListenAddr db)) dbs"
  using that by (induction dbs) (simp_all add: parse_dbproxy_spec)

lemma IsSupported_no_colon: "IsSupported t \<Longrightarrow> CHR '':'' \<notin> set t"
  by (auto simp: IsSupported_def Supported_def split: if_splits)

text \<open>All hooks are started, or those started before the first failure are stopped.\<close>

definition hook_starts :: "(tcpProxy \<Rightarrow> string option) \<Rightarrow> DBProxyConfig \<Rightarrow> bool" where
  "hook_starts start p \<longleftrightarrow> (case NewHook (hook_config p) of Inl e \<Rightarrow> False | Inr hook \<Rightarrow> start hook = None)"

definition hook_of :: "DBProxyConfig \<Rightarrow> tcpProxy" where
  "hook_of p = projr (NewHook (hook_config p))"

lemma start_hooks_spec:
  "if list_all (hook_starts start) ps then start_hooks start hooks ps = (Inr (hooks @ map hook_of ps), [])
   else \<exists>e. start_hooks start hooks ps = (Inl e, hooks @ map hook_of (takeWhile (hook_starts start) ps))"
proof (induction ps arbitrary: hooks)
  case (Cons p ps)
  show ?case
  proof (cases "hook_starts start p")
    case True
    then obtain h where "NewHook (hook_config p) = Inr h" "start h = None" by (auto simp: hook_starts_def split: sum.splits)
    with Cons.IH [of "hooks @ [h]"] True show ?thesis by (auto simp: hook_of_def)
  next
    case False
    then show ?thesis by (auto simp: hook_starts_def split: sum.splits option.splits)
  qed
qed simp

text \<open>
  The configurations that the commands may be given: bounds of the numbers, a timeout that is a
  duration, a known log level, and proxies for which there is a hook and both addresses.
\<close>

definition proxy_wf :: "DBProxyConfig \<Rightarrow> bool" where
  "proxy_wf p \<longleftrightarrow> (case NewHook (hook_config p) of Inl e \<Rightarrow> False | Inr px \<Rightarrow> dp_ListenAddr p \<noteq> '''' \<and> dp_TargetAddr p \<noteq> '''')"

definition config_wf :: "(nat \<Rightarrow> nat) \<Rightarrow> AppConfig \<Rightarrow> bool" where
  "config_wf low cfg \<longleftrightarrow>
     0 \<le> cc_MaxBodySize (cfg_Capture cfg) \<and> 1 \<le> rc_Concurrency (cfg_Replay cfg) \<and> 0 \<le> rc_DelayMs (cfg_Replay cfg)
     \<and> 0 \<le> rc_RetryCount (cfg_Replay cfg) \<and> ParseDuration (rc_Timeout (cfg_Replay cfg)) \<noteq> None \<and> 1 \<le> dc_MaxDiffs (cfg_Diff cfg)
     \<and> ToLower low (lc_Level (cfg_Log cfg)) \<in> {''debug'', ''info'', ''warn'', ''error''}
     \<and> list_all proxy_wf (cc_DBProxies (cfg_Capture cfg) @ rc_DBProxies (cfg_Replay cfg))"

lemma proxy_wf_iff: "proxy_wf p \<longleftrightarrow> proxy_ok p"
  using IsSupported_NewHook [of "hook_config p"]
  by (auto simp: proxy_wf_def proxy_ok_def hook_config_def split: sum.splits)

lemma Validate_iff: "Validate low (Some cfg) = None \<longleftrightarrow> config_wf low cfg"
proof -
  have "list_all proxy_wf ps = list_all proxy_ok ps" for ps by (simp add: list_all_iff proxy_wf_iff)
  moreover have "validateDBProxies path i ps = Some e \<longrightarrow> \<not> list_all proxy_ok ps" for path i ps e
    using validateDBProxies_None [of path i ps] by auto
  ultimately show ?thesis
    by (auto simp: Validate_def config_wf_def validateDBProxies_None split: option.splits)
qed

text \<open>Reading and updating a session in the files of its store.\<close>

lemma session_json_path:
  "store_inv st fs \<Longrightarrow> plain_name sid \<Longrightarrow> JoinPath (store_baseDir st) [sid, ''session.json''] = store_baseDir st @ [sid, ''session.json'']"
  by (simp add: store_path(2))

lemma Update_at:
  assumes "store_inv st fs" "session_ok json (s\<lparr>sess_UpdatedAt := now\<rparr>)" "map_of fs (store_baseDir st @ [sess_ID s]) = Some Dir"
  obtains d where "Update json st now fs s
      = (put (store_baseDir st @ [sess_ID s, ''session.json'']) (File d) fs, s\<lparr>sess_UpdatedAt := now\<rparr>, None)"
    "unmarshalSession json d = Some (s\<lparr>sess_UpdatedAt := now\<rparr>)" "plain_name (sess_ID s)"
    "store_inv st (put (store_baseDir st @ [sess_ID s, ''session.json'']) (File d) fs)"
proof -
  from assms(2) obtain d where d: "plain_name (sess_ID s)" "marshalSession json (s\<lparr>sess_UpdatedAt := now\<rparr>) = Some d"
      "unmarshalSession json d = Some (s\<lparr>sess_UpdatedAt := now\<rparr>)"
    by (auto simp: session_ok_def split: option.splits)
  note w = WriteFile_session [OF assms(1,3) session_json_file(1), of d]
  have "Update json st now fs s
      = (put (store_baseDir st @ [sess_ID s, ''session.json'']) (File d) fs, s\<lparr>sess_UpdatedAt := now\<rparr>, None)"
    using d w(1) by (simp add: Update_def saveSession_def session_json_path [OF assms(1)])
  then show thesis using that d w(2) by blast
qed

lemma Get_file:
  assumes "store_inv st fs" "plain_name sid" "clean_path (store_baseDir st)"
    "map_of fs' (store_baseDir st @ [sid, ''session.json'']) = Some (File d)" "unmarshalSession json d = Some s"
  shows "Get json st fs' sid = Inr s"
  using assms by (simp add: Get_def loadSession_def session_json_path ReadFile_def)

lemma Get_dir:
  assumes "store_inv st fs" "plain_name sid" "Get json st fs sid = Inr s"
  shows "map_of fs (store_baseDir st @ [sid]) = Some Dir"
proof -
  obtain d where "map_of fs (store_baseDir st @ [sid, ''session.json'']) = Some (File d)"
    using assms by (auto simp: Get_def loadSession_def session_json_path ReadFile_def split: sum.splits option.splits node.splits)
  with tree_ancestor [of fs _ "File d" "store_baseDir st @ [sid]"] assms(1) show ?thesis
    by (simp add: store_inv_iff strict_prefix_def)
qed

lemma JoinPath_twice: "clean_path d \<Longrightarrow> plain_name f \<Longrightarrow> JoinPath d [f] = d @ [f]"
  by (rule JoinPath_plain) (simp_all add: clean_path_def)

lemma NewFileStore_again:
  assumes "NewFileStore fs dataDir = Inr (fs0, st)" "store_inv st fs1"
  shows "NewFileStore fs1 dataDir = Inr (fs1, st)"
proof -
  have st: "st = \<lparr>store_baseDir = JoinPath dataDir [''sessions'']\<rparr>"
    using assms(1) by (auto simp: NewFileStore_def Let_def split: sum.splits)
  have "map_of fs1 q = Some Dir" if "prefix q (store_baseDir st)" for q
    using that assms(2) tree_ancestor [of fs1 "store_baseDir st" Dir q]
    by (cases "q = store_baseDir st") (auto simp: store_inv_iff strict_prefix_def)
  then have "MkdirAll fs1 [] (store_baseDir st) = Inr fs1" by (intro MkdirAll_exists) simp
  then show ?thesis by (simp add: NewFileStore_def st)
qed

section \<open>Properties\<close>

text \<open>
  C37. Validation accepts exactly the well-formed configurations, among them only proxies of a type
  that a hook can be made for, and whatever the file says, a command that gets a runtime context
  gets a well-formed configuration in it.
\<close>

theorem runtime_config_wellformed:
  "(Validate low (Some cfg) = None \<longleftrightarrow> config_wf low cfg)
     \<and> (case initRuntime json low resolve home fs cfgFile of
          (fs', Inr rt) \<Rightarrow> config_wf low (rt_Config rt)
        | (fs', Inl e) \<Rightarrow> True)"
  using initRuntime_valid [of json low resolve home fs cfgFile] Validate_iff
  by (auto split: prod.splits sum.splits)

text \<open>
  Proxy specifications survive the way to a background recording: the flags that the parent
  makes of its database proxies give the child the same proxies, whether or not the child's own
  configuration names others.
\<close>

theorem daemon_child_proxies:
  assumes "list_all (\<lambda>db. IsSupported (dp_Type db) \<and> CHR ''>'' \<notin> set (dp_ListenAddr db)) dbs" and "dbs \<noteq> []"
  shows "resolveRecordDBProxies True (map dbproxy_spec dbs) cfg = Inr dbs"
proof -
  have "list_all (\<lambda>db. CHR '':'' \<notin> set (dp_Type db) \<and> CHR ''>'' \<notin> set (dp_ListenAddr db)) dbs"
    using assms(1) IsSupported_no_colon by (auto simp: list_all_iff)
  then show ?thesis by (simp add: resolveRecordDBProxies_def parse_specs_map)
qed

text \<open>
  Starting database hooks is all or nothing: either every proxy has its hook, started and in
  order, or the call fails and exactly the hooks that had been started are stopped again. With a
  validated configuration only \<^verbatim>\<open>Start\<close> itself can fail.
\<close>

theorem startDBHooks_all_or_nothing:
  "if list_all (hook_starts start) proxies then startDBHooks start proxies = (Inr (map hook_of proxies), [])
   else \<exists>e. startDBHooks start proxies = (Inl e, map hook_of (takeWhile (hook_starts start) proxies))"
  using start_hooks_spec [of start proxies "[]"] by (simp only: startDBHooks_def append_Nil)

section \<open>Instances\<close>

text \<open>A data directory with one session that has been recorded and replayed.\<close>

definition demo_diff_fs :: fs where
  "demo_diff_fs =
     [([], Dir), ([''d''], Dir), ([''d'', ''sessions''], Dir), ([''d'', ''sessions'', ''s1''], Dir),
      ([''d'', ''sessions'', ''s1'', ''session.json''], File ''s1''),
      ([''d'', ''sessions'', ''s1'', ''records.jsonl''], File (''r1'' @ [CHR 0x0A])),
      ([''d'', ''sessions'', ''s1'', ''replay-records.jsonl''], File (''r1'' @ [CHR 0x0A]))]"

definition demo_diff_store :: FileStore where
  "demo_diff_store = \<lparr>store_baseDir = [''d'', ''sessions'']\<rparr>"

definition demo_rt :: appRuntime where
  "demo_rt = \<lparr>rt_ConfigPath = [''c''], rt_Config = DefaultConfig, rt_DataDir = [''d''], rt_LogDir = [''d'', ''logs'']\<rparr>"

lemma demo_diff_inv: "store_inv demo_diff_store demo_diff_fs"
  by (auto simp: store_inv_def tree_ok_def node_ok_def demo_diff_store_def demo_diff_fs_def clean_path_def plain_name_def store_files_def
      strict_prefix_def split: if_splits)

lemma demo_diff_open: "NewFileStore demo_diff_fs [''d''] = Inr (demo_diff_fs, demo_diff_store)"
  by (simp add: NewFileStore_def Let_def JoinPath_def demo_diff_fs_def demo_diff_store_def)

lemma demo_diff_get:
  "unmarshalSession json ''s1'' = Some s \<Longrightarrow> Get json demo_diff_store demo_diff_fs ''s1'' = Inr s"
  by (simp add: Get_def loadSession_def demo_diff_store_def demo_diff_fs_def JoinPath_def ReadFile_def)

lemma demo_diff_lists:
  "unmarshalRecord json ''r1'' = Some r \<Longrightarrow> ListRecords json demo_diff_store demo_diff_fs ''s1'' = ([r], None)"
  "unmarshalRecord json ''r1'' = Some r \<Longrightarrow> ListReplayRecords json demo_diff_store demo_diff_fs ''s1'' = ([r], None)"
  by (simp_all add: ListRecords_def ListReplayRecords_def listRecords_def ReadFile_def demo_diff_store_def demo_diff_fs_def
      JoinPath_def Scan_def scan_limit_def dropCR_def)

lemma demo_diff_decode: "unmarshalSession demo_json ''s1'' = Some demo_session" "unmarshalRecord demo_json ''r1'' = Some demo_record"
  by (simp_all add: demo_json_def demo_session_def demo_record_def)

theorem daemon_child_proxies_witness:
  "resolveRecordDBProxies True
     (map dbproxy_spec [\<lparr>dp_Type = ''mysql'', dp_ListenAddr = '':13306'', dp_TargetAddr = ''my-db:3306''\<rparr>]) DefaultConfig
   = Inr [\<lparr>dp_Type = ''mysql'', dp_ListenAddr = '':13306'', dp_TargetAddr = ''my-db:3306''\<rparr>]"
  by (rule daemon_child_proxies) (simp_all add: IsSupported_def Supported_def)

end
