(* ===== verification/Html_Report.thy ===== *)
theory Html_Report
  imports Diff_Engine
begin

text \<open>
  The HTML report (\<^verbatim>\<open>internal/reporter/html.go\<close>): the page as the pieces of the template, in order,
  with the values that the template inserts. \<^verbatim>\<open>html/template\<close> escapes every value; what it takes for
  the text of a value of any type and of a share is an argument. Line breaks and indentation of the
  template are left out.

  The theorem shows that recorded data cannot change the markup of a page.
\<close>

section \<open>The template\<close>

datatype html_value =
    HtmlString string
  | HtmlInt nat
  | HtmlPct rat
  | HtmlSeverity Severity
  | HtmlAny any

datatype html_piece = Markup string | Value html_value

fun severityClass :: "Severity \<Rightarrow> string" where
  "severityClass SeverityError = ''error''"
| "severityClass SeverityWarning = ''warning''"
| "severityClass s = ''info''"

definition html_style :: "string list" where
  "html_style =
     [''body { font-family: -apple-system, BlinkMacSystemFont, 'Segoe UI', Roboto, sans-serif; margin: 40px; background: #f5f5f5; color: #333; }'',
      ''h1 { color: #1a1a2e; }'',
      ''.summary { background: white; padding: 20px; border-radius: 8px; margin-bottom: 20px; box-shadow: 0 1px 3px rgba(0,0,0,0.1); }'',
      ''.summary .stat { display: inline-block; margin-right: 30px; }'',
      ''.summary .stat .value { font-size: 24px; font-weight: bold; }'',
      ''.summary .stat .label { color: #666; font-size: 14px; }'',
      ''.diff-summary { background: white; padding: 16px 20px; border-radius: 8px; margin-bottom: 20px; box-shadow: 0 1px 3px rgba(0,0,0,0.1); }'',
      ''.diff-summary .stat { display: inline-block; margin-right: 24px; }'',
      ''.diff-summary .value { font-size: 20px; font-weight: bold; }'',
      ''.diff-summary .label { color: #666; font-size: 13px; }'',
      ''.match-rate { color: #22c55e; }'',
      ''.record { background: white; padding: 16px; margin-bottom: 8px; border-radius: 6px; border-left: 4px solid #22c55e; box-shadow: 0 1px 2px rgba(0,0,0,0.05); }'',
      ''.record.has-diff { border-left-color: #ef4444; }'',
      ''.record .method { font-weight: bold; font-family: monospace; }'',
      ''.record .path { font-family: monospace; color: #555; }'',
      ''.record .status { float: right; font-weight: bold; }'',
      ''.record .status.match { color: #22c55e; }'',
      ''.record .status.diff { color: #ef4444; }'',
      ''.diffs { margin-top: 10px; padding-left: 20px; }'',
      ''.diff-item { padding: 4px 0; font-size: 14px; font-family: monospace; }'',
      ''.diff-item .path { color: #3b82f6; }'',
      ''.diff-item.ignored { color: #999; text-decoration: line-through; }'',
      ''.severity { font-size: 12px; padding: 2px 6px; border-radius: 3px; }'',
      ''.severity.error { background: #fee2e2; color: #dc2626; }'',
      ''.severity.warning { background: #fef3c7; color: #d97706; }'',
      ''.severity.info { background: #dbeafe; color: #2563eb; }'']"

definition html_head :: "html_piece list" where
  "html_head =
     [Markup ''<!DOCTYPE html><html lang=\"en\"><head><meta charset=\"UTF-8\"><title>Shadiff Report</title>'',
      Markup ''<style>'', Markup (concat html_style), Markup ''</style></head><body><h1>Shadiff Report</h1>'']"

definition html_summary :: "DiffSummary \<Rightarrow> html_piece list" where
  "html_summary s =
     [Markup ''<div class=\"summary\">'',
      Markup ''<div class=\"stat\"><div class=\"value\">'', Value (HtmlInt (sum_TotalCount s)),
        Markup ''</div><div class=\"label\">Total Records</div></div>'',
      Markup ''<div class=\"stat\"><div class=\"value\" style=\"color:#22c55e\">'', Value (HtmlInt (sum_MatchCount s)),
        Markup ''</div><div class=\"label\">Matched</div></div>'',
      Markup ''<div class=\"stat\"><div class=\"value\" style=\"color:#ef4444\">'', Value (HtmlInt (sum_DiffCount s)),
        Markup ''</div><div class=\"label\">Differences</div></div>'',
      Markup ''<div class=\"stat\"><div class=\"value match-rate\">'', Value (HtmlPct (sum_MatchRate s)),
        Markup ''%</div><div class=\"label\">Match Rate</div></div>'',
      Markup ''</div>'']"

definition html_category :: "nat \<Rightarrow> string \<Rightarrow> html_piece list" where
  "html_category n label =
     [Markup ''<div class=\"stat\"><span class=\"value\">'', Value (HtmlInt n),
      Markup (''</span><div class=\"label\">'' @ label @ ''</div></div>'')]"

text \<open>The action \<^verbatim>\<open>or\<close> is true when one of the counts is not zero.\<close>

definition html_categories :: "DifferenceSummary \<Rightarrow> html_piece list" where
  "html_categories s =
     (if ds_HTTP s \<noteq> 0 \<or> ds_SQL s \<noteq> 0 \<or> ds_MongoDB s \<noteq> 0 \<or> ds_Redis s \<noteq> 0 \<or> ds_UnknownSideEffect s \<noteq> 0 \<or> ds_Ignored s \<noteq> 0 then
        Markup ''<div class=\"diff-summary\">''
        # html_category (ds_HTTP s) ''HTTP'' @ html_category (ds_SQL s) ''SQL'' @ html_category (ds_MongoDB s) ''MongoDB''
        @ html_category (ds_Redis s) ''Redis'' @ html_category (ds_UnknownSideEffect s) ''Unknown Side Effects''
        @ html_category (ds_Ignored s) ''Ignored'' @ [Markup ''</div>'']
      else [])"

text \<open>Between the two values the template has the sign for inequality.\<close>

definition html_difference :: "Difference \<Rightarrow> html_piece list" where
  "html_difference d =
     [Markup (''<div class=\"diff-item '' @ (if df_Ignored d then ''ignored'' else '''') @ ''\">'')]
     @ (if df_Ignored d then
          [Markup ''<span class=\"path\">'', Value (HtmlString (df_Path d)), Markup ''</span>: ignored ('',
           Value (HtmlString (df_Rule d)), Markup '')'']
        else
          [Markup ''<span class=\"path\">'', Value (HtmlString (df_Path d)), Markup ''</span>: '', Value (HtmlAny (df_Expected d)),
           Markup [CHR '' '', CHR 0xE2, CHR 0x89, CHR 0xA0, CHR '' ''], Value (HtmlAny (df_Actual d)),
           Markup ''<span class=\"severity '', Value (HtmlString (severityClass (df_Severity d))), Markup ''\">'',
           Value (HtmlSeverity (df_Severity d)), Markup ''</span>''])
     @ [Markup ''</div>'']"

definition html_result :: "DiffResult \<Rightarrow> html_piece list" where
  "html_result r =
     [Markup (''<div class=\"record '' @ (if \<not> res_Match r then ''has-diff'' else '''') @ ''\">''),
      Markup (''<span class=\"status '' @ (if res_Match r then ''match'' else ''diff'') @ ''\">''),
      Markup ((if res_Match r then ''MATCH'' else ''DIFF'') @ ''</span>''),
      Markup ''<span class=\"method\">'', Value (HtmlString (req_Method (res_Request r))), Markup ''</span>'',
      Markup ''<span class=\"path\">'', Value (HtmlString (req_Path (res_Request r))), Markup ''</span>'']
     @ (if \<not> res_Match r then
          Markup ''<div class=\"diffs\">'' # concat (map html_difference (res_Differences r)) @ [Markup ''</div>'']
        else [])
     @ [Markup ''</div>'']"

definition html_foot :: "html_piece list" where
  "html_foot =
     [Markup ''<p style=\"color:#999;font-size:12px;margin-top:30px;\">Generated by Shadiff</p></body></html>'']"

definition HTMLGenerate :: "DiffResult list \<Rightarrow> DiffSummary \<Rightarrow> html_piece list" where
  "HTMLGenerate results summary =
     html_head @ html_summary summary @ html_categories (SummarizeDifferences results) @ concat (map html_result results) @ html_foot"

section \<open>The page\<close>

text \<open>The escaping of \<^verbatim>\<open>html/template\<close>, in text and in quoted attributes.\<close>

definition html_escape_char :: "char \<Rightarrow> string" where
  "html_escape_char c =
     (if c = CHR 0x00 then [CHR 0xEF, CHR 0xBF, CHR 0xBD]
      else if c = CHR 0x22 then ''&#34;''
      else if c = CHR ''&'' then ''&amp;''
      else if c = CHR 0x27 then ''&#39;''
      else if c = CHR ''+'' then ''&#43;''
      else if c = CHR ''<'' then ''&lt;''
      else if c = CHR ''>'' then ''&gt;''
      else [c])"

definition html_escape :: "string \<Rightarrow> string" where
  "html_escape s = concat (map html_escape_char s)"

fun severity_text :: "Severity \<Rightarrow> string" where
  "severity_text SeverityError = ''error''"
| "severity_text SeverityWarning = ''warning''"
| "severity_text SeverityInfo = ''info''"
| "severity_text (SeverityOther s) = s"

fun html_value_text :: "(any \<Rightarrow> string) \<Rightarrow> (rat \<Rightarrow> string) \<Rightarrow> html_value \<Rightarrow> string" where
  "html_value_text sprint pct (HtmlString s) = s"
| "html_value_text sprint pct (HtmlInt n) = nat_str n"
| "html_value_text sprint pct (HtmlPct r) = pct r"
| "html_value_text sprint pct (HtmlSeverity s) = severity_text s"
| "html_value_text sprint pct (HtmlAny v) = sprint v"

fun html_render :: "(any \<Rightarrow> string) \<Rightarrow> (rat \<Rightarrow> string) \<Rightarrow> html_piece list \<Rightarrow> string" where
  "html_render sprint pct [] = []"
| "html_render sprint pct (Markup s # ps) = s @ html_render sprint pct ps"
| "html_render sprint pct (Value v # ps) = html_escape (html_value_text sprint pct v) @ html_render sprint pct ps"

section \<open>Markup\<close>

text \<open>The text inside of angle brackets; \<open>inside\<close> is whether a tag is open.\<close>

fun markup_of :: "bool \<Rightarrow> string \<Rightarrow> string" where
  "markup_of inside [] = []"
| "markup_of inside (c # s) =
     (if inside then c # markup_of (c \<noteq> CHR ''>'') s
      else if c = CHR ''<'' then c # markup_of True s else markup_of False s)"

fun markup_end :: "bool \<Rightarrow> string \<Rightarrow> bool" where
  "markup_end inside [] = inside"
| "markup_end inside (c # s) = markup_end (if inside then c \<noteq> CHR ''>'' else c = CHR ''<'') s"

lemma markup_of_append: "markup_of i (a @ b) = markup_of i a @ markup_of (markup_end i a) b"
  by (induction i a rule: markup_of.induct) auto

lemma markup_end_append: "markup_end i (a @ b) = markup_end (markup_end i a) b"
  by (induction i a rule: markup_end.induct) auto

lemma escape_outside: "CHR ''<'' \<notin> set s \<Longrightarrow> markup_of False s = [] \<and> \<not> markup_end False s"
  by (induction s) auto

lemma html_escape_safe: "set (html_escape s) \<inter> {CHR ''<'', CHR ''>'', CHR 0x22, CHR 0x27} = {}"
  by (auto simp: html_escape_def html_escape_char_def split: if_splits)

lemma html_escape_outside [simp]: "markup_of False (html_escape s) = []" "\<not> markup_end False (html_escape s)"
  using escape_outside [of "html_escape s"] html_escape_safe [of s] by auto

text \<open>A list of pieces that leaves no tag open, with its markup, however values are printed.\<close>

definition markup_block :: "html_piece list \<Rightarrow> string \<Rightarrow> bool" where
  "markup_block ps m \<longleftrightarrow>
     (\<forall>sprint pct. markup_of False (html_render sprint pct ps) = m \<and> \<not> markup_end False (html_render sprint pct ps))"

lemma html_render_append: "html_render sprint pct (ps @ qs) = html_render sprint pct ps @ html_render sprint pct qs"
  by (induction sprint pct ps rule: html_render.induct) auto

lemma markup_block_append: "markup_block ps m \<Longrightarrow> markup_block qs n \<Longrightarrow> markup_block (ps @ qs) (m @ n)"
  by (simp add: markup_block_def html_render_append markup_of_append markup_end_append)

lemma markup_block_concat:
  "list_all2 (\<lambda>ps m. markup_block ps m) pss ms \<Longrightarrow> markup_block (concat pss) (concat ms)"
  by (induction pss ms rule: list_all2_induct) (simp_all add: markup_block_append, simp add: markup_block_def)

lemma severityClass_safe: "html_escape (severityClass s) = severityClass s"
  by (cases s) (simp_all add: html_escape_def html_escape_char_def)

lemmas markup_eval = markup_of_append markup_end_append html_render.simps html_value_text.simps

definition difference_shape :: "Difference \<Rightarrow> bool \<times> string" where
  "difference_shape d = (df_Ignored d, severityClass (df_Severity d))"

definition result_shape :: "DiffResult \<Rightarrow> bool \<times> (bool \<times> string) list" where
  "result_shape r = (res_Match r, map difference_shape (res_Differences r))"

definition difference_markup :: "bool \<times> string \<Rightarrow> string" where
  "difference_markup sh =
     (case sh of (True, c) \<Rightarrow> ''<div class=\"diff-item ignored\"><span class=\"path\"></span></div>''
      | (False, c) \<Rightarrow> ''<div class=\"diff-item \"><span class=\"path\"></span><span class=\"severity '' @ c @ ''\"></span></div>'')"

lemma markup_class: "markup_of True (severityClass s) = severityClass s \<and> markup_end True (severityClass s)"
  by (cases s) simp_all

lemma difference_block: "markup_block (html_difference d) (difference_markup (difference_shape d))"
  by (cases "df_Ignored d")
    (simp_all add: markup_block_def html_difference_def difference_markup_def difference_shape_def severityClass_safe markup_class markup_eval)

definition result_markup :: "bool \<times> (bool \<times> string) list \<Rightarrow> string" where
  "result_markup sh =
     (case sh of
        (True, ds) \<Rightarrow> ''<div class=\"record \"><span class=\"status match\"></span><span class=\"method\"></span><span class=\"path\"></span></div>''
      | (False, ds) \<Rightarrow> ''<div class=\"record has-diff\"><span class=\"status diff\"></span><span class=\"method\"></span><span class=\"path\"></span>''
          @ ''<div class=\"diffs\">'' @ concat (map difference_markup ds) @ ''</div></div>'')"

lemma differences_block: "markup_block (concat (map html_difference ds)) (concat (map difference_markup (map difference_shape ds)))"
  by (rule markup_block_concat) (simp add: list_all2_conv_all_nth difference_block)

lemma result_block: "markup_block (html_result r) (result_markup (result_shape r))"
  using differences_block [of "res_Differences r"]
  by (cases "res_Match r")
    (simp_all add: markup_block_def html_result_def result_markup_def result_shape_def html_render_append markup_eval)

lemma results_block: "markup_block (concat (map html_result rs)) (concat (map result_markup (map result_shape rs)))"
  by (rule markup_block_concat) (simp add: list_all2_conv_all_nth result_block)

lemma head_block: "markup_block html_head (markup_of False (html_render (\<lambda>v. []) (\<lambda>r. []) html_head))"
proof -
  have "html_render sprint pct html_head = html_render (\<lambda>v. []) (\<lambda>r. []) html_head" for sprint pct
    by (simp add: html_head_def)
  moreover have "\<not> markup_end False (html_render (\<lambda>v. []) (\<lambda>r. []) html_head)"
    by (simp add: html_head_def html_style_def markup_end_append)
  ultimately show ?thesis unfolding markup_block_def by metis
qed

definition summary_markup :: string where
  "summary_markup =
     ''<div class=\"summary\"><div class=\"stat\"><div class=\"value\"></div><div class=\"label\"></div></div>''
     @ ''<div class=\"stat\"><div class=\"value\" style=\"color:#22c55e\"></div><div class=\"label\"></div></div>''
     @ ''<div class=\"stat\"><div class=\"value\" style=\"color:#ef4444\"></div><div class=\"label\"></div></div>''
     @ ''<div class=\"stat\"><div class=\"value match-rate\"></div><div class=\"label\"></div></div></div>''"

lemma summary_block: "markup_block (html_summary s) summary_markup"
  by (simp add: markup_block_def html_summary_def summary_markup_def markup_eval)

definition category_markup :: string where
  "category_markup = ''<div class=\"stat\"><span class=\"value\"></span><div class=\"label\"></div></div>''"

lemma category_block: "CHR ''<'' \<notin> set label \<Longrightarrow> markup_block (html_category n label) category_markup"
  using escape_outside [of label] by (simp add: markup_block_def html_category_def category_markup_def markup_eval)

lemma has_category: "html_categories (SummarizeDifferences results) \<noteq> [] \<longleftrightarrow> \<not> list_all (\<lambda>r. res_Differences r = []) results"
proof -
  have "html_categories s \<noteq> [] \<longleftrightarrow> Total s + ds_Ignored s \<noteq> 0" for s by (simp add: html_categories_def Total_def)
  moreover have "Total (SummarizeDifferences results) + ds_Ignored (SummarizeDifferences results) = length (concat (map res_Differences results))"
    using SummarizeDifferences_correct [of results] unfolding Let_def by blast
  ultimately show ?thesis by (simp only: length_0_conv concat_eq_Nil_conv) (auto simp: list_all_iff)
qed

lemma categories_block:
  assumes "html_categories s \<noteq> []"
  shows "markup_block (html_categories s) (''<div class=\"diff-summary\">'' @ concat (replicate 6 category_markup) @ ''</div>'')"
proof -
  let ?cs = "[html_category (ds_HTTP s) ''HTTP'', html_category (ds_SQL s) ''SQL'', html_category (ds_MongoDB s) ''MongoDB'',
     html_category (ds_Redis s) ''Redis'', html_category (ds_UnknownSideEffect s) ''Unknown Side Effects'', html_category (ds_Ignored s) ''Ignored'']"
  have "html_categories s = [Markup ''<div class=\"diff-summary\">''] @ concat ?cs @ [Markup ''</div>'']"
    using assms by (simp add: html_categories_def split: if_splits)
  moreover have "markup_block [Markup ''<div class=\"diff-summary\">''] ''<div class=\"diff-summary\">''" "markup_block [Markup ''</div>''] ''</div>''"
    by (simp_all add: markup_block_def)
  moreover have "markup_block (concat ?cs) (concat (replicate 6 category_markup))"
    by (rule markup_block_concat) (simp add: category_block numeral_eq_Suc)
  ultimately show ?thesis by (metis markup_block_append)
qed

lemma foot_block: "markup_block html_foot ''<p style=\"color:#999;font-size:12px;margin-top:30px;\"></p></body></html>''"
  by (simp add: markup_block_def html_foot_def)

definition page_markup :: "(bool \<times> (bool \<times> string) list) list \<Rightarrow> string" where
  "page_markup shapes =
     markup_of False (html_render (\<lambda>v. []) (\<lambda>r. []) html_head) @ summary_markup
     @ (if list_all (\<lambda>sh. snd sh = []) shapes then []
        else ''<div class=\"diff-summary\">'' @ concat (replicate 6 category_markup) @ ''</div>'')
     @ concat (map result_markup shapes) @ ''<p style=\"color:#999;font-size:12px;margin-top:30px;\"></p></body></html>''"

lemma page_block: "markup_block (HTMLGenerate results summary) (page_markup (map result_shape results))"
proof -
  have "markup_block [] []" by (simp add: markup_block_def)
  then have "markup_block (html_categories (SummarizeDifferences results))
      (if list_all (\<lambda>sh. snd sh = []) (map result_shape results) then []
       else ''<div class=\"diff-summary\">'' @ concat (replicate 6 category_markup) @ ''</div>'')"
    using has_category [of results] categories_block [of "SummarizeDifferences results"]
    by (cases "html_categories (SummarizeDifferences results) = []") (simp_all add: list.pred_map result_shape_def o_def)
  then show ?thesis
    unfolding HTMLGenerate_def page_markup_def
    by (intro markup_block_append head_block summary_block results_block foot_block)
qed

section \<open>Properties\<close>

text \<open>
  C39. Recorded data cannot change the markup of a report: the tags of a page, with their attributes,
  depend only on which results match and on which of their differences are ignored, with the class
  of their severity. Paths, rules, values, methods and the counts never open or close a tag,
  whatever text they have.
\<close>

theorem html_markup_fixed:
  assumes "map result_shape results = map result_shape results'"
  shows "markup_of False (html_render sprint pct (HTMLGenerate results summary))
       = markup_of False (html_render sprint' pct' (HTMLGenerate results' summary'))
     \<and> \<not> markup_end False (html_render sprint pct (HTMLGenerate results summary))"
  using page_block [of results summary] page_block [of results' summary'] assms by (simp add: markup_block_def)

text \<open>
  The page leaves out the messages of differences. A replay that failed has its error only there, so
  the page does not tell why.
\<close>

lemma summarize_message: "summarize_difference s (d\<lparr>df_Message := m\<rparr>) = summarize_difference s d"
  by (simp add: summarize_difference_def split: DifferenceKind.split)

lemma html_hides_message:
  "HTMLGenerate (map (\<lambda>r. r\<lparr>res_Differences := map (\<lambda>d. d\<lparr>df_Message := m\<rparr>) (res_Differences r)\<rparr>) results) summary
     = HTMLGenerate results summary"
proof -
  have "SummarizeDifferences (map (\<lambda>r. r\<lparr>res_Differences := map (\<lambda>d. d\<lparr>df_Message := m\<rparr>) (res_Differences r)\<rparr>) results)
      = SummarizeDifferences results"
    by (simp add: SummarizeDifferences_def foldl_map summarize_message)
  moreover have "html_difference (d\<lparr>df_Message := m\<rparr>) = html_difference d" for d
    by (simp add: html_difference_def)
  then have "html_result (r\<lparr>res_Differences := map (\<lambda>d. d\<lparr>df_Message := m\<rparr>) (res_Differences r)\<rparr>) = html_result r" for r
    by (simp add: html_result_def o_def)
  ultimately show ?thesis by (simp add: HTMLGenerate_def o_def)
qed

section \<open>Instances\<close>

theorem html_markup_fixed_witness:
  "\<exists>r r'. res_Differences r \<noteq> res_Differences r' \<and> req_Path (res_Request r) = ''<script>''
     \<and> markup_of False (html_render (\<lambda>v. ''\"><b>'') (\<lambda>q. ''50'') (HTMLGenerate [r] (FormatDiffSummary [r])))
       = markup_of False (html_render (\<lambda>v. []) (\<lambda>q. ''0'') (HTMLGenerate [r'] (FormatDiffSummary [r'])))"
proof -
  define d where "d = difference DiffBody ''a<i>'' AnyNil AnyNil (Sprintf ''m'' []) SeverityInfo"
  define r :: DiffResult where
    "r = \<lparr>res_RecordID = ''r1'', res_Sequence = 1,
       res_Request = \<lparr>req_Method = ''GET'', req_Path = ''<script>'', req_Query = '''', req_Headers = [], req_Body = [], req_BodyRef = '''', req_BodyLen = 0\<rparr>,
       res_Match = False, res_Differences = [d]\<rparr>"
  let ?r = "r\<lparr>res_Differences := [d\<lparr>df_Path := ''b''\<rparr>]\<rparr>"
  have "map result_shape [r] = map result_shape [?r]" by (simp add: result_shape_def difference_shape_def r_def)
  from html_markup_fixed [OF this] show ?thesis
    by (intro exI [of _ r] exI [of _ ?r]) (simp add: r_def d_def)
qed

end
