(* ===== verification/Diff_Cmd.thy ===== *)
theory Diff_Cmd
  imports Runtime Html_Report
begin

text \<open>
  Comparing and reporting: the commands \<^verbatim>\<open>diff\<close> (\<^verbatim>\<open>cmd/diff.go\<close>) and \<^verbatim>\<open>report\<close> (\<^verbatim>\<open>cmd/report.go\<close>)
  and the reports for the terminal and in JSON (\<^verbatim>\<open>internal/reporter\<close>). A report is the list of its
  lines, each with the values that are printed into it; turning it into bytes (the verbs of
  \<^verbatim>\<open>fmt\<close>, the encoder of JSON, the execution of the HTML template) is the argument \<open>render\<close>.
\<close>

section \<open>Reports\<close>

text \<open>The lines that \<^verbatim>\<open>printDiffResults\<close> and the terminal report print, one constructor for each call.\<close>

datatype report_line =
    BlankLine
  | TitleLine string
  | MatchLine string string
  | DiffLine string string
  | IgnoredLine bool string string
  | ValueLine bool string any any
  | MessageLine bool message
  | SeverityLine Severity
  | RuleLine
  | TotalLine nat nat nat
  | CategoryLine DifferenceSummary
  | IgnoredTotal nat
  | CriticalTotal nat
  | RateLine rat

text \<open>
  \<^verbatim>\<open>printDiffResults\<close> of the diff command: a severity that is neither a warning nor an information
  is shown as an error. The flag of a line of a difference is whether it is drawn as the last one.
\<close>

definition shown_severity :: "Severity \<Rightarrow> Severity" where
  "shown_severity sev =
     (case sev of
        SeverityWarning \<Rightarrow> SeverityWarning
      | SeverityInfo \<Rightarrow> SeverityInfo
      | _ \<Rightarrow> SeverityError)"

definition print_difference :: "Difference \<Rightarrow> report_line list" where
  "print_difference d =
     (if df_Ignored d then [IgnoredLine False (df_Path d) (df_Rule d)]
      else [if df_Path d \<noteq> '''' then ValueLine True (df_Path d) (df_Expected d) (df_Actual d) else MessageLine True (df_Message d),
            SeverityLine (shown_severity (df_Severity d))])"

definition printDiffResults :: "DiffResult list \<Rightarrow> DiffSummary \<Rightarrow> report_line list" where
  "printDiffResults results summary =
     [BlankLine, TitleLine ''Diff Report'']
     @ concat (map (\<lambda>r.
         if res_Match r then [MatchLine (req_Method (res_Request r)) (req_Path (res_Request r))]
         else DiffLine (req_Method (res_Request r)) (req_Path (res_Request r)) # concat (map print_difference (res_Differences r))) results)
     @ [RuleLine, TotalLine (sum_TotalCount summary) (sum_MatchCount summary) (sum_DiffCount summary),
        RateLine (sum_MatchRate summary)]"

text \<open>The terminal report: the last difference of a result is drawn as such, and \<^verbatim>\<open>/\<close> stands for an empty path.\<close>

fun terminal_differences :: "Difference list \<Rightarrow> report_line list" where
  "terminal_differences [] = []"
| "terminal_differences (d # ds) =
     (let last_one = (ds = [])
      in (if df_Ignored d then [IgnoredLine last_one (df_Path d) (df_Rule d)]
          else [if df_Path d \<noteq> '''' then ValueLine last_one (df_Path d) (df_Expected d) (df_Actual d) else MessageLine last_one (df_Message d),
                SeverityLine (df_Severity d)])
         @ terminal_differences ds)"

definition terminal_result :: "DiffResult \<Rightarrow> report_line list" where
  "terminal_result res =
     (let method = req_Method (res_Request res);
          path = (if req_Path (res_Request res) = '''' then ''/'' else req_Path (res_Request res))
      in if res_Match res then [MatchLine method path]
         else DiffLine method path # terminal_differences (res_Differences res))"

definition TerminalGenerate :: "DiffResult list \<Rightarrow> DiffSummary \<Rightarrow> report_line list" where
  "TerminalGenerate results summary =
     (let diffSummary = SummarizeDifferences results
      in [BlankLine, TitleLine ''Shadiff Report'', BlankLine] @ concat (map terminal_result results)
         @ [BlankLine, RuleLine, TotalLine (sum_TotalCount summary) (sum_MatchCount summary) (sum_DiffCount summary)]
         @ (if Total diffSummary > 0 \<or> ds_Ignored diffSummary > 0 then [CategoryLine diffSummary] else [])
         @ (if sum_IgnoreCount summary > 0 then [IgnoredTotal (sum_IgnoreCount summary)] else [])
         @ (if sum_ErrorCount summary > 0 then [CriticalTotal (sum_ErrorCount summary)] else [])
         @ [RateLine (sum_MatchRate summary), BlankLine])"

record jsonReport =
  jr_Summary :: DiffSummary
  jr_DifferenceSummary :: DifferenceSummary
  jr_Results :: "DiffResult list"

definition JSONGenerate :: "DiffResult list \<Rightarrow> DiffSummary \<Rightarrow> jsonReport" where
  "JSONGenerate results summary =
     \<lparr>jr_Summary = summary, jr_DifferenceSummary = SummarizeDifferences results, jr_Results = results\<rparr>"

datatype report = TextReport "report_line list" | JsonReport jsonReport | HtmlReport "html_piece list"

definition Generate :: "Reporter \<Rightarrow> DiffResult list \<Rightarrow> DiffSummary \<Rightarrow> report" where
  "Generate rep results summary =
     (case rep of
        TerminalReporter \<Rightarrow> TextReport (TerminalGenerate results summary)
      | JSONReporter \<Rightarrow> JsonReport (JSONGenerate results summary)
      | HTMLReporter \<Rightarrow> HtmlReport (HTMLGenerate results summary))"

section \<open>The diff command\<close>

record DiffFlags =
  dg_Session :: string
  dg_RulesFile :: string
  dg_RulesChanged :: bool
  dg_IgnoreOrder :: bool
  dg_IgnoreOrderChanged :: bool
  dg_IgnoreHeaders :: "string list"
  dg_IgnoreHeadersChanged :: bool
  dg_Output :: string
  dg_OutputFile :: string
  dg_FailOn :: string

datatype diff_error =
    UnsupportedOutput string
  | UnsupportedFailOn string
  | DiffLogger
  | DiffStorage storage_error
  | DiffSession resolve_error
  | DiffRulesFile load_error
  | DiffPanic
  | DiffFailed engine_error
  | DiffOutputFile fs_error
  | DiffWrite
  | RecordsDiffer nat
  | ErrorDifferences nat

definition currentDiffOutput :: "DiffFlags \<Rightarrow> string" where
  "currentDiffOutput flags = (if dg_Output flags = '''' then ''terminal'' else dg_Output flags)"

definition currentDiffFailOn :: "DiffFlags \<Rightarrow> string" where
  "currentDiffFailOn flags = (if dg_FailOn flags = '''' then ''none'' else dg_FailOn flags)"

definition validateDiffOutput :: "(nat \<Rightarrow> nat) \<Rightarrow> string \<Rightarrow> diff_error option" where
  "validateDiffOutput low outputFormat =
     (if ToLower low outputFormat \<in> {'''', ''terminal'', ''json''} then None else Some (UnsupportedOutput outputFormat))"

definition validateDiffFailOn :: "(nat \<Rightarrow> nat) \<Rightarrow> string \<Rightarrow> diff_error option" where
  "validateDiffFailOn low failPolicy =
     (if ToLower low failPolicy \<in> {'''', ''none'', ''diff'', ''error''} then None else Some (UnsupportedFailOn failPolicy))"

definition enforceDiffFailOn :: "(nat \<Rightarrow> nat) \<Rightarrow> string \<Rightarrow> DiffSummary \<Rightarrow> diff_error option" where
  "enforceDiffFailOn low failPolicy summary =
     (let policy = ToLower low failPolicy
      in if policy \<in> {'''', ''none''} then None
         else if policy = ''diff'' then (if sum_DiffCount summary > 0 then Some (RecordsDiffer (sum_DiffCount summary)) else None)
         else if policy = ''error'' then (if sum_ErrorCount summary > 0 then Some (ErrorDifferences (sum_ErrorCount summary)) else None)
         else None)"

definition writeDiffResults :: "(nat \<Rightarrow> nat) \<Rightarrow> string \<Rightarrow> DiffResult list \<Rightarrow> DiffSummary \<Rightarrow> diff_error + report" where
  "writeDiffResults low outputFormat results summary =
     (let format = ToLower low outputFormat
      in if format \<in> {'''', ''terminal''} then Inr (TextReport (printDiffResults results summary))
         else if format = ''json'' then Inr (Generate JSONReporter results summary)
         else Inl (UnsupportedOutput outputFormat))"

text \<open>
  Where a report goes: to the standard output, or into a file that \<^verbatim>\<open>os.Create\<close> makes or empties.
  The path \<open>resolve\<close> makes of a text is an argument.
\<close>

definition create_output :: "(string \<Rightarrow> path) \<Rightarrow> fs \<Rightarrow> string \<Rightarrow> fs_error + fs" where
  "create_output resolve fs outputFile = (if outputFile = '''' then Inr fs else WriteFile fs (resolve outputFile) [])"

definition write_output :: "(string \<Rightarrow> path) \<Rightarrow> fs \<Rightarrow> string \<Rightarrow> bytes \<Rightarrow> fs" where
  "write_output resolve fs outputFile text = (if outputFile = '''' then fs else put (resolve outputFile) (File text) fs)"

text \<open>
  The parameters of the commands: JSON of the store, decoding of bodies, case tables, reading rules
  files, rendering of reports, paths, and whether the logger can be set up.
\<close>

record cmd_world =
  cw_json :: json_codec
  cw_unmarshal :: "bytes \<Rightarrow> any option"
  cw_up :: "nat \<Rightarrow> nat"
  cw_low :: "nat \<Rightarrow> nat"
  cw_loadRules :: "string \<Rightarrow> load_error + Rule list"
  cw_render :: "report \<Rightarrow> bytes option"
  cw_resolve :: "string \<Rightarrow> path"
  cw_logger :: bool

definition diff_engine_config :: "AppConfig \<Rightarrow> DiffFlags \<Rightarrow> string \<Rightarrow> Rule list \<Rightarrow> EngineConfig" where
  "diff_engine_config cfg flags sessionID rules =
     \<lparr>cfg_SessionID = sessionID, cfg_Rules = rules,
      cfg_IgnoreOrder = effectiveBool (dg_IgnoreOrderChanged flags) (dg_IgnoreOrder flags) (dc_IgnoreOrder (cfg_Diff cfg)),
      cfg_IgnoreHeaders = effectiveStrings (dg_IgnoreHeadersChanged flags) (dg_IgnoreHeaders flags) (dc_IgnoreHeaders (cfg_Diff cfg)),
      cfg_MaxDiffs = dc_MaxDiffs (cfg_Diff cfg)\<rparr>"

definition diff_rules :: "cmd_world \<Rightarrow> AppConfig \<Rightarrow> DiffFlags \<Rightarrow> load_error + Rule list" where
  "diff_rules w cfg flags =
     (let rules = RulesFromConfig (dc_Rules (cfg_Diff cfg));
          rulesFile = effectiveString (dg_RulesChanged flags) (dg_RulesFile flags) (dc_RulesFile (cfg_Diff cfg))
      in if rulesFile \<noteq> '''' then
           (case cw_loadRules w rulesFile of Inl e \<Rightarrow> Inl e | Inr fileRules \<Rightarrow> Inr (rules @ fileRules))
         else Inr rules)"

definition runDiff :: "cmd_world \<Rightarrow> appRuntime \<Rightarrow> DiffFlags \<Rightarrow> fs \<Rightarrow> fs \<times> report option \<times> diff_error option" where
  "runDiff w rt flags fs =
     (let cfg = rt_Config rt; low = cw_low w; json = cw_json w
      in case validateDiffOutput low (currentDiffOutput flags) of
           Some e \<Rightarrow> (fs, None, Some e)
         | None \<Rightarrow>
      (case validateDiffFailOn low (currentDiffFailOn flags) of
         Some e \<Rightarrow> (fs, None, Some e)
       | None \<Rightarrow>
           if \<not> cw_logger w then (fs, None, Some DiffLogger) else
      (case NewFileStore fs (rt_DataDir rt) of
         Inl e \<Rightarrow> (fs, None, Some (DiffStorage e))
       | Inr (fs, store) \<Rightarrow>
      (case resolveSession json store fs (dg_Session flags) of
         Inl e \<Rightarrow> (fs, None, Some (DiffSession e))
       | Inr sessionID \<Rightarrow>
      (case diff_rules w cfg flags of
         Inl e \<Rightarrow> (fs, None, Some (DiffRulesFile e))
       | Inr rules \<Rightarrow>
      (case NewEngine (diff_engine_config cfg flags sessionID rules) of
         None \<Rightarrow> (fs, None, Some DiffPanic)
       | Some engine \<Rightarrow>
      (case Run (cw_up w) (cw_unmarshal w) json store engine fs of
         (fs, Inl e) \<Rightarrow> (fs, None, Some (DiffFailed e))
       | (fs, Inr results) \<Rightarrow>
      (let summary = (FormatDiffSummary results)\<lparr>sum_SessionID := sessionID\<rparr>
       in case create_output (cw_resolve w) fs (dg_OutputFile flags) of
            Inl e \<Rightarrow> (fs, None, Some (DiffOutputFile e))
          | Inr fs \<Rightarrow>
      (case writeDiffResults low (currentDiffOutput flags) results summary of
         Inl e \<Rightarrow> (fs, None, Some e)
       | Inr rep \<Rightarrow>
      (case cw_render w rep of
         None \<Rightarrow> (fs, None, Some DiffWrite)
       | Some text \<Rightarrow>
           (write_output (cw_resolve w) fs (dg_OutputFile flags) text, Some rep,
            enforceDiffFailOn low (currentDiffFailOn flags) summary)))))))))))"

section \<open>The report command\<close>

record ReportFlags =
  rg_Session :: string
  rg_Format :: string
  rg_Output :: string

datatype rep_error =
    ReportLogger
  | ReportStorage storage_error
  | ReportSession resolve_error
  | ReportLoad storage_error
  | NoDiffResults string
  | UnsupportedFormat string
  | ReportOutputFile fs_error
  | ReportWrite

text \<open>
  A nil slice of results and an empty one are not distinguished here: the engine never stores an
  empty one.
\<close>

definition runReport :: "cmd_world \<Rightarrow> appRuntime \<Rightarrow> ReportFlags \<Rightarrow> fs \<Rightarrow> fs \<times> report option \<times> rep_error option" where
  "runReport w rt flags fs =
     (if \<not> cw_logger w then (fs, None, Some ReportLogger) else
      case NewFileStore fs (rt_DataDir rt) of
        Inl e \<Rightarrow> (fs, None, Some (ReportStorage e))
      | Inr (fs, store) \<Rightarrow>
      (case resolveSession (cw_json w) store fs (rg_Session flags) of
         Inl e \<Rightarrow> (fs, None, Some (ReportSession e))
       | Inr sessionID \<Rightarrow>
      (case LoadResults (cw_json w) store fs sessionID of
         Inl e \<Rightarrow> (fs, None, Some (ReportLoad e))
       | Inr results \<Rightarrow>
           if results = [] then (fs, None, Some (NoDiffResults sessionID)) else
      (let summary = (FormatDiffSummary results)\<lparr>sum_SessionID := sessionID\<rparr>
       in case NewReporter (rg_Format flags) of
            Inl e \<Rightarrow> (fs, None, Some (UnsupportedFormat e))
          | Inr reporter \<Rightarrow>
      (case create_output (cw_resolve w) fs (rg_Output flags) of
         Inl e \<Rightarrow> (fs, None, Some (ReportOutputFile e))
       | Inr fs \<Rightarrow>
      (let rep = Generate reporter results summary
       in case cw_render w rep of
            None \<Rightarrow> (fs, None, Some ReportWrite)
          | Some text \<Rightarrow> (write_output (cw_resolve w) fs (rg_Output flags) text, Some rep, None)))))))"

section \<open>Facts\<close>

lemma enforce_diff: "ToLower low policy = ''diff'' \<Longrightarrow> enforceDiffFailOn low policy s = None \<longleftrightarrow> sum_DiffCount s = 0"
  by (simp add: enforceDiffFailOn_def)

lemma DiffCount_zero: "sum_DiffCount (FormatDiffSummary results) = 0 \<longleftrightarrow> list_all res_Match results"
  by (simp add: FormatDiffSummary_def Let_def summary_results_counts filter_empty_conv list_all_iff)

lemma runDiff_done:
  assumes "runDiff w rt flags fs = (fs', Some rep, err)"
  obtains fs0 st sid rules engine fs1 results where "NewFileStore fs (rt_DataDir rt) = Inr (fs0, st)"
    "resolveSession (cw_json w) st fs0 (dg_Session flags) = Inr sid" "diff_rules w (rt_Config rt) flags = Inr rules"
    "NewEngine (diff_engine_config (rt_Config rt) flags sid rules) = Some engine"
    "Run (cw_up w) (cw_unmarshal w) (cw_json w) st engine fs0 = (fs1, Inr results)"
    "writeDiffResults (cw_low w) (currentDiffOutput flags) results ((FormatDiffSummary results)\<lparr>sum_SessionID := sid\<rparr>) = Inr rep"
    "err = enforceDiffFailOn (cw_low w) (currentDiffFailOn flags) ((FormatDiffSummary results)\<lparr>sum_SessionID := sid\<rparr>)"
    "\<exists>text. cw_render w rep = Some text" "dg_OutputFile flags = '''' \<longrightarrow> fs' = fs1"
  using assms
  by (fastforce simp: runDiff_def Let_def create_output_def write_output_def split: option.splits sum.splits prod.splits if_splits)

section \<open>Properties\<close>


lemma errors_limit:
  "0 < eng_maxDiffs e \<Longrightarrow> filter (\<lambda>d. \<not> df_Ignored d \<and> df_Severity d = SeverityError) (limitDiffs e ds m)
     = filter (\<lambda>d. \<not> df_Ignored d \<and> df_Severity d = SeverityError) (take (nat (eng_maxDiffs e)) ds)"
  by (simp add: limitDiffs_def)

text \<open>
  What the policy \<^verbatim>\<open>error\<close> decides on: of each comparison only the first differences count, as
  many as the limit allows. An error-level difference behind the limit does not fail the command.
\<close>

theorem fail_on_error_counts_kept:
  assumes "NewEngine cfg = Some e" and "list_all (\<lambda>(original, replay). rec_Error replay = '''') pairs"
    and s: "s = FormatDiffSummary (map (\<lambda>(original, replay). compareRecords up unmarshal e original replay) pairs)"
    and n: "n = sum_list (map (\<lambda>(original, replay). length (filter (\<lambda>d. \<not> df_Ignored d \<and> df_Severity d = SeverityError)
       (take (nat (eng_maxDiffs e)) (Apply (eng_ruleSet e) (raw_differences up unmarshal e original replay))))) pairs)"
  shows "sum_ErrorCount s = n \<and> enforceDiffFailOn low ''error'' s = (if n > 0 then Some (ErrorDifferences n) else None)"
proof -
  have pos: "0 < eng_maxDiffs e" using NewEngine_fields [OF assms(1)] by auto
  have "length (filter (\<lambda>d. \<not> df_Ignored d \<and> df_Severity d = SeverityError)
      (concat (map res_Differences (map (\<lambda>(original, replay). compareRecords up unmarshal e original replay) ps))))
    = sum_list (map (\<lambda>(original, replay). length (filter (\<lambda>d. \<not> df_Ignored d \<and> df_Severity d = SeverityError)
       (take (nat (eng_maxDiffs e)) (Apply (eng_ruleSet e) (raw_differences up unmarshal e original replay))))) ps)"
    if "list_all (\<lambda>(original, replay). rec_Error replay = '''') ps" for ps
    using that by (induction ps) (auto simp: compareRecords_def Let_def errors_limit [OF pos])
  from this [OF assms(2)] have "sum_ErrorCount s = n"
    unfolding s n by (simp add: FormatDiffSummary_def Let_def summary_results_counts)
  moreover have "ToLower low ''error'' = ''error''" by (simp add: ToLower_def is_ascii_def lower_char_def)
  ultimately show ?thesis by (simp add: enforceDiffFailOn_def)
qed


section \<open>Instances\<close>

definition demo_dflags :: DiffFlags where
  "demo_dflags =
     \<lparr>dg_Session = ''s1'', dg_RulesFile = '''', dg_RulesChanged = False, dg_IgnoreOrder = False, dg_IgnoreOrderChanged = False,
      dg_IgnoreHeaders = [], dg_IgnoreHeadersChanged = False, dg_Output = ''json'', dg_OutputFile = '''', dg_FailOn = ''diff''\<rparr>"

definition demo_cw :: "DiffResult list \<Rightarrow> cmd_world" where
  "demo_cw rs =
     \<lparr>cw_json = demo_json\<lparr>unmarshalResults := \<lambda>d. Some rs\<rparr>, cw_unmarshal = (\<lambda>b. None), cw_up = id, cw_low = id,
      cw_loadRules = (\<lambda>p. Inr []), cw_render = (\<lambda>r. Some []), cw_resolve = (\<lambda>s. []), cw_logger = True\<rparr>"

lemma demo_cw_simps:
  "cw_unmarshal (demo_cw rs) = (\<lambda>b. None)" "cw_up (demo_cw rs) = id" "cw_low (demo_cw rs) = id" "cw_logger (demo_cw rs)"
  "cw_render (demo_cw rs) = (\<lambda>r. Some [])" "cw_json (demo_cw rs) = demo_json\<lparr>unmarshalResults := \<lambda>d. Some rs\<rparr>"
  by (simp_all add: demo_cw_def)

lemma demo_get: "Get (cw_json (demo_cw rs)) demo_diff_store demo_diff_fs ''s1'' = Inr demo_session"
  by (rule demo_diff_get) (simp add: demo_cw_simps demo_diff_decode)

lemma demo_lists:
  "ListRecords (cw_json (demo_cw rs)) demo_diff_store demo_diff_fs ''s1'' = ([demo_record], None)"
  "ListReplayRecords (cw_json (demo_cw rs)) demo_diff_store demo_diff_fs ''s1'' = ([demo_record], None)"
  by (rule demo_diff_lists, simp add: demo_cw_simps demo_diff_decode)+

lemma demo_lower: "ToLower id ''json'' = ''json''" "ToLower id ''diff'' = ''diff''"
  by (simp_all add: ToLower_def is_ascii_def lower_char_def)

lemma demo_diff_run:
  obtains rs e fs' rep where "NewEngine (diff_engine_config DefaultConfig demo_dflags ''s1'' []) = Some e"
    "Run id (\<lambda>b. None) (cw_json (demo_cw rs)) demo_diff_store e demo_diff_fs = (fs', Inr rs)"
    "runDiff (demo_cw rs) demo_rt demo_dflags demo_diff_fs = (fs', Some rep, None)"
proof -
  obtain e where e: "NewEngine (diff_engine_config DefaultConfig demo_dflags ''s1'' []) = Some e"
    using NewEngine_Some [of "diff_engine_config DefaultConfig demo_dflags ''s1'' []"] by blast
  have sid: "eng_sessionID e = ''s1''" using NewEngine_fields [OF e] by (simp add: diff_engine_config_def)
  define rs where "rs = [compareRecords id (\<lambda>b. None) e demo_record demo_record]"
  have "raw_differences id (\<lambda>b. None) e demo_record demo_record = []"
    by (simp add: raw_differences_def demo_record_def compareHeaders_def) code_simp
  then have "res_Match (hd rs)"
    using Apply_ignored [OF NewEngine_fields(1) [OF e], of "[]"] by (simp add: rs_def compareRecords_def demo_record_def all_ignored_iff)
  then have match: "sum_DiffCount (FormatDiffSummary rs) = 0" by (simp add: DiffCount_zero) (simp add: rs_def)
  let ?fs' = "fst (SaveResults (cw_json (demo_cw rs)) demo_diff_store demo_diff_fs ''s1'' rs)"
  have run: "Run id (\<lambda>b. None) (cw_json (demo_cw rs)) demo_diff_store e demo_diff_fs = (?fs', Inr rs)"
    by (simp add: Run_def sid demo_lists Let_def compare_original_def) (simp add: rs_def)
  have f: "dg_Session demo_dflags = ''s1''" "dg_OutputFile demo_dflags = ''''" "currentDiffOutput demo_dflags = ''json''"
    "currentDiffFailOn demo_dflags = ''diff''" "rt_DataDir demo_rt = [''d'']" "rt_Config demo_rt = DefaultConfig"
    by (simp_all add: demo_dflags_def currentDiffOutput_def currentDiffFailOn_def demo_rt_def)
  have rules: "diff_rules (demo_cw rs) DefaultConfig demo_dflags = Inr []"
    by (simp add: diff_rules_def DefaultConfig_def demo_dflags_def RulesFromConfig_def effectiveString_def)
  have sess: "resolveSession (cw_json (demo_cw rs)) demo_diff_store demo_diff_fs ''s1'' = Inr ''s1''"
    by (simp add: resolveSession_def demo_get) (simp add: demo_session_def)
  have "runDiff (demo_cw rs) demo_rt demo_dflags demo_diff_fs
      = (?fs', Some (Generate JSONReporter rs ((FormatDiffSummary rs)\<lparr>sum_SessionID := ''s1''\<rparr>)), None)"
    using e run match
    by (simp add: runDiff_def f demo_diff_open rules sess validateDiffOutput_def validateDiffFailOn_def demo_cw_simps(1-5) demo_lower
        create_output_def write_output_def writeDiffResults_def enforceDiffFailOn_def)
  with e run show thesis by (rule that)
qed


theorem fail_on_error_counts_kept_witness:
  "\<exists>e. NewEngine demo_cfg = Some e
     \<and> sum_ErrorCount (FormatDiffSummary [compareRecords id (\<lambda>b. None) e demo_record (demo_record\<lparr>rec_ID := ''r2''\<rparr>)])
        = length (filter (\<lambda>d. \<not> df_Ignored d \<and> df_Severity d = SeverityError)
            (take 1000 (Apply (eng_ruleSet e) (raw_differences id (\<lambda>b. None) e demo_record (demo_record\<lparr>rec_ID := ''r2''\<rparr>)))))"
proof -
  obtain e where e: "NewEngine demo_cfg = Some e" by (rule demo_engine)
  have "eng_maxDiffs e = 1000" using e NewEngine_Some [of demo_cfg] by (auto simp: demo_cfg_def)
  with fail_on_error_counts_kept [OF e, of "[(demo_record, demo_record\<lparr>rec_ID := ''r2''\<rparr>)]", OF _ refl refl, of id "\<lambda>b. None" id] e
  show ?thesis by (auto simp: demo_record_def)
qed


end
