(* ===== verification/Replay_Cmd.thy ===== *)
theory Replay_Cmd
  imports Runtime Replay
begin

text \<open>
  Replaying from the command line (\<^verbatim>\<open>cmd/replay.go\<close>): flags and configuration together give the
  parameters of the engine, the database hooks run for as long as the engine does, and the session
  is marked as replayed.
\<close>

record ReplayFlags =
  pg_Session :: string
  pg_Target :: string
  pg_Concurrency :: int
  pg_ConcurrencyChanged :: bool
  pg_Delay :: string
  pg_DelayChanged :: bool
  pg_DBProxy :: "string list"
  pg_DBProxyChanged :: bool

datatype replay_cmd_error =
    ReplayDBProxy dbproxy_error
  | ProxiesNeedSequential int
  | ReplayLogger
  | ReplayStorage storage_error
  | ReplaySession resolve_error
  | InvalidDelay
  | InvalidReplayTimeout
  | ReplayHooksFailed start_error
  | ReplayFailed replay_run_error

text \<open>The delay between requests, in nanoseconds; a delay of the configuration is written in milliseconds.\<close>

definition replay_delay :: "ReplayFlags \<Rightarrow> ReplayConfig \<Rightarrow> replay_cmd_error + int" where
  "replay_delay flags cfg =
     (let delayText = (if \<not> pg_DelayChanged flags \<and> rc_DelayMs cfg > 0 then Itoa (rc_DelayMs cfg) @ ''ms'' else pg_Delay flags)
      in if delayText \<noteq> '''' then
           (case ParseDuration delayText of None \<Rightarrow> Inl InvalidDelay | Some d \<Rightarrow> Inr d)
         else Inr 0)"

record replay_summary =
  su_Total :: nat
  su_Succeeded :: nat
  su_Failed :: nat

definition count_errors :: "ReplayResult list \<Rightarrow> nat" where
  "count_errors results = foldl (\<lambda>n r. if rp_Error r \<noteq> None then n + 1 else n) 0 results"

text \<open>
  What a replay meets: JSON, the texts of storage errors, the check of \<^verbatim>\<open>http.NewRequest\<close>, what each
  request meets and the effects that arrive while it runs, the logger, the start of a hook, the clock.
\<close>

record replay_cmd_world =
  aw_json :: json_codec
  aw_etext :: "storage_error \<Rightarrow> string"
  aw_accepts :: "string \<Rightarrow> string \<Rightarrow> bool"
  aw_requests :: "nat \<Rightarrow> replay_world \<times> SideEffect list"
  aw_logger :: bool
  aw_startHook :: "tcpProxy \<Rightarrow> string option"
  aw_now :: int

definition mark_replayed :: "replay_cmd_world \<Rightarrow> FileStore \<Rightarrow> fs \<Rightarrow> string \<Rightarrow> string \<Rightarrow> fs" where
  "mark_replayed w store fs sessionID target =
     (case Get (aw_json w) store fs sessionID of
        Inl e \<Rightarrow> fs
      | Inr session \<Rightarrow>
          fst (Update (aw_json w) store (aw_now w) fs
            (session\<lparr>sess_Status := SessionReplayed, sess_Target := \<lparr>ep_BaseURL = target, ep_Headers = []\<rparr>\<rparr>)))"

text \<open>The engine that the command makes; with database proxies it gets the channel of their effects.\<close>

definition replay_engine :: "appRuntime \<Rightarrow> ReplayFlags \<Rightarrow> DBProxyConfig list \<Rightarrow> FileStore \<Rightarrow> string \<Rightarrow> int \<Rightarrow> ReplayEngine" where
  "replay_engine rt flags dbProxies store sessionID timeout =
     NewReplayEngine store sessionID (pg_Target flags)
       (effectiveInt (pg_ConcurrencyChanged flags) (pg_Concurrency flags) (rc_Concurrency (cfg_Replay (rt_Config rt))))
       timeout (rc_RetryCount (cfg_Replay (rt_Config rt))) (if length dbProxies > 0 then Some ([], False) else None)"

definition runReplay :: "replay_cmd_world \<Rightarrow> appRuntime \<Rightarrow> ReplayFlags \<Rightarrow> fs \<Rightarrow> fs \<times> (replay_cmd_error + replay_summary)" where
  "runReplay w rt flags fs =
     (let cfg = rt_Config rt;
          concurrency = effectiveInt (pg_ConcurrencyChanged flags) (pg_Concurrency flags) (rc_Concurrency (cfg_Replay cfg))
      in case resolveReplayDBProxies (pg_DBProxyChanged flags) (pg_DBProxy flags) cfg of
           Inl e \<Rightarrow> (fs, Inl (ReplayDBProxy e))
         | Inr dbProxies \<Rightarrow>
             if length dbProxies > 0 \<and> concurrency > 1 then (fs, Inl (ProxiesNeedSequential concurrency))
             else if \<not> aw_logger w then (fs, Inl ReplayLogger)
             else
      (case NewFileStore fs (rt_DataDir rt) of
         Inl e \<Rightarrow> (fs, Inl (ReplayStorage e))
       | Inr (fs, store) \<Rightarrow>
      (case resolveSession (aw_json w) store fs (pg_Session flags) of
         Inl e \<Rightarrow> (fs, Inl (ReplaySession e))
       | Inr sessionID \<Rightarrow>
      (case replay_delay flags (cfg_Replay cfg) of
         Inl e \<Rightarrow> (fs, Inl e)
       | Inr delay \<Rightarrow>
      (case ParseDuration (rc_Timeout (cfg_Replay cfg)) of
         None \<Rightarrow> (fs, Inl InvalidReplayTimeout)
       | Some timeout \<Rightarrow>
      (case (if length dbProxies > 0 then fst (startDBHooks (aw_startHook w) dbProxies) else Inr []) of
         Inl e \<Rightarrow> (fs, Inl (ReplayHooksFailed e))
       | Inr hooks \<Rightarrow>
      (case Replay_Run (aw_json w) (aw_etext w) (aw_accepts w) (aw_requests w) fs (replay_engine rt flags dbProxies store sessionID timeout) of
         (fs, engine, Inl e) \<Rightarrow> (fs, Inl (ReplayFailed e))
       | (fs, engine, Inr results) \<Rightarrow>
           (mark_replayed w store fs sessionID (pg_Target flags),
            Inr \<lparr>su_Total = length results, su_Succeeded = length results - count_errors results,
              su_Failed = count_errors results\<rparr>))))))))"

section \<open>Facts\<close>

lemma count_errors_filter: "count_errors results = length (filter (\<lambda>r. rp_Error r \<noteq> None) results)"
proof -
  have "foldl (\<lambda>n r. if rp_Error r \<noteq> None then n + 1 else n) n results = n + length (filter (\<lambda>r. rp_Error r \<noteq> None) results)" for n
    by (induction results arbitrary: n) auto
  from this [of 0] show ?thesis by (simp add: count_errors_def)
qed

lemma sequential_length:
  "length ws = length records \<Longrightarrow> length (fst (executeSequentialWithSideEffects etext accepts fs e ws records)) = length records"
  by (induction ws records arbitrary: e rule: list_induct2) (auto simp: Let_def case_prod_beta)

lemma Replay_Run_total:
  assumes "ListRecords json (re_store e) fs (re_sessionID e) = (originals, None)" "originals \<noteq> []"
    and "re_sideEffectCh e \<noteq> None \<Longrightarrow> wp_concurrency (re_pool e) \<le> 1"
  shows "\<exists>fs' e' results. Replay_Run json etext accepts w fs e = (fs', e', Inr results) \<and> length results = length originals"
proof -
  let ?seq = "executeSequentialWithSideEffects etext accepts fs e (map w [0 ..< length originals]) originals"
  have "length (fst ?seq) = length originals" by (rule sequential_length) simp
  moreover have "length (Execute etext accepts fs (re_pool e) (\<lambda>i. fst (w i)) originals) = length originals" by (simp add: Execute_def)
  ultimately show ?thesis using assms by (auto simp: Replay_Run_def Let_def case_prod_beta)
qed

section \<open>Properties\<close>


section \<open>Instances\<close>

definition demo_pflags :: ReplayFlags where
  "demo_pflags =
     \<lparr>pg_Session = ''s1'', pg_Target = ''http://t'', pg_Concurrency = 1, pg_ConcurrencyChanged = False, pg_Delay = '''',
      pg_DelayChanged = False, pg_DBProxy = [], pg_DBProxyChanged = False\<rparr>"

definition demo_aw :: replay_cmd_world where
  "demo_aw =
     \<lparr>aw_json = demo_json, aw_etext = (\<lambda>e. ''e''), aw_accepts = (\<lambda>m u. True), aw_requests = (\<lambda>i. (demo_rw, [])), aw_logger = True,
      aw_startHook = (\<lambda>h. None), aw_now = 9\<rparr>"


end
