(* ===== verification/Session_Cmd.thy ===== *)
theory Session_Cmd
  imports Runtime Side_Effects
begin

text \<open>
  Managing sessions from the command line (\<^verbatim>\<open>cmd/session.go\<close>): listing, showing, inspecting and
  deleting. A list is the sessions of its rows, and the text of an inspection the list of its
  lines, each with the values printed into it.
\<close>

section \<open>Listing, showing, deleting\<close>

datatype session_error =
    SessionStore storage_error
  | ListFailed storage_error
  | GetFailed storage_error
  | ResolveFailed resolve_error
  | RecordsFailed storage_error
  | ReplaysFailed storage_error
  | ResultsFailed storage_error
  | BadInspectFormat string
  | InspectWrite

definition runSessionList :: "json_codec \<Rightarrow> fs \<Rightarrow> path \<Rightarrow> string \<Rightarrow> fs \<times> (session_error + Session list)" where
  "runSessionList json fs dataDir sessionTagFilter =
     (case NewFileStore fs dataDir of
        Inl e \<Rightarrow> (fs, Inl (SessionStore e))
      | Inr (fs, store) \<Rightarrow>
          (let flt = (if sessionTagFilter \<noteq> '''' then Some \<lparr>flt_Name = '''', flt_Status = '''', flt_Tags = [sessionTagFilter]\<rparr> else None)
           in case ListSessions json store fs flt of
                Inl e \<Rightarrow> (fs, Inl (ListFailed e))
              | Inr sessions \<Rightarrow> (fs, Inr sessions)))"

definition runSessionShow :: "json_codec \<Rightarrow> fs \<Rightarrow> path \<Rightarrow> string \<Rightarrow> fs \<times> (session_error + Session)" where
  "runSessionShow json fs dataDir arg =
     (case NewFileStore fs dataDir of
        Inl e \<Rightarrow> (fs, Inl (SessionStore e))
      | Inr (fs, store) \<Rightarrow>
          (case Get json store fs arg of
             Inl e \<Rightarrow> (fs, Inl (GetFailed e))
           | Inr sess \<Rightarrow> (fs, Inr sess)))"

definition runSessionDelete :: "json_codec \<Rightarrow> fs \<Rightarrow> path \<Rightarrow> string \<Rightarrow> fs \<times> (session_error + Session)" where
  "runSessionDelete json fs dataDir arg =
     (case NewFileStore fs dataDir of
        Inl e \<Rightarrow> (fs, Inl (SessionStore e))
      | Inr (fs, store) \<Rightarrow>
          (case Get json store fs arg of
             Inl e \<Rightarrow> (fs, Inl (GetFailed e))
           | Inr sess \<Rightarrow> (Delete store fs (sess_ID sess), Inr sess)))"

section \<open>Inspecting\<close>

record fileStatus =
  fst_Path :: path
  fst_Exists :: bool
  fst_Size :: nat

text \<open>\<^verbatim>\<open>os.Stat\<close> reports a size for a directory, too, which the system chooses.\<close>

definition inspectFile :: "nat \<Rightarrow> fs \<Rightarrow> path \<Rightarrow> fileStatus" where
  "inspectFile dirSize fs p =
     (case map_of fs p of
        None \<Rightarrow> \<lparr>fst_Path = p, fst_Exists = False, fst_Size = 0\<rparr>
      | Some (File data) \<Rightarrow> \<lparr>fst_Path = p, fst_Exists = True, fst_Size = length data\<rparr>
      | Some Dir \<Rightarrow> \<lparr>fst_Path = p, fst_Exists = True, fst_Size = dirSize\<rparr>)"

text \<open>Reading a key that is not in the map gives zero.\<close>

definition increment :: "string \<Rightarrow> (string, nat) gomap \<Rightarrow> (string, nat) gomap" where
  "increment key counts = put key ((case map_of counts key of None \<Rightarrow> 0 | Some n \<Rightarrow> n) + 1) counts"

definition effect_key :: "SideEffect \<Rightarrow> string" where
  "effect_key effect =
     (if se_Type effect \<noteq> SideEffectDB then ''unknown''
      else if DatabaseType effect = '''' \<or> \<not> IsSupported (DatabaseType effect) then ''unknown''
      else DatabaseType effect)"

definition countRecordDBSideEffects :: "Record list \<Rightarrow> (string, nat) gomap" where
  "countRecordDBSideEffects records =
     (let counts = put ''unknown'' 0 (foldl (\<lambda>counts typ. put typ 0 counts) [] Supported)
      in foldl (\<lambda>counts record. foldl (\<lambda>counts effect. increment (effect_key effect) counts) counts (rec_SideEffects record))
           counts records)"

record sessionInspectReport =
  si_Session :: Session
  si_DataDir :: path
  si_SessionDir :: path
  si_Files :: "(string, fileStatus) gomap"
  si_RecordCount :: nat
  si_ReplayRecordCount :: nat
  si_DiffResultCount :: nat
  si_RecordSideEffects :: "(string, nat) gomap"
  si_ReplaySideEffects :: "(string, nat) gomap"
  si_Warnings :: "string list"

definition buildSessionInspectReport ::
  "json_codec \<Rightarrow> nat \<Rightarrow> FileStore \<Rightarrow> fs \<Rightarrow> path \<Rightarrow> string \<Rightarrow> session_error + sessionInspectReport" where
  "buildSessionInspectReport json dirSize store fs dataDir sessionID =
     (case Get json store fs sessionID of
        Inl e \<Rightarrow> Inl (GetFailed e)
      | Inr sess \<Rightarrow>
     (case ListRecords json store fs (sess_ID sess) of
        (records, Some e) \<Rightarrow> Inl (RecordsFailed e)
      | (records, None) \<Rightarrow>
     (case ListReplayRecords json store fs (sess_ID sess) of
        (replays, Some e) \<Rightarrow> Inl (ReplaysFailed e)
      | (replays, None) \<Rightarrow>
     (case LoadResults json store fs (sess_ID sess) of
        Inl e \<Rightarrow> Inl (ResultsFailed e)
      | Inr results \<Rightarrow>
          (let sessionDir = JoinPath dataDir [''sessions'', sess_ID sess];
               stat = (\<lambda>f. inspectFile dirSize fs (JoinPath sessionDir [f]));
               replayRecords = stat ''replay-records.jsonl'';
               diffResults = stat ''diff-results.json''
           in Inr \<lparr>si_Session = sess, si_DataDir = dataDir, si_SessionDir = sessionDir,
                si_Files = [(''session'', stat ''session.json''), (''records'', stat ''records.jsonl''),
                  (''replayRecords'', replayRecords), (''diffResults'', diffResults)],
                si_RecordCount = length records, si_ReplayRecordCount = length replays, si_DiffResultCount = length results,
                si_RecordSideEffects = countRecordDBSideEffects records,
                si_ReplaySideEffects = countRecordDBSideEffects replays,
                si_Warnings =
                  (if \<not> fst_Exists replayRecords then [''replay records have not been generated''] else [])
                  @ (if \<not> fst_Exists diffResults then [''diff results have not been generated''] else [])\<rparr>)))))"

text \<open>The lines of the inspection; file keys and counts are sorted by key.\<close>

datatype inspect_line =
    LSession string string
  | LStatus SessionStatus
  | LData path
  | LSessionDir path
  | LRecords nat
  | LReplays nat
  | LResults nat
  | LBlank
  | LHeading string
  | LFilePresent string nat
  | LFileMissing string
  | LFilePath path
  | LCount string nat
  | LWarning string

definition sortedKeys :: "(string, fileStatus) gomap \<Rightarrow> string list" where
  "sortedKeys m = sort (map fst m)"

definition sortedKeysInt :: "(string, nat) gomap \<Rightarrow> string list" where
  "sortedKeysInt m = sort (map fst m)"

definition printCountMap :: "(string, nat) gomap \<Rightarrow> inspect_line list" where
  "printCountMap counts =
     map (\<lambda>key. LCount key (case map_of counts key of None \<Rightarrow> 0 | Some n \<Rightarrow> n)) (sortedKeysInt counts)"

definition printSessionInspect :: "sessionInspectReport \<Rightarrow> inspect_line list" where
  "printSessionInspect report =
     [LSession (sess_ID (si_Session report)) (sess_Name (si_Session report)), LStatus (sess_Status (si_Session report)),
      LData (si_DataDir report), LSessionDir (si_SessionDir report), LRecords (si_RecordCount report),
      LReplays (si_ReplayRecordCount report), LResults (si_DiffResultCount report), LBlank, LHeading ''Files:'']
     @ concat (map (\<lambda>key. case map_of (si_Files report) key of
           None \<Rightarrow> [LFileMissing key, LFilePath []]
         | Some s \<Rightarrow> [if fst_Exists s then LFilePresent key (fst_Size s) else LFileMissing key, LFilePath (fst_Path s)])
         (sortedKeys (si_Files report)))
     @ [LBlank, LHeading ''Record side effects:''] @ printCountMap (si_RecordSideEffects report)
     @ [LHeading ''Replay side effects:''] @ printCountMap (si_ReplaySideEffects report)
     @ (if length (si_Warnings report) > 0 then [LBlank, LHeading ''Warnings:''] @ map LWarning (si_Warnings report) else [])"

datatype inspect_output = InspectText "inspect_line list" | InspectJson sessionInspectReport

text \<open>\<open>encodes\<close> is whether the report can be written as JSON.\<close>

definition runSessionInspect ::
  "json_codec \<Rightarrow> nat \<Rightarrow> (sessionInspectReport \<Rightarrow> bool) \<Rightarrow> fs \<Rightarrow> path \<Rightarrow> string \<Rightarrow> string \<Rightarrow> fs \<times> (session_error + inspect_output)" where
  "runSessionInspect json dirSize encodes fs dataDir format arg =
     (case NewFileStore fs dataDir of
        Inl e \<Rightarrow> (fs, Inl (SessionStore e))
      | Inr (fs, store) \<Rightarrow>
     (case resolveSession json store fs arg of
        Inl e \<Rightarrow> (fs, Inl (ResolveFailed e))
      | Inr sessionID \<Rightarrow>
     (case buildSessionInspectReport json dirSize store fs dataDir sessionID of
        Inl e \<Rightarrow> (fs, Inl e)
      | Inr report \<Rightarrow>
          if format = '''' \<or> format = ''terminal'' then (fs, Inr (InspectText (printSessionInspect report)))
          else if format = ''json'' then (if encodes report then (fs, Inr (InspectJson report)) else (fs, Inl InspectWrite))
          else (fs, Inl (BadInspectFormat format)))))"

section \<open>Counting effects\<close>

lemma increment_map_of:
  "map_of (increment key counts) k = (if k = key then Some ((case map_of counts key of None \<Rightarrow> 0 | Some n \<Rightarrow> n) + 1) else map_of counts k)"
  by (simp add: increment_def)

lemma count_effects:
  "map_of counts k = Some n \<Longrightarrow>
   map_of (foldl (\<lambda>counts effect. increment (effect_key effect) counts) counts es) k = Some (n + length (filter (\<lambda>e. effect_key e = k) es))"
  by (induction es arbitrary: counts n) (auto simp: increment_map_of)

lemma count_records:
  "map_of counts k = Some n \<Longrightarrow>
   map_of (foldl (\<lambda>counts record. foldl (\<lambda>counts effect. increment (effect_key effect) counts) counts (rec_SideEffects record)) counts rs) k
     = Some (n + length (filter (\<lambda>e. effect_key e = k) (concat (map rec_SideEffects rs))))"
proof (induction rs arbitrary: counts n)
  case (Cons r rs)
  from Cons.IH [OF count_effects [OF Cons.prems, of "rec_SideEffects r"]] show ?case by simp
qed simp

lemma count_initial:
  "map_of (put ''unknown'' 0 (foldl (\<lambda>counts typ. put typ 0 counts) [] Supported)) k = (if k = ''unknown'' \<or> IsSupported k then Some (0 :: nat) else None)"
  by (simp add: Supported_def IsSupported_iff)

lemma effect_key_cases: "effect_key e = ''unknown'' \<or> IsSupported (effect_key e)"
  by (auto simp: effect_key_def)

lemma effect_key_residual: "length (filter (\<lambda>e. effect_key e = ''unknown'') es) = countResidualSideEffects es Supported"
proof (induction es)
  case (Cons e es)
  have "effect_key e = ''unknown'' \<longleftrightarrow> se_Type e \<noteq> SideEffectDB \<or> DatabaseType e \<notin> set Supported"
    by (auto simp: effect_key_def IsSupported_def IsSupported_loop_set Supported_def)
  with Cons show ?case by simp
qed simp

lemma count_keys:
  "k = ''unknown'' \<or> IsSupported k \<Longrightarrow> map_of (countRecordDBSideEffects records) k
     = Some (length (filter (\<lambda>e. effect_key e = k) (concat (map rec_SideEffects records))))"
  using count_records [of "put ''unknown'' 0 (foldl (\<lambda>counts typ. put typ 0 counts) [] Supported)" k 0 records] count_initial [of k]
  by (simp add: countRecordDBSideEffects_def Let_def del: map_of_put)

lemma sum_put: "sum_list (map snd (put k v m)) + (case map_of m k of None \<Rightarrow> 0 | Some n \<Rightarrow> n) = sum_list (map snd m) + (v :: nat)"
  by (induction k v m rule: put.induct) auto

lemma sum_increment: "sum_list (map snd (increment k m)) = Suc (sum_list (map snd m))"
  using sum_put [of k "Suc (case map_of m k of None \<Rightarrow> 0 | Some n \<Rightarrow> n)" m] by (simp add: increment_def)

lemma sum_counts: "sum_list (map snd (countRecordDBSideEffects records)) = length (concat (map rec_SideEffects records))"
proof -
  have e: "sum_list (map snd (foldl (\<lambda>counts effect. increment (effect_key effect) counts) counts es)) = sum_list (map snd counts) + length es"
    for counts es by (induction es arbitrary: counts) (simp_all add: sum_increment)
  have "sum_list (map snd (foldl (\<lambda>counts record. foldl (\<lambda>counts effect. increment (effect_key effect) counts) counts (rec_SideEffects record)) counts rs))
      = sum_list (map snd counts) + length (concat (map rec_SideEffects rs))" for counts and rs :: "Record list"
    by (induction rs arbitrary: counts) (simp_all add: e)
  moreover have "sum_list (map snd (put ''unknown'' 0 (foldl (\<lambda>counts typ. put typ 0 counts) [] Supported))) = (0 :: nat)"
    by (simp add: Supported_def)
  ultimately show ?thesis unfolding countRecordDBSideEffects_def Let_def by (simp only: add_0)
qed

text \<open>What is printed does not depend on the order in which a map is iterated.\<close>

lemma printCountMap_any_order: "go_map counts \<Longrightarrow> mset counts = mset counts' \<Longrightarrow> printCountMap counts = printCountMap counts'"
  using go_map_mset_map_of [of counts counts'] sorted_list_of_multiset_mset [of "map fst counts"]
    sorted_list_of_multiset_mset [of "map fst counts'"]
  by (simp add: printCountMap_def sortedKeysInt_def)

lemma sortedKeys_any_order: "mset m = mset m' \<Longrightarrow> sortedKeys m = sortedKeys m'"
  using sorted_list_of_multiset_mset [of "map fst m"] sorted_list_of_multiset_mset [of "map fst m'"]
  by (simp add: sortedKeys_def)

lemma printSessionInspect_any_order:
  assumes "go_map (si_Files report)" "mset (si_Files report) = mset files"
    and "go_map (si_RecordSideEffects report)" "mset (si_RecordSideEffects report) = mset records"
    and "go_map (si_ReplaySideEffects report)" "mset (si_ReplaySideEffects report) = mset replays"
  shows "printSessionInspect (report\<lparr>si_Files := files, si_RecordSideEffects := records, si_ReplaySideEffects := replays\<rparr>)
       = printSessionInspect report"
  using sortedKeys_any_order [OF assms(2)] go_map_mset_map_of [OF assms(1,2)] printCountMap_any_order [OF assms(3,4)]
    printCountMap_any_order [OF assms(5,6)]
  by (simp add: printSessionInspect_def)

section \<open>Properties\<close>

text \<open>
  Inspecting a session counts each side effect of its records once: under its database where
  that is supported, and otherwise as unknown. The unknown ones are the effects that the diff engine
  counts as residual, and there is a count for every supported database, even of none.
\<close>

theorem inspect_counts:
  "list_all (\<lambda>t. map_of (countRecordDBSideEffects records) t
        = Some (length (filter (\<lambda>e. se_Type e = SideEffectDB \<and> DatabaseType e = t) (concat (map rec_SideEffects records))))) Supported
     \<and> map_of (countRecordDBSideEffects records) ''unknown''
        = Some (countResidualSideEffects (concat (map rec_SideEffects records)) Supported)
     \<and> sum_list (map snd (countRecordDBSideEffects records)) = length (concat (map rec_SideEffects records))"
proof -
  have "effect_key e = t \<longleftrightarrow> se_Type e = SideEffectDB \<and> DatabaseType e = t" if "IsSupported t" for e t
    using that by (auto simp: effect_key_def IsSupported_iff)
  then have "list_all (\<lambda>t. filter (\<lambda>e. effect_key e = t) es = filter (\<lambda>e. se_Type e = SideEffectDB \<and> DatabaseType e = t) es) Supported" for es
    by (auto simp: list_all_iff IsSupported_def IsSupported_loop_set intro!: filter_cong)
  then have "list_all (\<lambda>t. map_of (countRecordDBSideEffects records) t
        = Some (length (filter (\<lambda>e. se_Type e = SideEffectDB \<and> DatabaseType e = t) (concat (map rec_SideEffects records))))) Supported"
    by (auto simp: list_all_iff count_keys IsSupported_def IsSupported_loop_set)
  then show ?thesis by (simp add: count_keys sum_counts effect_key_residual)
qed

end
