(* ===== verification/Doctor.thy ===== *)
theory Doctor
  imports Runtime
begin

text \<open>
  The diagnosis of an installation (\<^verbatim>\<open>cmd/doctor.go\<close>): its checks, the summary of their states and
  the outcome of the command. External commands and the ports of the machine are arguments, as is
  what a decoding of the configuration that fails leaves behind.
\<close>

section \<open>Checks\<close>

datatype doctorStatus = doctorPass | doctorWarn | doctorError | doctorSkip

datatype detail =
    DString string
  | DStrings "string list"
  | DNat nat
  | DPath path
  | DFsError fs_error
  | DConfigError config_error
  | DLoadError store_error

record doctorCheck =
  dk_ID :: string
  dk_Status :: doctorStatus
  dk_Message :: string
  dk_Detail :: "(string \<times> detail) list"

abbreviation check :: "string \<Rightarrow> doctorStatus \<Rightarrow> string \<Rightarrow> (string \<times> detail) list \<Rightarrow> doctorCheck" where
  "check i s m d \<equiv> \<lparr>dk_ID = i, dk_Status = s, dk_Message = m, dk_Detail = d\<rparr>"

record doctorSummary =
  dm_Pass :: nat
  dm_Warn :: nat
  dm_Error :: nat
  dm_Skip :: nat
  dm_OK :: bool

record doctorReport =
  dr_Version :: string
  dr_Commit :: string
  dr_BuildDate :: string
  dr_ConfigPath :: path
  dr_DataDir :: path
  dr_LogDir :: path
  dr_Strict :: bool
  dr_E2E :: bool
  dr_Summary :: doctorSummary
  dr_Checks :: "doctorCheck list"

definition addCheck :: "doctorReport \<Rightarrow> doctorCheck \<Rightarrow> doctorReport" where
  "addCheck r c =
     (let r = r\<lparr>dr_Checks := dr_Checks r @ [c]\<rparr>; s = dr_Summary r
      in r\<lparr>dr_Summary :=
           (case dk_Status c of
              doctorPass \<Rightarrow> s\<lparr>dm_Pass := dm_Pass s + 1\<rparr>
            | doctorWarn \<Rightarrow> s\<lparr>dm_Warn := dm_Warn s + 1\<rparr>
            | doctorError \<Rightarrow> s\<lparr>dm_Error := dm_Error s + 1\<rparr>
            | doctorSkip \<Rightarrow> s\<lparr>dm_Skip := dm_Skip s + 1\<rparr>)\<rparr>)"

definition checkPathStatus :: "fs \<Rightarrow> string \<Rightarrow> path \<Rightarrow> bool \<Rightarrow> doctorCheck" where
  "checkPathStatus fs i p expectDir =
     (case map_of fs p of
        None \<Rightarrow>
          if IsNotExist (missing fs p) then check i doctorWarn ''Path does not exist yet'' [(''path'', DPath p)]
          else check i doctorError ''Path cannot be inspected'' [(''path'', DPath p), (''error'', DFsError (missing fs p))]
      | Some n \<Rightarrow>
          if expectDir \<and> n \<noteq> Dir then check i doctorError ''Path exists but is not a directory'' [(''path'', DPath p)]
          else check i doctorPass ''Path is available'' [(''path'', DPath p)])"

fun first_unsupported :: "nat \<Rightarrow> DBProxyConfig list \<Rightarrow> (nat \<times> string) option" where
  "first_unsupported i [] = None"
| "first_unsupported i (proxy # proxies) =
     (if \<not> IsSupported (dp_Type proxy) then Some (i, dp_Type proxy) else first_unsupported (Suc i) proxies)"

text \<open>\<open>None\<close> is the nil configuration, which the command never has.\<close>

definition checkConfigDBProxies :: "AppConfig option \<Rightarrow> doctorCheck" where
  "checkConfigDBProxies config =
     (case config of None \<Rightarrow> check ''dbproxy.config'' doctorSkip ''Config is unavailable'' [] | Some cfg \<Rightarrow>
      let captureCount = length (cc_DBProxies (cfg_Capture cfg)); replayCount = length (rc_DBProxies (cfg_Replay cfg))
      in if captureCount = 0 \<and> replayCount = 0
         then check ''dbproxy.config'' doctorPass ''No DB proxies configured'' [(''capture'', DNat 0), (''replay'', DNat 0)]
         else case first_unsupported 0 (cc_DBProxies (cfg_Capture cfg)) of
                Some (i, t) \<Rightarrow> check ''dbproxy.config'' doctorError ''Unsupported capture DB proxy type'' [(''index'', DNat i), (''type'', DString t)]
              | None \<Rightarrow>
                  (case first_unsupported 0 (rc_DBProxies (cfg_Replay cfg)) of
                     Some (i, t) \<Rightarrow> check ''dbproxy.config'' doctorError ''Unsupported replay DB proxy type'' [(''index'', DNat i), (''type'', DString t)]
                   | None \<Rightarrow> check ''dbproxy.config'' doctorPass ''Configured DB proxy types are supported''
                       [(''capture'', DNat captureCount), (''replay'', DNat replayCount)]))"

text \<open>A command that is not on the path has an error, too.\<close>

record doctorCommandResult =
  cr_Found :: bool
  cr_Output :: string
  cr_Err :: "string option"

definition runDoctorExternalCommand :: "(string \<Rightarrow> string option) \<Rightarrow> (string list \<Rightarrow> string \<times> string option) \<Rightarrow> string list \<Rightarrow> doctorCommandResult" where
  "runDoctorExternalCommand lookPath combinedOutput args =
     (case lookPath (hd args) of
        Some err \<Rightarrow> \<lparr>cr_Found = False, cr_Output = '''', cr_Err = Some err\<rparr>
      | None \<Rightarrow>
          (let (output, err) = combinedOutput args
           in \<lparr>cr_Found = True, cr_Output = output, cr_Err = err\<rparr>))"

definition checkExternalTool :: "(string list \<Rightarrow> doctorCommandResult) \<Rightarrow> string list \<Rightarrow> doctorCheck" where
  "checkExternalTool doctorExecCommand args =
     (let result = doctorExecCommand args; name = hd args; i = ''tool.'' @ name
      in if \<not> cr_Found result then check i doctorWarn (name @ '' was not found on PATH'') []
         else case cr_Err result of
                Some err \<Rightarrow> check i doctorWarn (name @ '' check failed'') [(''error'', DString err), (''output'', DString (TrimSpace (cr_Output result)))]
              | None \<Rightarrow> check i doctorPass (name @ '' is available'') [(''output'', DString (TrimSpace (cr_Output result)))])"

text \<open>The last case stands for the call of \<^verbatim>\<open>Error\<close> on the error of the older command, which is set there.\<close>

definition checkDockerCompose :: "(string list \<Rightarrow> doctorCommandResult) \<Rightarrow> doctorCheck" where
  "checkDockerCompose doctorExecCommand =
     (let i = ''tool.dockerCompose'';
          result = doctorExecCommand [''docker'', ''compose'', ''version'', ''--short'']
      in if cr_Found result \<and> cr_Err result = None
         then check i doctorPass ''Docker Compose plugin is available'' [(''output'', DString (TrimSpace (cr_Output result)))]
         else
           (let legacy = doctorExecCommand [''docker-compose'', ''version'', ''--short'']
            in if cr_Found legacy \<and> cr_Err legacy = None
               then check i doctorPass ''docker-compose is available'' [(''output'', DString (TrimSpace (cr_Output legacy)))]
               else if \<not> cr_Found result \<and> \<not> cr_Found legacy
               then check i doctorWarn ''Docker Compose was not found on PATH'' []
               else case cr_Err result of
                      Some err \<Rightarrow> check i doctorWarn ''Docker Compose check failed''
                        [(''error'', DString err), (''output'', DString (TrimSpace (cr_Output result)))]
                    | None \<Rightarrow> check i doctorWarn ''Docker Compose check failed''
                        [(''error'', DString (the (cr_Err legacy))), (''output'', DString (TrimSpace (cr_Output legacy)))]))"

text \<open>\<open>listen\<close> is the error of \<^verbatim>\<open>net.Listen\<close>, if any.\<close>

definition checkListenAddrAvailable :: "(string \<Rightarrow> string option) \<Rightarrow> string \<Rightarrow> doctorCheck" where
  "checkListenAddrAvailable listen addr =
     (let i = ''e2e.port.'' @ ReplaceAll addr '':'' ''_''
      in case listen addr of
           Some err \<Rightarrow> check i doctorError ''E2E port is not available'' [(''addr'', DString addr), (''error'', DString err)]
         | None \<Rightarrow> check i doctorPass ''E2E port is available'' [(''addr'', DString addr)])"

definition doctorE2EAddrs :: "string list" where
  "doctorE2EAddrs =
     map (\<lambda>p. ''127.0.0.1:'' @ p)
       [''18081'', ''18082'', ''18080'', ''33306'', ''35432'', ''37017'', ''36379'', ''13306'', ''15432'', ''27018'', ''16379'',
        ''13316'', ''15442'', ''27028'', ''16389'']"

section \<open>The report\<close>

record doctorOptions =
  do_Format :: string
  do_Strict :: bool
  do_IncludeE2E :: bool
  do_ConfigPath :: "path option"

record doctor_world =
  dw_json :: config_codec
  dw_partial :: "bytes \<Rightarrow> AppConfig"
  dw_low :: "nat \<Rightarrow> nat"
  dw_resolve :: "string \<Rightarrow> path"
  dw_home :: "path option"
  dw_version :: string
  dw_commit :: string
  dw_buildDate :: string
  dw_exec :: "string list \<Rightarrow> doctorCommandResult"
  dw_listen :: "string \<Rightarrow> string option"
  dw_encodes :: "doctorReport \<Rightarrow> bool"

definition loadDoctorConfig :: "doctor_world \<Rightarrow> fs \<Rightarrow> path \<Rightarrow> AppConfig \<times> bool \<times> store_error option" where
  "loadDoctorConfig w fs p =
     (case ReadFile fs p of
        Inl e \<Rightarrow> if IsNotExist e then (DefaultConfig, False, None) else (DefaultConfig, True, Some (ConfigFile e))
      | Inr data \<Rightarrow>
          (case unmarshalConfig (dw_json w) data DefaultConfig of
             None \<Rightarrow> (dw_partial w data, True, Some ConfigUnmarshal)
           | Some cfg \<Rightarrow> (cfg, True, None)))"

definition doctorDataDir :: "doctor_world \<Rightarrow> AppConfig \<Rightarrow> path" where
  "doctorDataDir w cfg =
     (if stc_DataDir (cfg_Storage cfg) \<noteq> '''' then dw_resolve w (stc_DataDir (cfg_Storage cfg))
      else case dw_home w of
             None \<Rightarrow> dw_resolve w ''.shadiff''
           | Some homeDir \<Rightarrow> JoinPath homeDir [''.shadiff''])"

definition doctor_checks :: "doctor_world \<Rightarrow> fs \<Rightarrow> doctorOptions \<Rightarrow> path \<Rightarrow> AppConfig \<times> bool \<times> store_error option \<Rightarrow> path \<Rightarrow> path \<Rightarrow> doctorCheck list" where
  "doctor_checks w fs opts configPath loaded dataDir logDir =
     (let (cfg, configExists, configLoadErr) = loaded
      in [check ''version'' doctorPass (''shadiff '' @ dw_version w) [(''commit'', DString (dw_commit w)), (''buildDate'', DString (dw_buildDate w))],
          if configExists then check ''config.path'' doctorPass ''Config file found'' [(''path'', DPath configPath)]
          else check ''config.path'' doctorWarn ''Config file not found; defaults will be used'' [(''path'', DPath configPath)],
          case configLoadErr of
            Some err \<Rightarrow> check ''config.valid'' doctorError ''Config file could not be loaded'' [(''error'', DLoadError err)]
          | None \<Rightarrow>
              (case Validate (dw_low w) (Some cfg) of
                 Some err \<Rightarrow> check ''config.valid'' doctorError ''Config validation failed'' [(''error'', DConfigError err)]
               | None \<Rightarrow> check ''config.valid'' doctorPass ''Config is valid'' []),
          checkPathStatus fs ''storage.dataDir'' dataDir True,
          checkPathStatus fs ''log.logDir'' logDir True,
          check ''dbproxy.supportedTypes'' doctorPass ''Supported DB proxy types are registered'' [(''types'', DStrings Supported)],
          checkConfigDBProxies (Some cfg),
          checkExternalTool (dw_exec w) [''docker'', ''version'', ''--format'', ''{{.Server.Version}}''],
          checkDockerCompose (dw_exec w)]
         @ (if do_IncludeE2E opts then map (checkListenAddrAvailable (dw_listen w)) doctorE2EAddrs else []))"

definition buildDoctorReport :: "doctor_world \<Rightarrow> fs \<Rightarrow> doctorOptions \<Rightarrow> store_error + doctorReport" where
  "buildDoctorReport w fs opts =
     (case (case do_ConfigPath opts of Some p \<Rightarrow> Inr p | None \<Rightarrow> DefaultPath (dw_home w)) of
        Inl err \<Rightarrow> Inl err
      | Inr configPath \<Rightarrow>
          (let loaded = loadDoctorConfig w fs configPath;
               cfg = fst loaded;
               dataDir = doctorDataDir w cfg;
               logDir = (if lc_LogDir (cfg_Log cfg) = '''' then JoinPath dataDir [''logs''] else dw_resolve w (lc_LogDir (cfg_Log cfg)));
               report = \<lparr>dr_Version = dw_version w, dr_Commit = dw_commit w, dr_BuildDate = dw_buildDate w, dr_ConfigPath = configPath, dr_DataDir = dataDir, dr_LogDir = logDir, dr_Strict = do_Strict opts,
                 dr_E2E = do_IncludeE2E opts,
                 dr_Summary = \<lparr>dm_Pass = 0, dm_Warn = 0, dm_Error = 0, dm_Skip = 0, dm_OK = False\<rparr>, dr_Checks = []\<rparr>;
               report = foldl addCheck report (doctor_checks w fs opts configPath loaded dataDir logDir)
           in Inr (report\<lparr>dr_Summary := (dr_Summary report)\<lparr>dm_OK :=
                dm_Error (dr_Summary report) = 0 \<and> (\<not> do_Strict opts \<or> dm_Warn (dr_Summary report) = 0)\<rparr>\<rparr>)))"

datatype doctor_line =
    DTitle
  | DVersion string
  | DCommit string
  | DBuilt string
  | DConfigLine path
  | DDataLine path
  | DLogsLine path
  | DBlank
  | DTableHead
  | DRow doctorStatus string string
  | DSummary nat nat nat nat

definition printDoctorReport :: "doctorReport \<Rightarrow> doctor_line list" where
  "printDoctorReport report =
     [DTitle, DVersion (dr_Version report), DCommit (dr_Commit report), DBuilt (dr_BuildDate report), DConfigLine (dr_ConfigPath report),
      DDataLine (dr_DataDir report), DLogsLine (dr_LogDir report), DBlank, DTableHead]
     @ map (\<lambda>c. DRow (dk_Status c) (dk_ID c) (dk_Message c)) (dr_Checks report)
     @ [DBlank, DSummary (dm_Pass (dr_Summary report)) (dm_Warn (dr_Summary report)) (dm_Error (dr_Summary report)) (dm_Skip (dr_Summary report))]"

datatype doctor_output = DoctorText "doctor_line list" | DoctorJson doctorReport

datatype doctor_error =
    DoctorConfigPath store_error
  | DoctorWrite
  | DoctorFormat string
  | DoctorErrors nat
  | DoctorWarnings nat

text \<open>\<open>doctorFormat\<close> is the flag; the format is taken in lower case.\<close>

definition runDoctor :: "doctor_world \<Rightarrow> fs \<Rightarrow> string \<Rightarrow> bool \<Rightarrow> bool \<Rightarrow> path option \<Rightarrow> doctor_output option \<times> doctor_error option" where
  "runDoctor w fs doctorFormat doctorStrict doctorE2E cfgFile =
     (let opts = \<lparr>do_Format = ToLower (dw_low w) doctorFormat, do_Strict = doctorStrict, do_IncludeE2E = doctorE2E, do_ConfigPath = cfgFile\<rparr>;
          outcome = (\<lambda>report.
            if dm_Error (dr_Summary report) > 0 then Some (DoctorErrors (dm_Error (dr_Summary report)))
            else if dr_Strict report \<and> dm_Warn (dr_Summary report) > 0 then Some (DoctorWarnings (dm_Warn (dr_Summary report)))
            else None)
      in case buildDoctorReport w fs opts of
           Inl err \<Rightarrow> (None, Some (DoctorConfigPath err))
         | Inr report \<Rightarrow>
             if do_Format opts = '''' \<or> do_Format opts = ''terminal'' then (Some (DoctorText (printDoctorReport report)), outcome report)
             else if do_Format opts = ''json'' then
               (if dw_encodes w report then (Some (DoctorJson report), outcome report) else (None, Some DoctorWrite))
             else (None, Some (DoctorFormat doctorFormat)))"

section \<open>Facts\<close>

lemma addCheck_fold:
  "foldl addCheck r cs = r\<lparr>dr_Checks := dr_Checks r @ cs,
     dr_Summary := (dr_Summary r)\<lparr>dm_Pass := dm_Pass (dr_Summary r) + length (filter (\<lambda>c. dk_Status c = doctorPass) cs),
       dm_Warn := dm_Warn (dr_Summary r) + length (filter (\<lambda>c. dk_Status c = doctorWarn) cs),
       dm_Error := dm_Error (dr_Summary r) + length (filter (\<lambda>c. dk_Status c = doctorError) cs),
       dm_Skip := dm_Skip (dr_Summary r) + length (filter (\<lambda>c. dk_Status c = doctorSkip) cs)\<rparr>\<rparr>"
proof (induction cs arbitrary: r)
  case (Cons c cs)
  show ?case unfolding foldl_Cons Cons.IH by (cases "dk_Status c") (simp_all add: addCheck_def Let_def)
qed simp

lemma first_unsupported_None: "first_unsupported i ps = None \<longleftrightarrow> list_all (\<lambda>p. IsSupported (dp_Type p)) ps"
  by (induction i ps rule: first_unsupported.induct) auto

lemma status_partition:
  "length (filter (\<lambda>c. dk_Status c = doctorPass) cs) + length (filter (\<lambda>c. dk_Status c = doctorWarn) cs)
   + length (filter (\<lambda>c. dk_Status c = doctorError) cs) + length (filter (\<lambda>c. dk_Status c = doctorSkip) cs) = length cs"
  by (induction cs) (auto split: if_splits intro: doctorStatus.exhaust)

text \<open>The check of the configuration is the only one under its id.\<close>

lemma check_ids:
  "dk_ID (checkPathStatus fs i p d) = i" "dk_ID (checkConfigDBProxies cfg) = ''dbproxy.config''"
  "dk_ID (checkExternalTool ex args) = ''tool.'' @ hd args" "dk_ID (checkDockerCompose ex) = ''tool.dockerCompose''"
  "dk_ID (checkListenAddrAvailable l a) = ''e2e.port.'' @ ReplaceAll a '':'' ''_''"
  by (simp_all add: checkPathStatus_def checkConfigDBProxies_def checkExternalTool_def checkDockerCompose_def checkListenAddrAvailable_def
      Let_def split: option.split)

lemma doctor_checks_valid:
  "(\<exists>c\<in>set (doctor_checks w fs opts p (cfg, ex, err) dd ld). dk_ID c = ''config.valid'' \<and> dk_Status c = doctorPass)
     \<longleftrightarrow> err = None \<and> Validate (dw_low w) (Some cfg) = None"
  by (auto simp: doctor_checks_def check_ids split: option.split)

lemma report_checks:
  assumes "buildDoctorReport w fs opts = Inr report" "do_ConfigPath opts = Some p"
  shows "dr_DataDir report = doctorDataDir w (fst (loadDoctorConfig w fs p))"
    "dr_LogDir report = (if lc_LogDir (cfg_Log (fst (loadDoctorConfig w fs p))) = '''' then JoinPath (dr_DataDir report) [''logs'']
       else dw_resolve w (lc_LogDir (cfg_Log (fst (loadDoctorConfig w fs p)))))"
    "dr_Checks report = doctor_checks w fs opts p (loadDoctorConfig w fs p) (dr_DataDir report) (dr_LogDir report)"
  using assms by (auto simp: buildDoctorReport_def Let_def addCheck_fold)

section \<open>Properties\<close>

text \<open>
  The summary of the diagnosis counts every check once under its state, its verdict is good
  exactly when no check is an error and, in strict mode, none a warning, and the command fails
  exactly when the verdict is bad.
\<close>

theorem doctor_verdict:
  assumes "buildDoctorReport w fs \<lparr>do_Format = ToLower (dw_low w) fmt, do_Strict = strict, do_IncludeE2E = e2e, do_ConfigPath = cfgFile\<rparr> = Inr report"
    and "ToLower (dw_low w) fmt \<in> {'''', ''terminal'', ''json''}" and "dw_encodes w report"
  shows "(let s = dr_Summary report; cs = dr_Checks report
     in dm_Pass s + dm_Warn s + dm_Error s + dm_Skip s = length cs
        \<and> dm_Error s = length (filter (\<lambda>c. dk_Status c = doctorError) cs)
        \<and> dm_Warn s = length (filter (\<lambda>c. dk_Status c = doctorWarn) cs)
        \<and> (dm_OK s \<longleftrightarrow> list_all (\<lambda>c. dk_Status c \<noteq> doctorError \<and> (strict \<longrightarrow> dk_Status c \<noteq> doctorWarn)) cs)
        \<and> (snd (runDoctor w fs fmt strict e2e cfgFile) = None \<longleftrightarrow> dm_OK s))"
proof -
  obtain cs where r: "dr_Checks report = cs" "dr_Strict report = strict"
    "dr_Summary report = \<lparr>dm_Pass = length (filter (\<lambda>c. dk_Status c = doctorPass) cs),
       dm_Warn = length (filter (\<lambda>c. dk_Status c = doctorWarn) cs), dm_Error = length (filter (\<lambda>c. dk_Status c = doctorError) cs),
       dm_Skip = length (filter (\<lambda>c. dk_Status c = doctorSkip) cs),
       dm_OK = (length (filter (\<lambda>c. dk_Status c = doctorError) cs) = 0 \<and> (\<not> strict \<or> length (filter (\<lambda>c. dk_Status c = doctorWarn) cs) = 0))\<rparr>"
    using assms(1) by (auto simp: buildDoctorReport_def Let_def addCheck_fold split: sum.splits)
  have "snd (runDoctor w fs fmt strict e2e cfgFile) = None \<longleftrightarrow> dm_OK (dr_Summary report)"
    using assms(2,3) unfolding runDoctor_def Let_def assms(1) by (auto simp: r)
  with r status_partition [of cs] show ?thesis by (auto simp: Let_def filter_empty_conv list_all_iff)
qed


section \<open>Instances\<close>

definition demo_dw :: doctor_world where
  "demo_dw =
     \<lparr>dw_json = demo_config_codec, dw_partial = (\<lambda>d. DefaultConfig), dw_low = id, dw_resolve = (\<lambda>s. [s]), dw_home = None,
      dw_version = ''0.1.0'', dw_commit = ''dev'', dw_buildDate = ''unknown'',
      dw_exec = runDoctorExternalCommand (\<lambda>n. Some ''not found'') (\<lambda>args. ('''', None)), dw_listen = (\<lambda>a. None),
      dw_encodes = (\<lambda>r. True)\<rparr>"

definition demo_doctor_fs :: fs where
  "demo_doctor_fs = [([], Dir), ([''h''], Dir), ([''h'', ''config.json''], File ''info'')]"

lemma demo_doctor_report:
  "\<exists>report. buildDoctorReport demo_dw fs \<lparr>do_Format = f, do_Strict = s, do_IncludeE2E = e, do_ConfigPath = Some p\<rparr> = Inr report"
  by (simp add: buildDoctorReport_def Let_def)

theorem doctor_verdict_witness:
  "\<exists>report. buildDoctorReport demo_dw demo_doctor_fs
       \<lparr>do_Format = ''json'', do_Strict = True, do_IncludeE2E = True, do_ConfigPath = Some [''h'', ''config.json'']\<rparr> = Inr report
     \<and> (snd (runDoctor demo_dw demo_doctor_fs ''json'' True True (Some [''h'', ''config.json''])) = None \<longleftrightarrow> dm_OK (dr_Summary report))"
proof -
  have l: "ToLower (dw_low demo_dw) ''json'' = ''json''" by (simp add: ToLower_def is_ascii_def lower_char_def)
  obtain report where r: "buildDoctorReport demo_dw demo_doctor_fs
       \<lparr>do_Format = ''json'', do_Strict = True, do_IncludeE2E = True, do_ConfigPath = Some [''h'', ''config.json'']\<rparr> = Inr report"
    using demo_doctor_report by blast
  have "dw_encodes demo_dw report" by (simp add: demo_dw_def)
  with doctor_verdict [of demo_dw demo_doctor_fs "''json''" True True "Some [''h'', ''config.json'']" report, unfolded l] r
  show ?thesis by (auto simp: Let_def)
qed


end
