(* ===== verification/Pid_File.thy ===== *)
theory Pid_File
  imports Go_Unicode File_System
begin

text \<open>
  The process id files of background recordings (\<^verbatim>\<open>internal/daemon/pidfile.go\<close>). Whether a process
  is alive is an argument: \<^verbatim>\<open>isProcessAlive\<close> asks the operating system.
\<close>

datatype pid_error = ReadPidfile fs_error | ParsePidfile

text \<open>
  \<^verbatim>\<open>os.Remove\<close>: a file or an empty directory goes; a directory that is not empty stays, with an
  error that \<^verbatim>\<open>os.IsNotExist\<close> does not accept.
\<close>

definition Remove :: "fs \<Rightarrow> path \<Rightarrow> fs_error + fs" where
  "Remove fs p =
     (case map_of fs p of
        None \<Rightarrow> Inl (missing fs p)
      | Some (File x) \<Rightarrow> Inr (filter (\<lambda>(q, n). q \<noteq> p) fs)
      | Some Dir \<Rightarrow>
          if list_all (\<lambda>(q, n). \<not> strict_prefix p q) fs then Inr (filter (\<lambda>(q, n). q \<noteq> p) fs)
          else Inl (IsDirectory p))"

definition PIDFilePath :: "path \<Rightarrow> path" where
  "PIDFilePath sessionDir = JoinPath sessionDir [''pidfile'']"

definition WritePID :: "fs \<Rightarrow> path \<Rightarrow> int \<Rightarrow> fs_error + fs" where
  "WritePID fs sessionDir pid = WriteFile fs (PIDFilePath sessionDir) (Itoa pid)"

definition ReadPID :: "fs \<Rightarrow> path \<Rightarrow> pid_error + int" where
  "ReadPID fs sessionDir =
     (case ReadFile fs (PIDFilePath sessionDir) of
        Inl err \<Rightarrow> Inl (ReadPidfile err)
      | Inr data \<Rightarrow>
          (case Atoi (TrimSpace data) of
             None \<Rightarrow> Inl ParsePidfile
           | Some pid \<Rightarrow> Inr pid))"

definition RemovePID :: "fs \<Rightarrow> path \<Rightarrow> fs \<times> fs_error option" where
  "RemovePID fs sessionDir =
     (case Remove fs (PIDFilePath sessionDir) of
        Inr fs' \<Rightarrow> (fs', None)
      | Inl err \<Rightarrow> if IsNotExist err then (fs, None) else (fs, Some err))"

definition IsRunning :: "(int \<Rightarrow> bool) \<Rightarrow> fs \<Rightarrow> path \<Rightarrow> bool" where
  "IsRunning isProcessAlive fs sessionDir =
     (case ReadPID fs sessionDir of
        Inl err \<Rightarrow> False
      | Inr pid \<Rightarrow> isProcessAlive pid)"

section \<open>Facts\<close>

lemma map_of_filter_path: "map_of (filter (\<lambda>(q, n). q \<noteq> p) fs) q = (if q = p then None else map_of fs q)"
  by (induction fs) auto

lemma RemovePID_map_of:
  assumes "\<And>x. map_of fs (PIDFilePath d) \<noteq> Some Dir"
  shows "map_of (fst (RemovePID fs d)) q = (if q = PIDFilePath d then None else map_of fs q)"
  using assms
  by (cases "map_of fs (PIDFilePath d)") (auto simp: RemovePID_def Remove_def map_of_filter_path split: node.splits if_splits)

lemma ReadPID_gone: "map_of fs (PIDFilePath d) = None \<Longrightarrow> \<exists>e. ReadPID fs d = Inl e"
  by (simp add: ReadPID_def ReadFile_def)

lemma is_digit_plain: "is_digit c \<Longrightarrow> is_ascii c \<and> \<not> is_space c"
  by (auto simp: is_digit_def is_ascii_def is_space_def IsSpace_def)

lemma Itoa_chars: "c \<in> set (Itoa i) \<Longrightarrow> is_ascii c \<and> \<not> is_space c"
  using nat_str_digits [of "nat i"] nat_str_digits [of "nat (- i)"] is_digit_plain
  by (auto simp: Itoa_def list_all_iff is_ascii_def is_space_def IsSpace_def split: if_splits)

lemma TrimSpace_Itoa: "TrimSpace (Itoa i) = Itoa i"
proof -
  have "dropWhile is_space (Itoa i) = Itoa i" "dropWhile is_space (rev (Itoa i)) = rev (Itoa i)"
    using Itoa_chars [of _ i] hd_in_set [of "rev (Itoa i)"] hd_in_set [of "Itoa i"] by (auto simp: dropWhile_eq_self_iff)
  moreover have "list_all is_ascii (Itoa i)" using Itoa_chars [of _ i] by (auto simp: list_all_iff)
  ultimately show ?thesis by (simp add: TrimSpace_ascii)
qed

lemma WritePID_ReadPID:
  assumes "WritePID fs d pid = Inr fs'" "- (2 ^ 63) \<le> pid" "pid < 2 ^ 63"
  shows "ReadPID fs' d = Inr pid"
  using assms ReadFile_WriteFile [of fs "PIDFilePath d" "Itoa pid" fs']
  by (simp add: WritePID_def ReadPID_def TrimSpace_Itoa Atoi_Itoa)

section \<open>Properties\<close>

text \<open>
  The pidfile: the id that is written to a session directory is the one read back, the process
  counts as running exactly while it is alive, and once the file is removed it does not.
\<close>

theorem pidfile_roundtrip:
  assumes "WritePID fs d pid = Inr fs'" and "- (2 ^ 63) \<le> pid" and "pid < 2 ^ 63"
  shows "ReadPID fs' d = Inr pid \<and> (IsRunning alive fs' d \<longleftrightarrow> alive pid)
     \<and> (\<exists>fs''. RemovePID fs' d = (fs'', None) \<and> \<not> IsRunning alive fs'' d
          \<and> (\<forall>q. q \<noteq> PIDFilePath d \<longrightarrow> map_of fs'' q = map_of fs q))"
proof -
  have r: "ReadPID fs' d = Inr pid" by (rule WritePID_ReadPID [OF assms])
  have fs': "fs' = put (PIDFilePath d) (File (Itoa pid)) fs" using assms(1) by (simp add: WritePID_def WriteFile_Inr)
  then have here: "map_of fs' (PIDFilePath d) = Some (File (Itoa pid))" by simp
  let ?fs = "filter (\<lambda>(q, n). q \<noteq> PIDFilePath d) fs'"
  have rm: "RemovePID fs' d = (?fs, None)" using here by (simp add: RemovePID_def Remove_def)
  have "map_of ?fs (PIDFilePath d) = None" by (simp add: map_of_filter_path)
  from ReadPID_gone [OF this] have "\<not> IsRunning alive ?fs d" by (auto simp: IsRunning_def)
  moreover have "map_of ?fs q = map_of fs q" if "q \<noteq> PIDFilePath d" for q
    using that fs' by (simp add: map_of_filter_path)
  ultimately show ?thesis using r rm by (auto simp: IsRunning_def)
qed

theorem pidfile_roundtrip_witness:
  "ReadPID (put [''d'', ''pidfile''] (File (Itoa 4711)) [([], Dir), ([''d''], Dir)]) [''d''] = Inr 4711"
proof -
  have "PIDFilePath [''d''] = [''d'', ''pidfile'']" by (simp add: PIDFilePath_def JoinPath_def)
  then have "WritePID [([], Dir), ([''d''], Dir)] [''d''] 4711
      = Inr (put [''d'', ''pidfile''] (File (Itoa 4711)) [([], Dir), ([''d''], Dir)])"
    by (simp add: WritePID_def WriteFile_def parent_def)
  from pidfile_roundtrip [OF this] show ?thesis by simp
qed

end
