(* ===== verification/Record_Cmd.thy ===== *)
theory Record_Cmd
  imports Runtime Pid_File Capture_Proxy
begin

text \<open>
  Recording (\<^verbatim>\<open>cmd/record.go\<close>): the command, the parent that starts a background recording, and the
  recording itself in the foreground or in the child process. The operating system (clock, ids,
  processes), the logger, and the HTTP server with everything it serves are arguments; what others
  do to the files while a command runs is an argument too.
\<close>

section \<open>The command\<close>

text \<open>The flags, with those whose being given matters.\<close>

record RecordFlags =
  rf_Target :: string
  rf_Listen :: string
  rf_ListenChanged :: bool
  rf_Session :: string
  rf_DBProxy :: "string list"
  rf_DBProxyChanged :: bool
  rf_Duration :: string
  rf_Daemon :: bool
  rf_DaemonChild :: bool
  rf_CfgFile :: string

datatype record_error =
    RecordDBProxy dbproxy_error
  | CreateStorage storage_error
  | PruneFailed storage_error
  | CreateSession storage_error
  | NoExecutable
  | DaemonLog fs_error
  | StartDaemon
  | WritePidfile fs_error
  | LoggerInit
  | LoadSession storage_error
  | InvalidDuration
  | HooksFailed start_error
  | ProxyFailed

text \<open>\<open>nowText\<close> is the time as \<^verbatim>\<open>Format("20060102-150405")\<close> prints it.\<close>

definition record_session_of :: "string \<Rightarrow> RecordFlags \<Rightarrow> bool \<Rightarrow> Session" where
  "record_session_of nowText flags daemonMode =
     (let sessionName = (if rf_Session flags = '''' then ''record-'' @ nowText else rf_Session flags)
      in \<lparr>sess_ID = '''', sess_Name = sessionName, sess_Description = '''',
          sess_Source = \<lparr>ep_BaseURL = rf_Target flags, ep_Headers = []\<rparr>,
          sess_Target = \<lparr>ep_BaseURL = '''', ep_Headers = []\<rparr>, sess_Tags = [], sess_RecordCount = 0,
          sess_CreatedAt = 0, sess_UpdatedAt = 0, sess_Status = SessionRecording, sess_Metadata = [],
          sess_PID = 0, sess_DaemonMode = daemonMode\<rparr>)"

definition buildDaemonChildArgs :: "RecordFlags \<Rightarrow> string \<Rightarrow> DBProxyConfig list \<Rightarrow> string list" where
  "buildDaemonChildArgs flags sessionID dbProxies =
     [''record'', ''--target'', rf_Target flags, ''--listen'', rf_Listen flags, ''--session'', sessionID, ''--_daemon-child'']
     @ (if rf_CfgFile flags \<noteq> '''' then [''--config'', rf_CfgFile flags] else [])
     @ (if rf_Duration flags \<noteq> '''' then [''--duration'', rf_Duration flags] else [])
     @ concat (map (\<lambda>db. [''--db-proxy'', dbproxy_spec db]) dbProxies)"

text \<open>
  What the parent meets: the clock at \<^verbatim>\<open>Create\<close> and at \<^verbatim>\<open>Update\<close>, a generated id, its own executable,
  the process id of a child that starts, and what others, the child among them, do to the files
  between the start and the pidfile and between the pidfile and the update.
\<close>

record parent_world =
  pw_nowText :: string
  pw_uuid :: string
  pw_created :: int
  pw_updated :: int
  pw_executable :: "string option"
  pw_start :: "string \<Rightarrow> string list \<Rightarrow> int option"
  pw_started :: "fs \<Rightarrow> fs"
  pw_written :: "fs \<Rightarrow> fs"

definition runDaemonParent ::
  "json_codec \<Rightarrow> parent_world \<Rightarrow> RecordFlags \<Rightarrow> int \<Rightarrow> fs \<Rightarrow> path \<Rightarrow> DBProxyConfig list \<Rightarrow> fs \<times> (record_error + Session)" where
  "runDaemonParent json w flags maxSessions fs dataDir dbProxies =
     (case NewFileStore fs dataDir of
        Inl e \<Rightarrow> (fs, Inl (CreateStorage e))
      | Inr (fs, store) \<Rightarrow>
          (case PruneOldest json store fs maxSessions of
             (fs, Some e) \<Rightarrow> (fs, Inl (PruneFailed e))
           | (fs, None) \<Rightarrow>
               (case Create json store (pw_uuid w) (pw_created w) fs (record_session_of (pw_nowText w) flags True) of
                  (fs, session, Some e) \<Rightarrow> (fs, Inl (CreateSession e))
                | (fs, session, None) \<Rightarrow>
                    (let sessionDir = JoinPath dataDir [''sessions'', sess_ID session]
                     in case pw_executable w of
                          None \<Rightarrow> (fs, Inl NoExecutable)
                        | Some executable \<Rightarrow>
                            (case AppendFile fs (JoinPath sessionDir [''daemon.log'']) [] of
                               Inl e \<Rightarrow> (fs, Inl (DaemonLog e))
                             | Inr fs \<Rightarrow>
                                 (case pw_start w executable (buildDaemonChildArgs flags (sess_ID session) dbProxies) of
                                    None \<Rightarrow> (fs, Inl StartDaemon)
                                  | Some pid \<Rightarrow>
                                      (let fs = pw_started w fs
                                       in case WritePID fs sessionDir pid of
                                            Inl e \<Rightarrow> (fs, Inl (WritePidfile e))
                                          | Inr fs \<Rightarrow>
                                              (let (fs, session, e) =
                                                     Update json store (pw_updated w) (pw_written w fs) (session\<lparr>sess_PID := pid\<rparr>)
                                               in (fs, Inr session)))))))))"

section \<open>The recording\<close>

text \<open>
  What the recording process meets. \<open>rw_serve\<close> is the time from \<^verbatim>\<open>ListenAndServe\<close> to the end of
  \<^verbatim>\<open>Shutdown\<close>: it takes the files and the recorder to what serving leaves of them.
\<close>

record record_world =
  rw_logger :: bool
  rw_nowText :: string
  rw_newID :: string
  rw_created :: int
  rw_updated :: int
  rw_completed :: int
  rw_pid :: int
  rw_startHook :: "tcpProxy \<Rightarrow> string option"
  rw_parseURL :: "string \<Rightarrow> URL option"
  rw_serve :: "Proxy \<Rightarrow> tcpProxy list \<Rightarrow> FileStore \<Rightarrow> fs \<Rightarrow> Recorder \<Rightarrow> fs \<times> Recorder"

text \<open>The session of the recording: the child loads the one its parent made, the foreground creates one.\<close>

definition open_recording ::
  "json_codec \<Rightarrow> record_world \<Rightarrow> RecordFlags \<Rightarrow> int \<Rightarrow> FileStore \<Rightarrow> fs \<Rightarrow> fs \<times> (record_error + Session)" where
  "open_recording json w flags maxSessions store fs =
     (if rf_DaemonChild flags then
        (case Get json store fs (rf_Session flags) of
           Inl e \<Rightarrow> (fs, Inl (LoadSession e))
         | Inr session \<Rightarrow>
             (let (fs, session, e) = Update json store (rw_updated w) fs (session\<lparr>sess_PID := rw_pid w\<rparr>)
              in (fs, Inr session)))
      else
        (case PruneOldest json store fs maxSessions of
           (fs, Some e) \<Rightarrow> (fs, Inl (PruneFailed e))
         | (fs, None) \<Rightarrow>
             (case Create json store (rw_newID w) (rw_created w) fs (record_session_of (rw_nowText w) flags False) of
                (fs, session, Some e) \<Rightarrow> (fs, Inl (CreateSession e))
              | (fs, session, None) \<Rightarrow> (fs, Inr session))))"

text \<open>
  From the recorder on. The hooks are stopped on every way out, and the recorder after the session
  has been updated; neither touches the files.
\<close>

definition record_into ::
  "json_codec \<Rightarrow> record_world \<Rightarrow> RecordFlags \<Rightarrow> CaptureConfig \<Rightarrow> DBProxyConfig list \<Rightarrow> FileStore \<Rightarrow> fs \<Rightarrow> Session
     \<Rightarrow> fs \<times> record_error option" where
  "record_into json w flags cfg dbProxies store fs session =
     (let recorder = NewRecorder (sess_ID session)
      in if rf_Duration flags \<noteq> '''' \<and> ParseDuration (rf_Duration flags) = None then (fs, Some InvalidDuration)
         else case fst (startDBHooks (rw_startHook w) dbProxies) of
                Inl e \<Rightarrow> (fs, Some (HooksFailed e))
              | Inr hooks \<Rightarrow>
                  (case NewProxy (rw_parseURL w (rf_Target flags)) (cc_MaxBodySize cfg) (cc_ExcludePaths cfg) of
                     None \<Rightarrow> (fs, Some ProxyFailed)
                   | Some proxy \<Rightarrow>
                       (let (fs, recorder) = rw_serve w proxy hooks store fs recorder;
                            session = session\<lparr>sess_Status := SessionCompleted, sess_RecordCount := rcd_count recorder, sess_PID := 0\<rparr>;
                            (fs, session, e) = Update json store (rw_completed w) fs session
                        in (fs, None))))"

definition runRecordLoop ::
  "json_codec \<Rightarrow> record_world \<Rightarrow> RecordFlags \<Rightarrow> AppConfig \<Rightarrow> fs \<Rightarrow> path \<Rightarrow> DBProxyConfig list \<Rightarrow> fs \<times> record_error option" where
  "runRecordLoop json w flags cfg fs dataDir dbProxies =
     (if \<not> rw_logger w then (fs, Some LoggerInit)
      else case NewFileStore fs dataDir of
             Inl e \<Rightarrow> (fs, Some (CreateStorage e))
           | Inr (fs, store) \<Rightarrow>
               (case open_recording json w flags (stc_MaxSessions (cfg_Storage cfg)) store fs of
                  (fs, Inl e) \<Rightarrow> (fs, Some e)
                | (fs, Inr session) \<Rightarrow>
                    (let (fs, e) = record_into json w flags (cfg_Capture cfg) dbProxies store fs session
                     in (if rf_DaemonChild flags then fst (RemovePID fs (JoinPath dataDir [''sessions'', sess_ID session])) else fs,
                         e))))"

text \<open>The command chooses between the two.\<close>

definition runRecord ::
  "json_codec \<Rightarrow> parent_world \<Rightarrow> record_world \<Rightarrow> RecordFlags \<Rightarrow> appRuntime \<Rightarrow> fs \<Rightarrow> fs \<times> record_error option" where
  "runRecord json pw w flags rt fs =
     (let cfg = rt_Config rt;
          flags = flags\<lparr>rf_Listen := effectiveString (rf_ListenChanged flags) (rf_Listen flags) (cc_ListenAddr (cfg_Capture cfg))\<rparr>
      in case resolveRecordDBProxies (rf_DBProxyChanged flags) (rf_DBProxy flags) cfg of
           Inl e \<Rightarrow> (fs, Some (RecordDBProxy e))
         | Inr dbProxies \<Rightarrow>
             if rf_Daemon flags then
               (case runDaemonParent json pw flags (stc_MaxSessions (cfg_Storage cfg)) fs (rt_DataDir rt) dbProxies of
                  (fs, Inl e) \<Rightarrow> (fs, Some e)
                | (fs, Inr session) \<Rightarrow> (fs, None))
             else runRecordLoop json w flags cfg fs (rt_DataDir rt) dbProxies)"

section \<open>What serving leaves in the store\<close>

lemma AppendRecord_eval:
  assumes inv: "store_inv st fs" and dir: "map_of fs (store_baseDir st @ [sid]) = Some Dir"
  defines "p \<equiv> store_baseDir st @ [sid, ''records.jsonl'']"
  defines "old \<equiv> (case map_of fs p of Some (File data) \<Rightarrow> data | _ \<Rightarrow> [])"
  shows "AppendRecord json st fs sid r =
     (case marshalRecord json r of
        None \<Rightarrow> (put p (File old) fs, Some MarshalError)
      | Some d \<Rightarrow> (put p (File (old @ d @ [CHR 0x0A])) (put p (File old) fs), None))"
proof -
  have f: "''records.jsonl'' \<in> set store_files" by (simp add: store_files_def)
  have plain: "plain_name sid" by (rule store_inv_nodes(2) [OF inv dir])
  have path: "JoinPath (store_baseDir st) [sid, ''records.jsonl''] = p"
    using inv plain plain_store_file [OF f] by (simp add: store_path(2) p_def)
  note w = WriteFile_session [OF inv dir f]
  have nd: "map_of fs p \<noteq> Some Dir" using store_inv_nodes(3) [OF inv f] by (simp add: p_def)
  have a1: "AppendFile fs p [] = Inr (put p (File old) fs)"
    using nd w(1) by (auto simp: AppendFile_def old_def p_def [symmetric] split: option.splits node.splits)
  have a2: "AppendFile (put p (File old) fs) p d = Inr (put p (File (old @ d)) (put p (File old) fs))" for d
    using WriteFile_session(1) [OF w(2) _ f] dir by (simp add: AppendFile_def p_def)
  show ?thesis by (simp add: AppendRecord_def appendRecord_def path Let_def a1 a2 split: option.split)
qed

text \<open>The records in the file are as many as the recorder has counted, and nothing else has changed.\<close>

definition record_lines :: "json_codec \<Rightarrow> Record list \<Rightarrow> bytes" where
  "record_lines json rs = concat (map (\<lambda>r. the (marshalRecord json r) @ [CHR 0x0A]) rs)"

definition serve_inv :: "json_codec \<Rightarrow> FileStore \<Rightarrow> string \<Rightarrow> fs \<Rightarrow> rsys \<Rightarrow> bool" where
  "serve_inv json st sid fs0 y \<longleftrightarrow>
     store_inv st (y_fs y) \<and> map_of (y_fs y) (store_baseDir st @ [sid]) = Some Dir \<and> rcd_sessionID (y_rec y) = sid
     \<and> (\<forall>q. q \<noteq> store_baseDir st @ [sid, ''records.jsonl''] \<longrightarrow> map_of (y_fs y) q = map_of fs0 q)
     \<and> (\<exists>rs. int (length rs) = rcd_count (y_rec y) \<and> list_all (\<lambda>r. rec_SessionID r = sid \<and> marshalRecord json r \<noteq> None) rs
          \<and> (case map_of (y_fs y) (store_baseDir st @ [sid, ''records.jsonl'']) of Some (File data) \<Rightarrow> data = record_lines json rs | _ \<Rightarrow> rs = []))"

lemma serve_inv_persist:
  assumes inv: "serve_inv json st sid fs0 y" and sid: "rcd_sessionID r = sid" "rcd_count r = rcd_count (y_rec y)"
    and p: "persistRecord json st (y_fs y) r rc = (fs', r', rc', e)"
    and y': "y_rec y' = r'" "y_fs y' = fs'"
  shows "serve_inv json st sid fs0 y'"
proof -
  let ?p = "store_baseDir st @ [sid, ''records.jsonl'']" and ?rc = "rc\<lparr>rec_SessionID := sid\<rparr>"
  define old where "old = (case map_of (y_fs y) ?p of Some (File data) \<Rightarrow> data | _ \<Rightarrow> [])"
  have s: "store_inv st (y_fs y)" "map_of (y_fs y) (store_baseDir st @ [sid]) = Some Dir"
    "\<And>q. q \<noteq> ?p \<Longrightarrow> map_of (y_fs y) q = map_of fs0 q"
    using inv by (simp_all add: serve_inv_def)
  obtain rs where rs: "int (length rs) = rcd_count (y_rec y)"
      "list_all (\<lambda>r. rec_SessionID r = sid \<and> marshalRecord json r \<noteq> None) rs"
    and data: "(case map_of (y_fs y) ?p of Some (File data) \<Rightarrow> data = record_lines json rs | _ \<Rightarrow> rs = [])"
    using inv by (auto simp: serve_inv_def)
  have old: "old = record_lines json rs"
    using data store_inv_nodes(3) [OF s(1), of "''records.jsonl''" sid]
    by (auto simp: old_def record_lines_def store_files_def split: option.splits node.splits)
  note app = AppendRecord_eval [OF s(1,2), of json ?rc, folded old_def]
  have f: "''records.jsonl'' \<in> set store_files" by (simp add: store_files_def)
  note w = WriteFile_session [OF s(1,2) f]
  show ?thesis
  proof (cases "marshalRecord json ?rc")
    case None
    then have r: "r' = r" "fs' = put ?p (File old) (y_fs y)" using p app sid by (simp_all add: persistRecord_def)
    with s rs old sid y' w(2) [of old] show ?thesis by (auto simp: serve_inv_def intro!: exI [of _ rs])
  next
    case (Some d)
    then have r: "r' = r\<lparr>rcd_count := rcd_count r + 1\<rparr>" "fs' = put ?p (File (old @ d @ [CHR 0x0A])) (put ?p (File old) (y_fs y))"
      using p app sid by (simp_all add: persistRecord_def)
    have "store_inv st fs'"
      unfolding r(2) using WriteFile_session(2) [OF w(2) _ f] s(2) by simp
    with s rs old sid y' r Some show ?thesis
      by (auto simp: serve_inv_def record_lines_def intro!: exI [of _ "rs @ [?rc]"])
  qed
qed

lemma serve_inv_step:
  assumes "rec_step json st y y'" "serve_inv json st sid fs0 y"
  shows "serve_inv json st sid fs0 y'"
  using assms
proof cases
  case (Finish ws k rc ws' v r rc1 fs' r' rc2 e)
  have "rcd_sessionID r = sid" "rcd_count r = rcd_count (y_rec y)"
    using Finish(4) assms(2) by (auto simp: take_scope_def serve_inv_def split: option.splits)
  then show ?thesis using serve_inv_persist [OF assms(2) _ _ Finish(5), of y'] Finish(1) by simp
next
  case (Close k rc r)
  then show ?thesis using assms(2) by (auto simp: close_scope_def serve_inv_def split: option.splits)
qed (simp_all add: serve_inv_def begin_simps Let_def)

lemma serve_inv_run: "rec_run json st y y' \<Longrightarrow> serve_inv json st sid fs0 y \<Longrightarrow> serve_inv json st sid fs0 y'"
  by (induction rule: rtranclp_induct) (auto intro: serve_inv_step)

lemma serve_inv_init:
  assumes "store_inv st fs" "map_of fs (store_baseDir st @ [sid]) = Some Dir" "map_of fs (store_baseDir st @ [sid, ''records.jsonl'']) = None"
  shows "serve_inv json st sid fs (rec_init sid fs)"
  using assms by (auto simp: serve_inv_def rec_init_def NewRecorder_def intro!: exI [of _ "[]"])

section \<open>Sessions on the way\<close>

lemma pid_path:
  assumes "clean_path (JoinPath dataDir [''sessions''])" "plain_name sid"
  shows "JoinPath dataDir [''sessions'', sid] = JoinPath dataDir [''sessions''] @ [sid]"
    and "PIDFilePath (JoinPath dataDir [''sessions'', sid]) = JoinPath dataDir [''sessions''] @ [sid, ''pidfile'']"
proof -
  show p: "JoinPath dataDir [''sessions'', sid] = JoinPath dataDir [''sessions''] @ [sid]"
    by (rule JoinPath_below) (use assms in \<open>simp add: clean_path_def\<close>)
  have "clean_path (JoinPath dataDir [''sessions''] @ [sid])" using assms by (simp add: clean_path_def)
  from JoinPath_twice [OF this, of "''pidfile''"]
  show "PIDFilePath (JoinPath dataDir [''sessions'', sid]) = JoinPath dataDir [''sessions''] @ [sid, ''pidfile'']"
    by (simp add: p PIDFilePath_def plain_name_def)
qed

text \<open>
  A recording into a session that is there: the session ends completed with the number of records
  that the file of records holds.
\<close>

definition completed :: "Session \<Rightarrow> int \<Rightarrow> int \<Rightarrow> Session" where
  "completed session now n =
     session\<lparr>sess_Status := SessionCompleted, sess_RecordCount := n, sess_PID := 0, sess_UpdatedAt := now\<rparr>"

definition can_record :: "record_world \<Rightarrow> RecordFlags \<Rightarrow> DBProxyConfig list \<Rightarrow> bool" where
  "can_record w flags dbProxies \<longleftrightarrow>
     (rf_Duration flags = '''' \<or> ParseDuration (rf_Duration flags) \<noteq> None)
     \<and> list_all (hook_starts (rw_startHook w)) dbProxies \<and> rw_parseURL w (rf_Target flags) \<noteq> None"

lemma record_into_completes:
  assumes inv: "store_inv st fs" and dir: "map_of fs (store_baseDir st @ [sess_ID s]) = Some Dir"
    and none: "map_of fs (store_baseDir st @ [sess_ID s, ''records.jsonl'']) = None"
    and can: "can_record w flags dbProxies"
    and serve: "\<And>proxy hooks. \<exists>y. rec_run json st (rec_init (sess_ID s) fs) y
        \<and> rw_serve w proxy hooks st fs (NewRecorder (sess_ID s)) = (y_fs y, y_rec y)"
    and ok: "\<And>n. session_ok json (completed s (rw_completed w) (int n))"
  obtains fs' d rs where "record_into json w flags cfg dbProxies st fs s = (fs', None)"
    "map_of fs' (store_baseDir st @ [sess_ID s, ''session.json'']) = Some (File d)"
    "unmarshalSession json d = Some (completed s (rw_completed w) (int (length rs)))"
    "list_all (\<lambda>r. rec_SessionID r = sess_ID s \<and> marshalRecord json r \<noteq> None) rs"
    "(case map_of fs' (store_baseDir st @ [sess_ID s, ''records.jsonl'']) of Some (File data) \<Rightarrow> data = record_lines json rs | _ \<Rightarrow> rs = [])"
    "\<And>q. q \<noteq> store_baseDir st @ [sess_ID s, ''session.json''] \<Longrightarrow> q \<noteq> store_baseDir st @ [sess_ID s, ''records.jsonl'']
       \<Longrightarrow> map_of fs' q = map_of fs q"
    "store_inv st fs'"
proof -
  let ?hooks = "map hook_of dbProxies"
  obtain u where u: "rw_parseURL w (rf_Target flags) = Some u" using can by (auto simp: can_record_def)
  then obtain proxy where px: "NewProxy (rw_parseURL w (rf_Target flags)) (cc_MaxBodySize cfg) (cc_ExcludePaths cfg) = Some proxy"
    by (simp add: NewProxy_def)
  have hooks: "startDBHooks (rw_startHook w) dbProxies = (Inr ?hooks, [])"
    using start_hooks_spec [of "rw_startHook w" dbProxies "[]"] can by (simp add: startDBHooks_def can_record_def)
  obtain y where run: "rec_run json st (rec_init (sess_ID s) fs) y"
    and sv: "rw_serve w proxy ?hooks st fs (NewRecorder (sess_ID s)) = (y_fs y, y_rec y)"
    using serve by blast
  from serve_inv_run [OF run serve_inv_init [OF inv dir none]] obtain rs where
    y: "store_inv st (y_fs y)" "map_of (y_fs y) (store_baseDir st @ [sess_ID s]) = Some Dir"
      "\<And>q. q \<noteq> store_baseDir st @ [sess_ID s, ''records.jsonl''] \<Longrightarrow> map_of (y_fs y) q = map_of fs q"
    and rs: "int (length rs) = rcd_count (y_rec y)"
      "list_all (\<lambda>r. rec_SessionID r = sess_ID s \<and> marshalRecord json r \<noteq> None) rs"
      "case map_of (y_fs y) (store_baseDir st @ [sess_ID s, ''records.jsonl'']) of Some (File data) \<Rightarrow> data = record_lines json rs | _ \<Rightarrow> rs = []"
    unfolding serve_inv_def by blast
  let ?s = "s\<lparr>sess_Status := SessionCompleted, sess_RecordCount := int (length rs), sess_PID := 0\<rparr>"
  have s: "?s\<lparr>sess_UpdatedAt := rw_completed w\<rparr> = completed s (rw_completed w) (int (length rs))" "sess_ID ?s = sess_ID s"
    by (simp_all add: completed_def)
  obtain d where upd: "Update json st (rw_completed w) (y_fs y) ?s
      = (put (store_baseDir st @ [sess_ID s, ''session.json'']) (File d) (y_fs y), completed s (rw_completed w) (int (length rs)), None)"
    and d: "unmarshalSession json d = Some (completed s (rw_completed w) (int (length rs)))"
    and inv': "store_inv st (put (store_baseDir st @ [sess_ID s, ''session.json'']) (File d) (y_fs y))"
    using Update_at [of st "y_fs y" json "rw_completed w" ?s] y(1,2) ok s by metis
  have "record_into json w flags cfg dbProxies st fs s
      = (put (store_baseDir st @ [sess_ID s, ''session.json'']) (File d) (y_fs y), None)"
    using can upd rs(1) by (auto simp: record_into_def Let_def hooks px sv can_record_def)
  with that [of _ d rs] rs(2,3) d y(3) inv' show thesis by simp
qed

section \<open>Properties\<close>


lemma record_into_fails:
  assumes "\<not> can_record w flags dbProxies"
  shows "\<exists>e. record_into json w flags cfg dbProxies st fs s = (fs, Some e)"
proof (cases "rf_Duration flags \<noteq> '''' \<and> ParseDuration (rf_Duration flags) = None")
  case dur: False
  show ?thesis
  proof (cases "list_all (hook_starts (rw_startHook w)) dbProxies")
    case True
    with start_hooks_spec [of "rw_startHook w" dbProxies "[]"] assms dur show ?thesis
      by (auto simp: record_into_def startDBHooks_def can_record_def NewProxy_def)
  next
    case False
    with start_hooks_spec [of "rw_startHook w" dbProxies "[]"] obtain e where
      "fst (startDBHooks (rw_startHook w) dbProxies) = Inl e" by (auto simp: startDBHooks_def)
    with dur show ?thesis by (simp add: record_into_def)
  qed
qed (simp add: record_into_def)

text \<open>
  A recording that cannot start once its session exists: with a duration that does not parse, a
  database hook that does not start or a target that is no URL, the command fails, and the session
  that it created before stays in the store as a recording, which nobody records into.
\<close>

theorem failed_start_keeps_recording:
  assumes "NewFileStore fs dataDir = Inr (fs0, st)" and "PruneOldest json st fs0 (stc_MaxSessions (cfg_Storage cfg)) = (fsp, None)"
    and "store_inv st fsp" and "\<not> rf_DaemonChild flags" and "rw_logger w" and "\<not> can_record w flags dbProxies"
    and s: "s = fill_session (rw_newID w) (rw_created w) (record_session_of (rw_nowText w) flags False)" and "session_ok json s"
  shows "\<exists>fs' e. runRecordLoop json w flags cfg fs dataDir dbProxies = (fs', Some e)
     \<and> Get json st fs' (sess_ID s) = Inr s \<and> sess_Status s = SessionRecording"
proof -
  obtain fs' where create: "Create json st (rw_newID w) (rw_created w) fsp (record_session_of (rw_nowText w) flags False) = (fs', s, None)"
    and "session_map json st fs' (sess_ID s) = Some s"
    using Create_spec [OF assms(3), of json "rw_newID w" "rw_created w"] assms(8) unfolding s by fastforce
  then have "Get json st fs' (sess_ID s) = Inr s" by (auto simp: session_map_def split: if_splits sum.splits)
  moreover obtain e where "record_into json w flags (cfg_Capture cfg) dbProxies st fs' s = (fs', Some e)"
    using record_into_fails [OF assms(6)] by blast
  moreover have "sess_Status s = SessionRecording" by (simp add: s fill_session_def Let_def record_session_of_def)
  ultimately show ?thesis using assms(1,2,4,5) create by (simp add: runRecordLoop_def open_recording_def)
qed

lemma Create_frame:
  assumes inv: "store_inv st fs" and create: "Create json st uuid now fs s0 = (fs', s', None)"
    and "session_ok json (fill_session uuid now s0)"
    and q: "q \<noteq> store_baseDir st @ [sess_ID (fill_session uuid now s0)]"
      "q \<noteq> store_baseDir st @ [sess_ID (fill_session uuid now s0), ''session.json'']"
  shows "map_of fs' q = map_of fs q"
proof -
  let ?sid = "sess_ID (fill_session uuid now s0)"
  have plain: "plain_name ?sid" using assms(3) by (simp add: session_ok_def)
  obtain fs1 d where mk: "MkdirAll fs [] (store_baseDir st @ [?sid]) = Inr fs1"
    and w: "WriteFile fs1 (store_baseDir st @ [?sid, ''session.json'']) d = Inr fs'"
    using create plain by (auto simp: Create_def Let_def saveSession_def store_path [OF inv] split: sum.splits option.splits prod.splits)
  from store_inv_MkdirAll(3) [OF inv mk plain q(1)] WriteFile_Inr [OF w] q show ?thesis by simp
qed

lemma AppendFile_session:
  assumes "map_of fs (base @ [sid]) = Some Dir" "map_of fs (base @ [sid, f]) \<noteq> Some Dir"
  shows "\<exists>old. AppendFile fs (base @ [sid, f]) [] = Inr (put (base @ [sid, f]) (File old) fs)"
  using assms WriteFile_ok [of fs "base @ [sid, f]"]
  by (auto simp: AppendFile_def parent_def butlast_append split: option.split node.split)

definition keeps_store :: "FileStore \<Rightarrow> string \<Rightarrow> (fs \<Rightarrow> fs) \<Rightarrow> bool" where
  "keeps_store st sid f \<longleftrightarrow>
     (\<forall>fs. store_inv st fs \<and> map_of fs (store_baseDir st @ [sid]) = Some Dir
        \<and> map_of fs (store_baseDir st @ [sid, ''pidfile'']) \<noteq> Some Dir \<longrightarrow>
        store_inv st (f fs) \<and> map_of (f fs) (store_baseDir st @ [sid]) = Some Dir
        \<and> map_of (f fs) (store_baseDir st @ [sid, ''pidfile'']) \<noteq> Some Dir)"

text \<open>
  C18. Starting in the background: the parent succeeds when the child can be started, whatever the
  child and others do to the files meanwhile as long as the store stays a store; the session is then
  stored as the parent made it, recording and with the id of the child. What the child has written
  into the session until then is overwritten.
\<close>

theorem daemon_parent_starts:
  assumes store: "NewFileStore fs dataDir = Inr (fs0, st)" "PruneOldest json st fs0 maxSessions = (fsp, None)" "store_inv st fsp"
    and s: "s = fill_session (pw_uuid w) (pw_created w) (record_session_of (pw_nowText w) flags True)"
      "s' = s\<lparr>sess_PID := pid, sess_UpdatedAt := pw_updated w\<rparr>" "session_ok json s" "session_ok json s'"
    and child: "pw_executable w = Some exe" "pw_start w exe (buildDaemonChildArgs flags (sess_ID s) dbProxies) = Some pid"
    and files: "map_of fsp (store_baseDir st @ [sess_ID s, ''daemon.log'']) \<noteq> Some Dir"
      "map_of fsp (store_baseDir st @ [sess_ID s, ''pidfile'']) \<noteq> Some Dir"
    and others: "keeps_store st (sess_ID s) (pw_started w)" "keeps_store st (sess_ID s) (pw_written w)"
  shows "\<exists>fs'. runDaemonParent json w flags maxSessions fs dataDir dbProxies = (fs', Inr s') \<and> Get json st fs' (sess_ID s) = Inr s'
     \<and> sess_Status s' = SessionRecording \<and> sess_RecordCount s' = 0"
proof -
  let ?sid = "sess_ID s"
  have base: "store_baseDir st = JoinPath dataDir [''sessions'']"
    using store by (auto simp: NewFileStore_def Let_def split: sum.splits)
  have clean: "clean_path (store_baseDir st)" using store(3) by (simp add: store_inv_def)
  have plain: "plain_name ?sid" using s(3) by (simp add: session_ok_def)
  note pid = pid_path [OF clean [unfolded base] plain, folded base]
  have log: "JoinPath (JoinPath dataDir [''sessions'', ?sid]) [''daemon.log''] = store_baseDir st @ [?sid, ''daemon.log'']"
    using JoinPath_twice [of "store_baseDir st @ [?sid]" "''daemon.log''"] clean plain
    by (simp add: pid(1) plain_name_def clean_path_def)
  obtain fs1 where create: "Create json st (pw_uuid w) (pw_created w) fsp (record_session_of (pw_nowText w) flags True) = (fs1, s, None)"
    and inv1: "store_inv st fs1" and m: "session_map json st fs1 ?sid = Some s"
    using Create_spec [OF store(3), of json "pw_uuid w" "pw_created w"] s(3) unfolding s(1) by fastforce
  have "Get json st fs1 ?sid = Inr s" using m by (auto simp: session_map_def split: if_splits sum.splits)
  then have dir1: "map_of fs1 (store_baseDir st @ [?sid]) = Some Dir" by (rule Get_dir [OF inv1 plain])
  have frame: "map_of fs1 q = map_of fsp q"
    if "q \<noteq> store_baseDir st @ [?sid]" "q \<noteq> store_baseDir st @ [?sid, ''session.json'']" for q
    using Create_frame [OF store(3) create] s(3) that unfolding s(1) by blast
  let ?log = "store_baseDir st @ [?sid, ''daemon.log'']" and ?pid = "store_baseDir st @ [?sid, ''pidfile'']"
  have nodir: "map_of fs1 ?log \<noteq> Some Dir" "map_of fs1 ?pid \<noteq> Some Dir"
    using files frame by simp_all
  obtain old where app: "AppendFile fs1 ?log [] = Inr (put ?log (File old) fs1)"
    using AppendFile_session [OF dir1 nodir(1)] by blast
  let ?fs2 = "put ?log (File old) fs1"
  have fs2: "store_inv st ?fs2" "map_of ?fs2 (store_baseDir st @ [?sid]) = Some Dir" "map_of ?fs2 ?pid \<noteq> Some Dir"
    using store_inv_put [OF inv1 dir1 nodir(1)] dir1 nodir(2) by simp_all
  let ?fs3 = "pw_started w ?fs2"
  have fs3: "store_inv st ?fs3" "map_of ?fs3 (store_baseDir st @ [?sid]) = Some Dir" "map_of ?fs3 ?pid \<noteq> Some Dir"
    using others(1) fs2 by (simp_all add: keeps_store_def)
  let ?fs4 = "put ?pid (File (Itoa pid)) ?fs3"
  have wp: "WritePID ?fs3 (JoinPath dataDir [''sessions'', ?sid]) pid = Inr ?fs4"
    unfolding WritePID_def pid(2) using fs3 by (intro WriteFile_ok) (auto simp: parent_def butlast_append)
  have fs4: "store_inv st ?fs4" "map_of ?fs4 (store_baseDir st @ [?sid]) = Some Dir" "map_of ?fs4 ?pid \<noteq> Some Dir"
    using store_inv_put [OF fs3(1,2,3)] fs3(2) by simp_all
  let ?fs5 = "pw_written w ?fs4" and ?s = "s\<lparr>sess_PID := pid\<rparr>"
  have fs5: "store_inv st ?fs5" "map_of ?fs5 (store_baseDir st @ [?sid]) = Some Dir"
    using others(2) fs4 by (simp_all add: keeps_store_def)
  obtain d where upd: "Update json st (pw_updated w) ?fs5 ?s = (put (store_baseDir st @ [?sid, ''session.json'']) (File d) ?fs5, s', None)"
    and d: "unmarshalSession json d = Some s'"
    using Update_at [of st ?fs5 json "pw_updated w" ?s] fs5 s(2,4) by auto
  have "runDaemonParent json w flags maxSessions fs dataDir dbProxies
      = (put (store_baseDir st @ [?sid, ''session.json'']) (File d) ?fs5, Inr s')"
    by (simp add: runDaemonParent_def store(1,2) create child log app wp upd Let_def)
  moreover have "Get json st (put (store_baseDir st @ [?sid, ''session.json'']) (File d) ?fs5) ?sid = Inr s'"
    by (rule Get_file [OF fs5(1) plain clean _ d]) simp
  moreover have "sess_Status s' = SessionRecording" "sess_RecordCount s' = 0"
    by (simp_all add: s fill_session_def Let_def record_session_of_def)
  ultimately show ?thesis by blast
qed

section \<open>Instances\<close>

definition demo_flags :: RecordFlags where
  "demo_flags =
     \<lparr>rf_Target = ''http://old'', rf_Listen = '':18080'', rf_ListenChanged = False, rf_Session = ''s1'', rf_DBProxy = [],
      rf_DBProxyChanged = False, rf_Duration = '''', rf_Daemon = False, rf_DaemonChild = True, rf_CfgFile = ''''\<rparr>"

definition demo_rworld :: record_world where
  "demo_rworld =
     \<lparr>rw_logger = True, rw_nowText = ''now'', rw_newID = ''s1'', rw_created = 5, rw_updated = 5, rw_completed = 9, rw_pid = 7,
      rw_startHook = (\<lambda>h. None), rw_parseURL = (\<lambda>u. Some \<lparr>url_Scheme = ''http'', url_Host = u, url_Path = ''''\<rparr>),
      rw_serve = (\<lambda>proxy hooks st fs r. (fs, r))\<rparr>"

definition demo_pworld :: parent_world where
  "demo_pworld =
     \<lparr>pw_nowText = ''now'', pw_uuid = ''s1'', pw_created = 5, pw_updated = 5, pw_executable = Some ''shadiff'',
      pw_start = (\<lambda>exe args. Some 7), pw_started = (\<lambda>fs. fs), pw_written = (\<lambda>fs. fs)\<rparr>"

definition demo_made :: Session where
  "demo_made = fill_session ''s1'' 5 (record_session_of ''now'' demo_flags True)"

definition demo_fore :: Session where
  "demo_fore = fill_session ''s1'' 5 (record_session_of ''now'' demo_flags False)"

definition demo_cmd_json :: json_codec where
  "demo_cmd_json =
     \<lparr>marshalSession = (\<lambda>s. Some (if s = demo_made then ''A'' else if s = demo_fore then ''B''
          else if s = demo_made\<lparr>sess_PID := 7\<rparr> then ''P'' else ''C'' @ replicate (nat (sess_RecordCount s)) (CHR ''x''))),
      unmarshalSession = (\<lambda>d. Some (if d = ''A'' then demo_made else if d = ''B'' then demo_fore
          else if d = ''P'' then demo_made\<lparr>sess_PID := 7\<rparr>
          else completed (demo_made\<lparr>sess_PID := 7\<rparr>) 9 (int (length d - 1)))),
      marshalRecord = (\<lambda>r. Some (rec_ID r)), unmarshalRecord = (\<lambda>d. None),
      marshalResults = (\<lambda>rs. Some ''''), unmarshalResults = (\<lambda>d. Some [])\<rparr>"

lemma demo_session_simps:
  "sess_ID demo_made = ''s1''" "sess_ID demo_fore = ''s1''" "sess_PID demo_made = 0" "sess_UpdatedAt demo_made = 5"
  "sess_Status demo_made = SessionRecording" "sess_Status demo_fore = SessionRecording" "sess_RecordCount demo_made = 0"
  "sess_DaemonMode demo_made = True" "sess_DaemonMode demo_fore = False"
  by (simp_all add: demo_made_def demo_fore_def fill_session_def record_session_of_def Let_def demo_flags_def)

lemma demo_cmd_ok:
  "session_ok demo_cmd_json demo_made" "session_ok demo_cmd_json demo_fore"
  "session_ok demo_cmd_json (demo_made\<lparr>sess_PID := 7\<rparr>)"
  "session_ok demo_cmd_json (completed (demo_made\<lparr>sess_PID := 7\<rparr>) 9 (int n))"
proof -
  have "sess_DaemonMode demo_fore \<noteq> sess_DaemonMode demo_made" "sess_PID (demo_made\<lparr>sess_PID := 7\<rparr>) \<noteq> sess_PID demo_made"
    "sess_DaemonMode (demo_made\<lparr>sess_PID := 7\<rparr>) \<noteq> sess_DaemonMode demo_fore"
    "sess_Status (completed s 9 n) \<noteq> sess_Status demo_made" "sess_Status (completed s 9 n) \<noteq> sess_Status demo_fore"
    "sess_Status (completed s 9 n) \<noteq> sess_Status (demo_made\<lparr>sess_PID := 7\<rparr>)" for s n
    by (simp_all add: demo_session_simps completed_def)
  then have d: "demo_fore \<noteq> demo_made" "demo_made\<lparr>sess_PID := 7\<rparr> \<noteq> demo_made" "demo_made\<lparr>sess_PID := 7\<rparr> \<noteq> demo_fore"
    "completed s 9 n \<noteq> demo_made" "completed s 9 n \<noteq> demo_fore" "completed s 9 n \<noteq> demo_made\<lparr>sess_PID := 7\<rparr>" for s n
    by metis+
  have n: "sess_ID (completed s 9 n) = sess_ID s" "sess_RecordCount (completed s 9 n) = n" for s n by (simp_all add: completed_def)
  show "session_ok demo_cmd_json demo_made" "session_ok demo_cmd_json demo_fore"
    "session_ok demo_cmd_json (demo_made\<lparr>sess_PID := 7\<rparr>)"
    "session_ok demo_cmd_json (completed (demo_made\<lparr>sess_PID := 7\<rparr>) 9 (int n))"
    by (simp_all add: session_ok_def demo_cmd_json_def d n demo_session_simps plain_name_def)
qed

definition demo_cmd_fs :: fs where
  "demo_cmd_fs =
     [([], Dir), ([''d''], Dir), ([''d'', ''sessions''], Dir), ([''d'', ''sessions'', ''s1''], Dir),
      ([''d'', ''sessions'', ''s1'', ''session.json''], File ''P'')]"

definition demo_cmd_store :: FileStore where
  "demo_cmd_store = \<lparr>store_baseDir = [''d'', ''sessions'']\<rparr>"

lemma demo_cmd_inv: "store_inv demo_cmd_store demo_cmd_fs"
  by (auto simp: store_inv_def tree_ok_def node_ok_def demo_cmd_store_def demo_cmd_fs_def clean_path_def plain_name_def store_files_def
      strict_prefix_def split: if_splits)

lemma demo_cmd_open: "NewFileStore demo_cmd_fs [''d''] = Inr (demo_cmd_fs, demo_cmd_store)"
  by (simp add: NewFileStore_def Let_def JoinPath_def demo_cmd_fs_def demo_cmd_store_def)


lemma demo_prune: "PruneOldest json demo_cmd_store demo_cmd_fs 0 = (demo_cmd_fs, None)"
  by (simp add: PruneOldest_def)

theorem failed_start_keeps_recording_witness:
  "\<exists>fs' e. runRecordLoop demo_cmd_json demo_rworld (demo_flags\<lparr>rf_DaemonChild := False, rf_Duration := ''soon''\<rparr>)
       (DefaultConfig\<lparr>cfg_Storage := \<lparr>stc_DataDir = '''', stc_MaxSessions = 0\<rparr>\<rparr>) demo_cmd_fs [''d''] [] = (fs', Some e)
     \<and> Get demo_cmd_json demo_cmd_store fs' ''s1'' = Inr demo_fore"
proof -
  let ?flags = "demo_flags\<lparr>rf_DaemonChild := False, rf_Duration := ''soon''\<rparr>"
  have "\<not> can_record demo_rworld ?flags []" by code_simp
  moreover have "demo_fore = fill_session (rw_newID demo_rworld) (rw_created demo_rworld) (record_session_of (rw_nowText demo_rworld) ?flags False)"
    by (simp add: demo_fore_def demo_rworld_def record_session_of_def demo_flags_def)
  ultimately show ?thesis
    using failed_start_keeps_recording [OF demo_cmd_open _ demo_cmd_inv, of demo_cmd_json
        "DefaultConfig\<lparr>cfg_Storage := \<lparr>stc_DataDir = '''', stc_MaxSessions = 0\<rparr>\<rparr>" ?flags demo_rworld "[]" demo_fore]
      demo_cmd_ok demo_session_simps demo_prune
    by (simp add: demo_rworld_def)
qed

theorem daemon_parent_starts_witness:
  "\<exists>fs'. runDaemonParent demo_cmd_json demo_pworld demo_flags 0 demo_cmd_fs [''d''] [] = (fs', Inr (demo_made\<lparr>sess_PID := 7\<rparr>))"
proof -
  have "demo_made = fill_session (pw_uuid demo_pworld) (pw_created demo_pworld) (record_session_of (pw_nowText demo_pworld) demo_flags True)"
    by (simp add: demo_made_def demo_pworld_def)
  moreover have "demo_made\<lparr>sess_PID := 7\<rparr> = demo_made\<lparr>sess_PID := 7, sess_UpdatedAt := pw_updated demo_pworld\<rparr>"
    using demo_session_simps(4) by (cases demo_made) (simp add: demo_pworld_def)
  ultimately show ?thesis
    using daemon_parent_starts [OF demo_cmd_open demo_prune demo_cmd_inv, of demo_made demo_pworld demo_flags "demo_made\<lparr>sess_PID := 7\<rparr>" 7 demo_cmd_json "''shadiff''" "[]"]
      demo_cmd_ok demo_session_simps
    by (auto simp: keeps_store_def demo_pworld_def demo_cmd_store_def demo_cmd_fs_def)
qed

end
