(* ===== verification/Record_Stop.thy ===== *)
theory Record_Stop
  imports Record_Cmd
begin

text \<open>
  Looking after background recordings: \<^verbatim>\<open>record stop\<close> (\<^verbatim>\<open>cmd/record_stop.go\<close>) and
  \<^verbatim>\<open>record status\<close> (\<^verbatim>\<open>cmd/record_status.go\<close>). What is printed is a list of messages or of rows.
\<close>

section \<open>Stopping\<close>

datatype stop_message =
    StaleCleaned string int
  | SendingStop string int
  | ForceKilling int
  | RecordingStopped string

datatype stop_error =
    StopStorage storage_error
  | StopSession resolve_error
  | NoPidfile string
  | SendStopFailed
  | ForceKillFailed

text \<open>
  What the command meets: whether a process is alive at the first check (0) and at the check after
  the \<open>i\<close>-th sleep (\<open>i + 1\<close>), what others do to the files during the \<open>i\<close>-th sleep, whether the
  signals can be sent, and the clock.
\<close>

record stop_world =
  sw_alive :: "nat \<Rightarrow> int \<Rightarrow> bool"
  sw_others :: "nat \<Rightarrow> fs \<Rightarrow> fs"
  sw_send :: "int \<Rightarrow> bool"
  sw_kill :: "int \<Rightarrow> bool"
  sw_now :: int

definition stop_polls :: nat where
  "stop_polls = 20"

fun stop_poll :: "stop_world \<Rightarrow> path \<Rightarrow> nat \<Rightarrow> nat \<Rightarrow> fs \<Rightarrow> fs \<times> bool" where
  "stop_poll w sessionDir i 0 fs = (fs, False)"
| "stop_poll w sessionDir i (Suc n) fs =
     (let fs = sw_others w i fs
      in if \<not> IsRunning (sw_alive w (Suc i)) fs sessionDir then (fs, True)
         else stop_poll w sessionDir (Suc i) n fs)"

definition runRecordStop ::
  "json_codec \<Rightarrow> stop_world \<Rightarrow> fs \<Rightarrow> path \<Rightarrow> string \<Rightarrow> fs \<times> stop_message list \<times> stop_error option" where
  "runRecordStop json w fs dataDir stopSession =
     (case NewFileStore fs dataDir of
        Inl e \<Rightarrow> (fs, [], Some (StopStorage e))
      | Inr (fs, store) \<Rightarrow>
          (case findSession json store fs stopSession of
             Inl e \<Rightarrow> (fs, [], Some (StopSession e))
           | Inr session \<Rightarrow>
               (let sessionDir = JoinPath dataDir [''sessions'', sess_ID session];
                    session' = session\<lparr>sess_Status := SessionCompleted, sess_PID := 0\<rparr>
                in case ReadPID fs sessionDir of
                     Inl e \<Rightarrow> (fs, [], Some (NoPidfile (sess_ID session)))
                   | Inr pid \<Rightarrow>
                       if \<not> IsRunning (sw_alive w 0) fs sessionDir then
                         (let fs = fst (RemovePID fs sessionDir);
                              (fs, s, e) = Update json store (sw_now w) fs session'
                          in (fs, [StaleCleaned (sess_ID session) pid], None))
                       else if \<not> sw_send w pid then (fs, [SendingStop (sess_ID session) pid], Some SendStopFailed)
                       else
                         (let (fs, stopped) = stop_poll w sessionDir 0 stop_polls fs
                          in if stopped then (fs, [SendingStop (sess_ID session) pid, RecordingStopped (sess_ID session)], None)
                             else if \<not> sw_kill w pid then
                               (fs, [SendingStop (sess_ID session) pid, ForceKilling pid], Some ForceKillFailed)
                             else
                               (let fs = fst (RemovePID fs sessionDir);
                                    (fs, s, e) = Update json store (sw_now w) fs session'
                                in (fs, [SendingStop (sess_ID session) pid, ForceKilling pid, RecordingStopped (sess_ID session)], None))))))"

section \<open>Status\<close>

record status_row =
  st_ID :: string
  st_Name :: string
  st_PID :: string
  st_Alive :: string
  st_Created :: int

definition status_row_of :: "(int \<Rightarrow> bool) \<Rightarrow> fs \<Rightarrow> path \<Rightarrow> Session \<Rightarrow> status_row" where
  "status_row_of alive fs dataDir s =
     (let sessionDir = JoinPath dataDir [''sessions'', sess_ID s];
          pid = (case ReadPID fs sessionDir of Inl e \<Rightarrow> 0 | Inr p \<Rightarrow> p);
          aliveStr = (if IsRunning alive fs sessionDir then ''yes'' else ''no'');
          pidStr = (if pid > 0 then Itoa pid else ''-'');
          name = (if length (sess_Name s) > 25 then take 22 (sess_Name s) @ ''...'' else sess_Name s)
      in \<lparr>st_ID = sess_ID s, st_Name = name, st_PID = pidStr, st_Alive = aliveStr, st_Created = sess_CreatedAt s\<rparr>)"

definition listRecordingSessions ::
  "json_codec \<Rightarrow> (int \<Rightarrow> bool) \<Rightarrow> FileStore \<Rightarrow> fs \<Rightarrow> path \<Rightarrow> storage_error + status_row list" where
  "listRecordingSessions json alive store fs dataDir =
     (case ListSessions json store fs (Some \<lparr>flt_Name = '''', flt_Status = status_string SessionRecording, flt_Tags = []\<rparr>) of
        Inl e \<Rightarrow> Inl e
      | Inr sessions \<Rightarrow> Inr (map (status_row_of alive fs dataDir) sessions))"

datatype process_state = NoProcess | Running int | DeadStale int

record session_detail =
  sd_Session :: Session
  sd_Process :: process_state
  sd_Uptime :: "int option"

text \<open>\<open>now\<close> is the clock in milliseconds; the uptime is cut to seconds, towards zero.\<close>

definition truncate_seconds :: "int \<Rightarrow> int" where
  "truncate_seconds ms = (if ms < 0 then - (- ms div 1000) else ms div 1000)"

definition showSessionDetail ::
  "json_codec \<Rightarrow> (int \<Rightarrow> bool) \<Rightarrow> int \<Rightarrow> FileStore \<Rightarrow> fs \<Rightarrow> path \<Rightarrow> string \<Rightarrow> resolve_error + session_detail" where
  "showSessionDetail json alive now store fs dataDir nameOrID =
     (case findSession json store fs nameOrID of
        Inl e \<Rightarrow> Inl e
      | Inr session \<Rightarrow>
          (let sessionDir = JoinPath dataDir [''sessions'', sess_ID session];
               pid = (case ReadPID fs sessionDir of Inl e \<Rightarrow> 0 | Inr p \<Rightarrow> p)
           in Inr \<lparr>sd_Session = session,
                sd_Process = (if pid > 0 then (if IsRunning alive fs sessionDir then Running pid else DeadStale pid) else NoProcess),
                sd_Uptime = (if sess_CreatedAt session > 0 then Some (truncate_seconds (now - sess_CreatedAt session)) else None)\<rparr>))"

datatype status_error = StatusStorage storage_error | StatusList storage_error | StatusSession resolve_error

definition runRecordStatus ::
  "json_codec \<Rightarrow> (int \<Rightarrow> bool) \<Rightarrow> int \<Rightarrow> fs \<Rightarrow> path \<Rightarrow> string \<Rightarrow> fs \<times> (status_error + (session_detail + status_row list))" where
  "runRecordStatus json alive now fs dataDir statusSession =
     (case NewFileStore fs dataDir of
        Inl e \<Rightarrow> (fs, Inl (StatusStorage e))
      | Inr (fs, store) \<Rightarrow>
          if statusSession \<noteq> '''' then
            (case showSessionDetail json alive now store fs dataDir statusSession of
               Inl e \<Rightarrow> (fs, Inl (StatusSession e))
             | Inr d \<Rightarrow> (fs, Inr (Inl d)))
          else
            (case listRecordingSessions json alive store fs dataDir of
               Inl e \<Rightarrow> (fs, Inl (StatusList e))
             | Inr rows \<Rightarrow> (fs, Inr (Inr rows))))"

section \<open>Waiting for the process\<close>

text \<open>The files after \<open>k\<close> sleeps, and whether the process is seen running at the check after the next.\<close>

definition files_after :: "stop_world \<Rightarrow> fs \<Rightarrow> nat \<Rightarrow> fs" where
  "files_after w fs k = fold (sw_others w) [0..<k] fs"

definition seen_running :: "stop_world \<Rightarrow> path \<Rightarrow> fs \<Rightarrow> nat \<Rightarrow> bool" where
  "seen_running w dir fs k = IsRunning (sw_alive w (Suc k)) (files_after w fs (Suc k)) dir"

lemma files_after_0: "files_after w fs 0 = fs"
  by (simp add: files_after_def)

lemma files_after_Suc: "files_after w fs (Suc k) = sw_others w k (files_after w fs k)"
  by (simp add: files_after_def)

lemma stop_poll_spec:
  "stop_poll w dir i n (files_after w fs i) =
     (case find (\<lambda>k. \<not> seen_running w dir fs k) [i..<i + n] of
        Some k \<Rightarrow> (files_after w fs (Suc k), True)
      | None \<Rightarrow> (files_after w fs (i + n), False))"
proof (induction n arbitrary: i)
  case (Suc n)
  have "[i..<i + Suc n] = i # [Suc i..<Suc i + n]" by (simp add: upt_rec)
  moreover have "stop_poll w dir i (Suc n) (files_after w fs i) =
      (if seen_running w dir fs i then stop_poll w dir (Suc i) n (files_after w fs (Suc i)) else (files_after w fs (Suc i), True))"
    by (simp add: files_after_Suc seen_running_def Let_def)
  ultimately show ?case using Suc.IH [of "Suc i"] by (simp del: stop_poll.simps upt_Suc split: option.split)
qed simp

lemma store_inv_without:
  assumes inv: "store_inv st fs" and p: "map_of fs p \<noteq> Some Dir" and m: "\<And>q. map_of fs' q = (if q = p then None else map_of fs q)"
  shows "store_inv st fs'"
proof -
  from inv have base: "clean_path (store_baseDir st)" "map_of fs (store_baseDir st) = Some Dir" "map_of fs [] = Some Dir"
    and up: "\<And>q e n. map_of fs (q @ [e]) = Some n \<Longrightarrow> map_of fs q = Some Dir"
    and nodes: "\<And>q n. map_of fs q = Some n \<Longrightarrow> node_ok (store_baseDir st) q n"
    unfolding store_inv_iff tree_ok_iff by blast+
  have "p \<noteq> store_baseDir st" "p \<noteq> []" using p base by auto
  moreover have "map_of fs' q = Some Dir" if "map_of fs' (q @ [e]) = Some n" for q e n
    using that up [of q e n] p by (auto simp: m split: if_splits)
  ultimately show ?thesis using base nodes unfolding store_inv_iff tree_ok_iff m by (auto simp: m)
qed


section \<open>Instances\<close>

definition demo_stop_fs :: fs where
  "demo_stop_fs = demo_cmd_fs @ [([''d'', ''sessions'', ''s1'', ''pidfile''], File (Itoa 7))]"

definition demo_sworld :: stop_world where
  "demo_sworld = \<lparr>sw_alive = (\<lambda>i p. True), sw_others = (\<lambda>i fs. fs), sw_send = (\<lambda>p. True), sw_kill = (\<lambda>p. True), sw_now = 9\<rparr>"

lemma demo_stop_inv: "store_inv demo_cmd_store demo_stop_fs"
  by (auto simp: store_inv_def tree_ok_def node_ok_def demo_cmd_store_def demo_cmd_fs_def demo_stop_fs_def clean_path_def plain_name_def
      store_files_def strict_prefix_def split: if_splits)


end
