(* ===== verification/Process.thy ===== *)
theory Process
  imports Record_Stop "HOL-Library.Word"
begin

text \<open>
  Processes (\<^verbatim>\<open>internal/daemon/process_unix.go\<close> and \<^verbatim>\<open>process_windows.go\<close>): what the commands ask of the
  operating system for a process id. The calls of the system are arguments; on Windows a process id
  and an exit code have 32 bits, and the conversion of the id wraps around.
\<close>

section \<open>Detached commands\<close>

record sysProcAttr =
  sa_Setsid :: bool
  sa_CreationFlags :: "32 word"

record exec_cmd =
  ec_Path :: string
  ec_Args :: "string list"
  ec_SysProcAttr :: "sysProcAttr option"

definition unix_Detach :: "exec_cmd \<Rightarrow> exec_cmd" where
  "unix_Detach cmd = cmd\<lparr>ec_SysProcAttr := Some \<lparr>sa_Setsid = True, sa_CreationFlags = 0\<rparr>\<rparr>"

definition windows_Detach :: "exec_cmd \<Rightarrow> exec_cmd" where
  "windows_Detach cmd = cmd\<lparr>ec_SysProcAttr := Some \<lparr>sa_Setsid = False, sa_CreationFlags = 0x200\<rparr>\<rparr>"

section \<open>Signals\<close>

text \<open>\<open>findProcess\<close> and \<open>signal\<close> are whether the call succeeds; \<open>Kill\<close> stands for \<^verbatim>\<open>Process.Kill\<close>.\<close>

datatype signal = Signal0 | SIGTERM | SIGKILL | Interrupt | Kill

definition unix_isProcessAlive :: "(int \<Rightarrow> bool) \<Rightarrow> (int \<Rightarrow> signal \<Rightarrow> bool) \<Rightarrow> int \<Rightarrow> bool" where
  "unix_isProcessAlive findProcess signal pid = (if \<not> findProcess pid then False else signal pid Signal0)"

definition unix_SendStop :: "(int \<Rightarrow> bool) \<Rightarrow> (int \<Rightarrow> signal \<Rightarrow> bool) \<Rightarrow> int \<Rightarrow> bool" where
  "unix_SendStop findProcess signal pid = (if \<not> findProcess pid then False else signal pid SIGTERM)"

definition unix_ForceKill :: "(int \<Rightarrow> bool) \<Rightarrow> (int \<Rightarrow> signal \<Rightarrow> bool) \<Rightarrow> int \<Rightarrow> bool" where
  "unix_ForceKill findProcess signal pid = (if \<not> findProcess pid then False else signal pid SIGKILL)"

definition processQueryLimitedInformation :: "32 word" where
  "processQueryLimitedInformation = 0x1000"

definition stillActive :: "32 word" where
  "stillActive = 259"

text \<open>\<open>getExitCode\<close> is \<open>None\<close> where \<^verbatim>\<open>GetExitCodeProcess\<close> returns zero.\<close>

definition windows_isProcessAlive :: "(32 word \<Rightarrow> 32 word \<Rightarrow> 'h option) \<Rightarrow> ('h \<Rightarrow> 32 word option) \<Rightarrow> int \<Rightarrow> bool" where
  "windows_isProcessAlive openProcess getExitCode pid =
     (case openProcess processQueryLimitedInformation (word_of_int pid) of
        None \<Rightarrow> False
      | Some handle \<Rightarrow>
          (case getExitCode handle of
             None \<Rightarrow> False
           | Some exitCode \<Rightarrow> exitCode = stillActive))"

definition windows_SendStop :: "(int \<Rightarrow> bool) \<Rightarrow> (int \<Rightarrow> signal \<Rightarrow> bool) \<Rightarrow> int \<Rightarrow> bool" where
  "windows_SendStop findProcess signal pid = (if \<not> findProcess pid then False else signal pid Interrupt)"

definition windows_ForceKill :: "(int \<Rightarrow> bool) \<Rightarrow> (int \<Rightarrow> signal \<Rightarrow> bool) \<Rightarrow> int \<Rightarrow> bool" where
  "windows_ForceKill findProcess signal pid = (if \<not> findProcess pid then False else signal pid Kill)"

section \<open>Facts\<close>

text \<open>Process ids that agree in their last 32 bits are the same process on Windows.\<close>

lemma windows_pid_wraps:
  "windows_isProcessAlive openProcess getExitCode (pid + 2 ^ 32 * k) = windows_isProcessAlive openProcess getExitCode pid"
proof -
  have "(word_of_int (pid + 2 ^ 32 * k) :: 32 word) = word_of_int pid"
    by (simp only: word_of_int_eq_iff take_bit_eq_mod) simp
  then show ?thesis by (simp add: windows_isProcessAlive_def)
qed

text \<open>A process that has ended with the code 259 is taken for alive.\<close>

lemma windows_exit_259:
  assumes "openProcess processQueryLimitedInformation (word_of_int pid) = Some h" "getExitCode h = Some 259"
  shows "windows_isProcessAlive openProcess getExitCode pid"
  using assms by (simp add: windows_isProcessAlive_def stillActive_def)

text \<open>
  With the signals of Unix: the stop command sends nothing to a process that cannot be signalled,
  and cleans up after it.
\<close>

lemma stop_dead_process:
  assumes "NewFileStore fs dataDir = Inr (fs0, st)" and "findSession json st fs0 name = Inr s"
    and "ReadPID fs0 (JoinPath dataDir [''sessions'', sess_ID s]) = Inr pid"
    and "sw_alive w 0 = unix_isProcessAlive findProcess signal" and "\<not> signal pid Signal0"
  shows "\<exists>fs'. runRecordStop json w fs dataDir name = (fs', [StaleCleaned (sess_ID s) pid], None)"
  using assms by (simp add: runRecordStop_def Let_def IsRunning_def unix_isProcessAlive_def split: prod.split)

end
