(* ===== verification/Command_Line.thy ===== *)
theory Command_Line
  imports Record_Cmd
begin

text \<open>
  The command line (\<^verbatim>\<open>main.go\<close>, \<^verbatim>\<open>cmd/root.go\<close>, \<^verbatim>\<open>cmd/version.go\<close> and the declarations of the
  commands): the tree of commands with their flags, what runs before a command, the exit code.
  Parsing is the work of the command line framework: the parser is an argument, with what the
  documentation of the framework says of it as hypotheses. The long help texts are left out.
\<close>

section \<open>Commands and flags\<close>

datatype flag_value = FlagString string | FlagBool bool | FlagInt int | FlagStrings "string list"

text \<open>A flag with its shorthand, if any, and its default.\<close>

record flag_decl =
  fd_Name :: string
  fd_Short :: string
  fd_Default :: flag_value
  fd_Required :: bool
  fd_Hidden :: bool

abbreviation flag :: "string \<Rightarrow> string \<Rightarrow> flag_value \<Rightarrow> flag_decl" where
  "flag name short v \<equiv> \<lparr>fd_Name = name, fd_Short = short, fd_Default = v, fd_Required = False, fd_Hidden = False\<rparr>"

text \<open>\<^verbatim>\<open>MarkFlagRequired\<close> and \<^verbatim>\<open>MarkHidden\<close>: an unknown name is an error, which the callers drop.\<close>

definition MarkFlagRequired :: "string \<Rightarrow> flag_decl list \<Rightarrow> flag_decl list" where
  "MarkFlagRequired name = map (\<lambda>f. if fd_Name f = name then f\<lparr>fd_Required := True\<rparr> else f)"

definition MarkHidden :: "string \<Rightarrow> flag_decl list \<Rightarrow> flag_decl list" where
  "MarkHidden name = map (\<lambda>f. if fd_Name f = name then f\<lparr>fd_Hidden := True\<rparr> else f)"

text \<open>\<open>cm_Args\<close> is the number that \<^verbatim>\<open>ExactArgs\<close> asks for.\<close>

record command =
  cm_Use :: string
  cm_Short :: string
  cm_Flags :: "flag_decl list"
  cm_Args :: "nat option"

definition persistentFlags :: "flag_decl list" where
  "persistentFlags =
     [flag ''config'' '''' (FlagString ''''), flag ''verbose'' ''v'' (FlagBool False), flag ''quiet'' ''q'' (FlagBool False)]"

definition rootCmd :: command where
  "rootCmd = \<lparr>cm_Use = ''shadiff'', cm_Short = ''Shadow traffic semantic diff tool'', cm_Flags = persistentFlags, cm_Args = None\<rparr>"

definition recordCmd :: command where
  "recordCmd = \<lparr>cm_Use = ''record'', cm_Short = ''Start traffic recording'',
     cm_Flags = MarkFlagRequired ''target'' (MarkHidden ''_daemon-child''
       [flag ''target'' ''t'' (FlagString ''''), flag ''listen'' ''l'' (FlagString '':18080''), flag ''session'' ''s'' (FlagString ''''),
        flag ''db-proxy'' '''' (FlagStrings []), flag ''duration'' ''d'' (FlagString ''''), flag ''daemon'' ''D'' (FlagBool False),
        flag ''_daemon-child'' '''' (FlagBool False)]),
     cm_Args = None\<rparr>"

definition recordStopCmd :: command where
  "recordStopCmd = \<lparr>cm_Use = ''stop'', cm_Short = ''Stop a daemon recording session'',
     cm_Flags = MarkFlagRequired ''session'' [flag ''session'' ''s'' (FlagString '''')], cm_Args = None\<rparr>"

definition recordStatusCmd :: command where
  "recordStatusCmd = \<lparr>cm_Use = ''status'', cm_Short = ''Show recording session status'',
     cm_Flags = [flag ''session'' ''s'' (FlagString '''')], cm_Args = None\<rparr>"

definition replayCmd :: command where
  "replayCmd = \<lparr>cm_Use = ''replay'', cm_Short = ''Replay recorded traffic'',
     cm_Flags = MarkFlagRequired ''target'' (MarkFlagRequired ''session''
       [flag ''session'' ''s'' (FlagString ''''), flag ''target'' ''t'' (FlagString ''''), flag ''concurrency'' ''c'' (FlagInt 1),
        flag ''delay'' '''' (FlagString ''''), flag ''db-proxy'' '''' (FlagStrings [])]),
     cm_Args = None\<rparr>"

definition diffCmd :: command where
  "diffCmd = \<lparr>cm_Use = ''diff'', cm_Short = ''Compare behavioral differences between recorded and replayed traffic'',
     cm_Flags = MarkFlagRequired ''session''
       [flag ''session'' ''s'' (FlagString ''''), flag ''rules'' ''r'' (FlagString ''''), flag ''ignore-order'' '''' (FlagBool False),
        flag ''ignore-headers'' '''' (FlagStrings []), flag ''output'' ''o'' (FlagString ''terminal''),
        flag ''output-file'' '''' (FlagString ''''), flag ''fail-on'' '''' (FlagString ''none'')],
     cm_Args = None\<rparr>"

definition reportCmd :: command where
  "reportCmd = \<lparr>cm_Use = ''report'', cm_Short = ''Generate a detailed report'',
     cm_Flags = MarkFlagRequired ''session''
       [flag ''session'' ''s'' (FlagString ''''), flag ''format'' ''f'' (FlagString ''terminal''), flag ''output'' ''o'' (FlagString '''')],
     cm_Args = None\<rparr>"

definition sessionCmd :: command where
  "sessionCmd = \<lparr>cm_Use = ''session'', cm_Short = ''Manage recording sessions'', cm_Flags = [], cm_Args = None\<rparr>"

definition sessionListCmd :: command where
  "sessionListCmd = \<lparr>cm_Use = ''list'', cm_Short = ''List all sessions'', cm_Flags = [flag ''tag'' '''' (FlagString '''')], cm_Args = None\<rparr>"

definition sessionShowCmd :: command where
  "sessionShowCmd = \<lparr>cm_Use = ''show <id>'', cm_Short = ''Show session details'', cm_Flags = [], cm_Args = Some 1\<rparr>"

definition sessionInspectCmd :: command where
  "sessionInspectCmd = \<lparr>cm_Use = ''inspect <id>'', cm_Short = ''Inspect session artifacts and side-effect counts'',
     cm_Flags = [flag ''format'' '''' (FlagString ''terminal'')], cm_Args = Some 1\<rparr>"

definition sessionDeleteCmd :: command where
  "sessionDeleteCmd = \<lparr>cm_Use = ''delete <id>'', cm_Short = ''Delete a session'', cm_Flags = [], cm_Args = Some 1\<rparr>"

definition doctorCmd :: command where
  "doctorCmd = \<lparr>cm_Use = ''doctor'', cm_Short = ''Diagnose Shadiff environment readiness'',
     cm_Flags = [flag ''format'' '''' (FlagString ''terminal''), flag ''strict'' '''' (FlagBool False), flag ''e2e'' '''' (FlagBool False)],
     cm_Args = None\<rparr>"

definition versionCmd :: command where
  "versionCmd = \<lparr>cm_Use = ''version'', cm_Short = ''Show version info'', cm_Flags = [], cm_Args = None\<rparr>"

text \<open>What the calls of \<^verbatim>\<open>AddCommand\<close> in the \<^verbatim>\<open>init\<close> functions make: each command with its ancestors, the nearest first.\<close>

definition commands :: "command list list" where
  "commands =
     [[rootCmd]] @ map (\<lambda>c. [c, rootCmd]) [recordCmd, replayCmd, diffCmd, reportCmd, sessionCmd, doctorCmd, versionCmd]
     @ map (\<lambda>c. [c, recordCmd, rootCmd]) [recordStopCmd, recordStatusCmd]
     @ map (\<lambda>c. [c, sessionCmd, rootCmd]) [sessionListCmd, sessionShowCmd, sessionInspectCmd, sessionDeleteCmd]"

text \<open>\<^verbatim>\<open>Name\<close> is the first word of \<^verbatim>\<open>Use\<close>; a command has its own flags and the persistent ones of the root.\<close>

definition cm_Name :: "command \<Rightarrow> string" where
  "cm_Name c = takeWhile (\<lambda>x. x \<noteq> CHR '' '') (cm_Use c)"

definition flags_of :: "command list \<Rightarrow> flag_decl list" where
  "flags_of cs = cm_Flags (hd cs) @ (if length cs > 1 then cm_Flags rootCmd else [])"

section \<open>Running\<close>

fun isDoctorCommand :: "command list \<Rightarrow> bool" where
  "isDoctorCommand [] = False"
| "isDoctorCommand (c # parents) = (if cm_Name c = ''doctor'' then True else isDoctorCommand parents)"

text \<open>\<open>init\<close> is \<^verbatim>\<open>initRuntime\<close> with its files; the runtime stays nil where it is not called.\<close>

definition PersistentPreRunE ::
  "(fs \<Rightarrow> fs \<times> (runtime_error + appRuntime)) \<Rightarrow> command list \<Rightarrow> fs \<Rightarrow> fs \<times> appRuntime option \<times> runtime_error option" where
  "PersistentPreRunE init cmd fs =
     (if isDoctorCommand cmd then (fs, None, None)
      else case init fs of
             (fs, Inl e) \<Rightarrow> (fs, None, Some e)
           | (fs, Inr rt) \<Rightarrow> (fs, Some rt, None))"

text \<open>\<^verbatim>\<open>mustRuntime\<close> panics on nil.\<close>

datatype 'a may_panic = RuntimePanic | Returns 'a

definition mustRuntime :: "appRuntime option \<Rightarrow> appRuntime may_panic" where
  "mustRuntime ctx = (case ctx of None \<Rightarrow> RuntimePanic | Some rt \<Rightarrow> Returns rt)"

definition currentConfig :: "appRuntime option \<Rightarrow> AppConfig may_panic" where
  "currentConfig ctx = (case mustRuntime ctx of RuntimePanic \<Rightarrow> RuntimePanic | Returns rt \<Rightarrow> Returns (rt_Config rt))"

definition currentDataDir :: "appRuntime option \<Rightarrow> path may_panic" where
  "currentDataDir ctx = (case mustRuntime ctx of RuntimePanic \<Rightarrow> RuntimePanic | Returns rt \<Rightarrow> Returns (rt_DataDir rt))"

definition currentLogDir :: "appRuntime option \<Rightarrow> path may_panic" where
  "currentLogDir ctx = (case mustRuntime ctx of RuntimePanic \<Rightarrow> RuntimePanic | Returns rt \<Rightarrow> Returns (rt_LogDir rt))"

definition currentConfigPath :: "appRuntime option \<Rightarrow> path may_panic" where
  "currentConfigPath ctx = (case mustRuntime ctx of RuntimePanic \<Rightarrow> RuntimePanic | Returns rt \<Rightarrow> Returns (rt_ConfigPath rt))"

text \<open>A command that needs no runtime is given none; what \<open>run\<close> returns is whether it failed.\<close>

definition Execute_command ::
  "(fs \<Rightarrow> fs \<times> (runtime_error + appRuntime)) \<Rightarrow> (appRuntime option \<Rightarrow> fs \<Rightarrow> fs \<times> bool) \<Rightarrow> command list \<Rightarrow> fs \<Rightarrow> fs \<times> bool" where
  "Execute_command init run cmd fs =
     (case PersistentPreRunE init cmd fs of
        (fs, ctx, Some e) \<Rightarrow> (fs, True)
      | (fs, ctx, None) \<Rightarrow> run ctx fs)"

definition main_exit :: "bool \<Rightarrow> int" where
  "main_exit failed = (if failed then 1 else 0)"

definition version_lines :: "string \<Rightarrow> string \<Rightarrow> string \<Rightarrow> string list" where
  "version_lines Version Commit BuildDate = [''shadiff '' @ Version, ''  commit:  '' @ Commit, ''  built:   '' @ BuildDate]"

definition root_version :: "string \<Rightarrow> string \<Rightarrow> string \<Rightarrow> string" where
  "root_version Version Commit BuildDate = Version @ '' (commit: '' @ Commit @ '', built: '' @ BuildDate @ '')''"

section \<open>The flags of a recording\<close>

text \<open>
  What the flags of \<^verbatim>\<open>record\<close> are bound to, after the assignments of a command line in their order:
  the last value of a flag counts, a flag of several values collects them.
\<close>

definition flag_changed :: "string \<Rightarrow> (string \<times> string) list \<Rightarrow> bool" where
  "flag_changed name asg = list_ex (\<lambda>(n, v). n = name) asg"

definition flag_values :: "string \<Rightarrow> (string \<times> string) list \<Rightarrow> string list" where
  "flag_values name asg = map snd (filter (\<lambda>(n, v). n = name) asg)"

definition flag_string :: "string \<Rightarrow> string \<Rightarrow> (string \<times> string) list \<Rightarrow> string" where
  "flag_string name dflt asg = (if flag_changed name asg then last (flag_values name asg) else dflt)"

definition record_flags_of :: "(string \<times> string) list \<Rightarrow> RecordFlags" where
  "record_flags_of asg =
     \<lparr>rf_Target = flag_string ''target'' '''' asg, rf_Listen = flag_string ''listen'' '':18080'' asg,
      rf_ListenChanged = flag_changed ''listen'' asg, rf_Session = flag_string ''session'' '''' asg,
      rf_DBProxy = flag_values ''db-proxy'' asg, rf_DBProxyChanged = flag_changed ''db-proxy'' asg,
      rf_Duration = flag_string ''duration'' '''' asg, rf_Daemon = flag_string ''daemon'' ''false'' asg = ''true'',
      rf_DaemonChild = flag_string ''_daemon-child'' ''false'' asg = ''true'', rf_CfgFile = flag_string ''config'' '''' asg\<rparr>"

text \<open>
  How the documentation of the framework says that a flag is written: \<^verbatim>\<open>--flag value\<close>, and \<^verbatim>\<open>--flag\<close>
  for a Boolean one; \<open>documented\<close> is that a parser reads this back when no required flag is missing.
\<close>

definition is_bool_flag :: "flag_decl list \<Rightarrow> string \<Rightarrow> bool" where
  "is_bool_flag fs name = list_ex (\<lambda>f. fd_Name f = name \<and> (case fd_Default f of FlagBool b \<Rightarrow> True | _ \<Rightarrow> False)) fs"

definition written :: "flag_decl list \<Rightarrow> string \<times> string \<Rightarrow> string list" where
  "written fs a = (if is_bool_flag fs (fst a) then [''--'' @ fst a] else [''--'' @ fst a, snd a])"

definition assignable :: "flag_decl list \<Rightarrow> string \<times> string \<Rightarrow> bool" where
  "assignable fs a \<longleftrightarrow> fst a \<in> fd_Name ` set fs \<and> (is_bool_flag fs (fst a) \<longrightarrow> snd a = ''true'')"

definition has_required :: "flag_decl list \<Rightarrow> (string \<times> string) list \<Rightarrow> bool" where
  "has_required fs asg \<longleftrightarrow> list_all (\<lambda>f. fd_Required f \<longrightarrow> flag_changed (fd_Name f) asg) fs"

definition documented :: "(string list \<Rightarrow> (command list \<times> (string \<times> string) list) option) \<Rightarrow> command list \<Rightarrow> bool" where
  "documented parse cs \<longleftrightarrow>
     (\<forall>asg. list_all (assignable (flags_of cs)) asg \<and> has_required (flags_of cs) asg \<longrightarrow>
        parse (rev (map cm_Name (butlast cs)) @ concat (map (written (flags_of cs)) asg)) = Some (cs, asg))"

definition child_assignments :: "RecordFlags \<Rightarrow> string \<Rightarrow> DBProxyConfig list \<Rightarrow> (string \<times> string) list" where
  "child_assignments flags sid dbs =
     [(''target'', rf_Target flags), (''listen'', rf_Listen flags), (''session'', sid), (''_daemon-child'', ''true'')]
     @ (if rf_CfgFile flags \<noteq> '''' then [(''config'', rf_CfgFile flags)] else [])
     @ (if rf_Duration flags \<noteq> '''' then [(''duration'', rf_Duration flags)] else [])
     @ map (\<lambda>db. (''db-proxy'', dbproxy_spec db)) dbs"

lemma record_flag_table:
  "fd_Name ` set (flags_of [recordCmd, rootCmd])
     = {''target'', ''listen'', ''session'', ''db-proxy'', ''duration'', ''daemon'', ''_daemon-child'', ''config'', ''verbose'', ''quiet''}"
  "is_bool_flag (flags_of [recordCmd, rootCmd]) name \<longleftrightarrow> name \<in> {''daemon'', ''_daemon-child'', ''verbose'', ''quiet''}"
  by (auto simp: flags_of_def recordCmd_def rootCmd_def persistentFlags_def MarkFlagRequired_def MarkHidden_def is_bool_flag_def)

lemma child_args_written:
  "buildDaemonChildArgs flags sid dbs = ''record'' # concat (map (written (flags_of [recordCmd, rootCmd])) (child_assignments flags sid dbs))"
  by (simp add: buildDaemonChildArgs_def child_assignments_def written_def record_flag_table o_def)

lemma child_assignable: "list_all (assignable (flags_of [recordCmd, rootCmd])) (child_assignments flags sid dbs)"
  by (auto simp: child_assignments_def assignable_def record_flag_table list_all_iff)

lemma child_required: "has_required (flags_of [recordCmd, rootCmd]) (child_assignments flags sid dbs)"
  by (simp add: has_required_def flags_of_def recordCmd_def rootCmd_def persistentFlags_def MarkFlagRequired_def MarkHidden_def
      child_assignments_def flag_changed_def)

lemma flag_values_simps:
  "flag_values name [] = []"
  "flag_values name (a # asg) = (if fst a = name then snd a # flag_values name asg else flag_values name asg)"
  "flag_values name (asg @ bsg) = flag_values name asg @ flag_values name bsg"
  by (auto simp: flag_values_def split: prod.splits)

lemma flag_changed_values: "flag_changed name asg \<longleftrightarrow> flag_values name asg \<noteq> []"
  by (auto simp: flag_changed_def flag_values_def list_ex_iff filter_empty_conv)

lemma flag_values_map: "flag_values name (map (\<lambda>x. (n, f x)) xs) = (if n = name then map f xs else [])"
  by (induction xs) (auto simp: flag_values_simps)

lemma child_flags:
  "record_flags_of (child_assignments flags sid dbs) =
     \<lparr>rf_Target = rf_Target flags, rf_Listen = rf_Listen flags, rf_ListenChanged = True, rf_Session = sid,
      rf_DBProxy = map dbproxy_spec dbs, rf_DBProxyChanged = (dbs \<noteq> []), rf_Duration = rf_Duration flags, rf_Daemon = False,
      rf_DaemonChild = True, rf_CfgFile = rf_CfgFile flags\<rparr>"
  by (simp add: record_flags_of_def flag_string_def flag_changed_values child_assignments_def flag_values_simps flag_values_map)

section \<open>Properties\<close>

text \<open>
  A command other than the doctor that is run finds its runtime, so \<^verbatim>\<open>mustRuntime\<close> does not panic in
  it; and such a command, \<^verbatim>\<open>version\<close> among them, is not run when the configuration is refused.
\<close>

lemma runtime_present:
  assumes "\<not> isDoctorCommand cmd" "PersistentPreRunE init cmd fs = (fs', ctx, None)"
  obtains rt where "init fs = (fs', Inr rt)" "ctx = Some rt" "mustRuntime ctx = Returns rt"
    "currentConfig ctx = Returns (rt_Config rt)" "currentDataDir ctx = Returns (rt_DataDir rt)"
  using assms
  by (auto simp: PersistentPreRunE_def mustRuntime_def currentConfig_def currentDataDir_def split: prod.splits sum.splits)

lemma version_needs_config:
  "init fs = (fs', Inl e) \<Longrightarrow> Execute_command init run [versionCmd, rootCmd] fs = (fs', True)"
  by (simp add: Execute_command_def PersistentPreRunE_def cm_Name_def versionCmd_def rootCmd_def)

text \<open>
  The tables of flags are sound: in no command two flags have the same name or the same shorthand,
  which the framework would answer with a panic at the start of every command; the doctor is the
  only command that runs without a runtime.
\<close>

lemma commands_sound:
  "list_all (\<lambda>cs. distinct (map fd_Name (flags_of cs)) \<and> distinct (filter (\<lambda>s. s \<noteq> '''') (map fd_Short (flags_of cs)))
     \<and> (isDoctorCommand cs \<longleftrightarrow> cs = [doctorCmd, rootCmd])) commands"
  by code_simp

text \<open>
  C38. A background recording is the recording that was asked for: the command line which the parent
  builds is one that the child's parser reads back, and the command of the child then records in
  the foreground of its process, into the session of the parent, from the same target, at the same
  address, for the same time and through the same database proxies.
\<close>

theorem child_records_as_asked:
  assumes parse: "documented parse [recordCmd, rootCmd]"
    and dbs: "resolveRecordDBProxies (rf_DBProxyChanged flags) (rf_DBProxy flags) (rt_Config rt) = Inr dbProxies"
      "rf_DBProxyChanged flags \<Longrightarrow> rf_DBProxy flags \<noteq> []"
      "list_all (\<lambda>db. IsSupported (dp_Type db) \<and> CHR ''>'' \<notin> set (dp_ListenAddr db)) dbProxies"
  shows "\<exists>asg. parse (buildDaemonChildArgs flags sid dbProxies) = Some ([recordCmd, rootCmd], asg)
     \<and> (let child = record_flags_of asg
        in runRecord json pw w child rt fs = runRecordLoop json w child (rt_Config rt) fs (rt_DataDir rt) dbProxies
         \<and> rf_DaemonChild child \<and> rf_Session child = sid \<and> rf_Target child = rf_Target flags \<and> rf_Listen child = rf_Listen flags
         \<and> rf_Duration child = rf_Duration flags \<and> rf_CfgFile child = rf_CfgFile flags)"
proof -
  let ?asg = "child_assignments flags sid dbProxies"
  have name: "cm_Name recordCmd = ''record''" by (simp add: cm_Name_def recordCmd_def)
  have "parse (buildDaemonChildArgs flags sid dbProxies) = Some ([recordCmd, rootCmd], ?asg)"
    using parse child_assignable [of flags sid dbProxies] child_required [of flags sid dbProxies] by (simp add: documented_def child_args_written name)
  moreover have "resolveRecordDBProxies (dbProxies \<noteq> []) (map dbproxy_spec dbProxies) (rt_Config rt) = Inr dbProxies"
  proof (cases "dbProxies = []")
    case True
    with dbs(1,2) have "\<not> rf_DBProxyChanged flags"
      by (cases "rf_DBProxy flags") (auto simp: resolveRecordDBProxies_def split: sum.splits if_splits)
    with True dbs(1) show ?thesis by (simp add: resolveRecordDBProxies_def)
  next
    case False
    have "list_all (\<lambda>db. CHR '':'' \<notin> set (dp_Type db) \<and> CHR ''>'' \<notin> set (dp_ListenAddr db)) dbProxies"
      using dbs(3) IsSupported_no_colon by (auto simp: list_all_iff)
    with False show ?thesis by (simp add: resolveRecordDBProxies_def parse_specs_map)
  qed
  then have "runRecord json pw w (record_flags_of ?asg) rt fs
      = runRecordLoop json w (record_flags_of ?asg) (rt_Config rt) fs (rt_DataDir rt) dbProxies"
    by (simp add: runRecord_def child_flags effectiveString_def Let_def)
  ultimately show ?thesis by (intro exI [of _ ?asg]) (simp add: child_flags)
qed

section \<open>Instances\<close>

text \<open>A parser of long flags.\<close>

fun demo_flag_loop :: "flag_decl list \<Rightarrow> string list \<Rightarrow> (string \<times> string) list option" where
  "demo_flag_loop fs [] = Some []"
| "demo_flag_loop fs (a # args) =
     (if is_bool_flag fs (drop 2 a) then map_option ((#) (drop 2 a, ''true'')) (demo_flag_loop fs args)
      else case args of
             [] \<Rightarrow> None
           | v # rest \<Rightarrow> map_option ((#) (drop 2 a, v)) (demo_flag_loop fs rest))"

definition demo_parse :: "string list \<Rightarrow> (command list \<times> (string \<times> string) list) option" where
  "demo_parse args = map_option (Pair [recordCmd, rootCmd]) (demo_flag_loop (flags_of [recordCmd, rootCmd]) (tl args))"

lemma demo_flag_loop_written: "list_all (assignable fs) asg \<Longrightarrow> demo_flag_loop fs (concat (map (written fs) asg)) = Some asg"
  by (induction asg) (auto simp: written_def assignable_def)

theorem child_records_as_asked_witness:
  "\<exists>asg. demo_parse (buildDaemonChildArgs (demo_flags\<lparr>rf_DBProxyChanged := True, rf_DBProxy := [''mysql://:1->h:2'']\<rparr>) ''s1''
       [\<lparr>dp_Type = ''mysql'', dp_ListenAddr = '':1'', dp_TargetAddr = ''h:2''\<rparr>]) = Some ([recordCmd, rootCmd], asg)
     \<and> rf_DBProxy (record_flags_of asg) = [''mysql://:1->h:2''] \<and> rf_Session (record_flags_of asg) = ''s1''"
proof -
  let ?db = "\<lparr>dp_Type = ''mysql'', dp_ListenAddr = '':1'', dp_TargetAddr = ''h:2''\<rparr>"
  let ?flags = "demo_flags\<lparr>rf_DBProxyChanged := True, rf_DBProxy := [''mysql://:1->h:2'']\<rparr>"
  have spec: "dbproxy_spec ?db = ''mysql://:1->h:2''" by (simp add: dbproxy_spec_def)
  have doc: "documented demo_parse [recordCmd, rootCmd]"
    by (simp add: documented_def demo_parse_def demo_flag_loop_written)
  have ok: "list_all (\<lambda>db. IsSupported (dp_Type db) \<and> CHR ''>'' \<notin> set (dp_ListenAddr db)) [?db]"
    by (simp add: IsSupported_def Supported_def)
  have "resolveRecordDBProxies True (map dbproxy_spec [?db]) (rt_Config demo_rt) = Inr [?db]"
    by (rule daemon_child_proxies) (use ok in simp_all)
  then have dbs: "resolveRecordDBProxies (rf_DBProxyChanged ?flags) (rf_DBProxy ?flags) (rt_Config demo_rt) = Inr [?db]" by (simp add: spec)
  obtain asg where a: "demo_parse (buildDaemonChildArgs ?flags ''s1'' [?db]) = Some ([recordCmd, rootCmd], asg)"
    "rf_Session (record_flags_of asg) = ''s1''"
    using child_records_as_asked [OF doc dbs _ ok, where sid = "''s1''" and json = demo_json and pw = demo_pworld and w = demo_rworld and fs = demo_diff_fs]
    by (auto simp: Let_def)
  have "asg = child_assignments ?flags ''s1'' [?db]"
    using a(1) doc child_assignable [of ?flags "''s1''" "[?db]"] by (simp add: child_args_written demo_parse_def demo_flag_loop_written)
  then show ?thesis using a by (simp add: child_flags spec)
qed

end
