(* ===== verification/Logger.thy ===== *)
theory Logger
  imports Runtime
begin

text \<open>
  The logger (\<^verbatim>\<open>internal/logger/logger.go\<close>): a global instance that writes to the log file of the day
  and, unless in the background, to the standard error. A file is written through its handle, which
  \<^verbatim>\<open>Close\<close> and the next \<^verbatim>\<open>Init\<close> close. The texts of \<^verbatim>\<open>log/slog\<close> for an entry are arguments. The mutex,
  which only orders \<^verbatim>\<open>Init\<close> and \<^verbatim>\<open>Close\<close>, is left out.
\<close>

section \<open>State\<close>

datatype log_level = LevelDebug | LevelInfo | LevelWarn | LevelError

text \<open>The numbers of \<^verbatim>\<open>log/slog\<close>.\<close>

fun log_rank :: "log_level \<Rightarrow> int" where
  "log_rank LevelDebug = -4"
| "log_rank LevelInfo = 0"
| "log_rank LevelWarn = 4"
| "log_rank LevelError = 8"

record log_entry =
  le_Level :: log_level
  le_Message :: string
  le_Args :: "any list"

record slogger =
  sl_stderr :: bool
  sl_file :: nat
  sl_level :: log_level

record log_state =
  ls_instance :: "slogger option"
  ls_logFile :: "nat option"
  ls_open :: "(nat \<times> path) list"
  ls_next :: nat
  ls_stderr :: bytes

record log_world =
  lw_text :: "log_entry \<Rightarrow> bytes"
  lw_default :: "log_entry \<Rightarrow> bytes"
  lw_date :: string
  lw_pid :: int
  lw_low :: "nat \<Rightarrow> nat"
  lw_pathText :: "path \<Rightarrow> string"

datatype log_error = LogDirFailed fs_error | LogOpenFailed path fs_error

section \<open>Writing\<close>

definition write_handle :: "fs \<Rightarrow> log_state \<Rightarrow> nat \<Rightarrow> bytes \<Rightarrow> fs" where
  "write_handle fs s h data =
     (case map_of (ls_open s) h of
        None \<Rightarrow> fs
      | Some p \<Rightarrow>
          (case map_of fs p of
             Some (File old) \<Rightarrow> put p (File (old @ data)) fs
           | _ \<Rightarrow> fs))"

text \<open>
  \<^verbatim>\<open>L()\<close> and the call of one of its methods. Without an instance it is the default of \<^verbatim>\<open>log/slog\<close>,
  which writes entries from \<^verbatim>\<open>LevelInfo\<close> on to the standard error.
\<close>

definition Log :: "log_world \<Rightarrow> fs \<Rightarrow> log_state \<Rightarrow> log_level \<Rightarrow> string \<Rightarrow> any list \<Rightarrow> fs \<times> log_state" where
  "Log w fs s level msg args =
     (let entry = \<lparr>le_Level = level, le_Message = msg, le_Args = args\<rparr>
      in case ls_instance s of
           None \<Rightarrow>
             if log_rank level < log_rank LevelInfo then (fs, s)
             else (fs, s\<lparr>ls_stderr := ls_stderr s @ lw_default w entry\<rparr>)
         | Some l \<Rightarrow>
             if log_rank level < log_rank (sl_level l) then (fs, s)
             else (write_handle fs s (sl_file l) (lw_text w entry),
                   if sl_stderr l then s\<lparr>ls_stderr := ls_stderr s @ lw_text w entry\<rparr> else s))"

definition slog_level :: "(nat \<Rightarrow> nat) \<Rightarrow> string \<Rightarrow> log_level" where
  "slog_level low level =
     (let l = ToLower low level
      in if l = ''debug'' then LevelDebug
         else if l = ''warn'' then LevelWarn
         else if l = ''error'' then LevelError
         else LevelInfo)"

definition close_handle :: "nat option \<Rightarrow> (nat \<times> path) list \<Rightarrow> (nat \<times> path) list" where
  "close_handle h files = (case h of None \<Rightarrow> files | Some i \<Rightarrow> filter (\<lambda>(j, p). j \<noteq> i) files)"

definition Logger_Init :: "log_world \<Rightarrow> fs \<Rightarrow> log_state \<Rightarrow> path \<Rightarrow> string \<Rightarrow> bool list \<Rightarrow> fs \<times> log_state \<times> log_error option" where
  "Logger_Init w fs s logDir level daemonMode =
     (let isDaemon = (length daemonMode > 0 \<and> hd daemonMode)
      in case MkdirAll fs [] logDir of
           Inl e \<Rightarrow> (fs, s, Some (LogDirFailed e))
         | Inr fs \<Rightarrow>
             (let fileName = ''shadiff-'' @ lw_date w @ ''.log'';
                  logPath = JoinPath logDir [fileName]
              in case AppendFile fs logPath [] of
                   Inl e \<Rightarrow> (fs, s, Some (LogOpenFailed logPath e))
                 | Inr fs \<Rightarrow>
                     (let f = ls_next s;
                          s = s\<lparr>ls_open := (f, logPath) # close_handle (ls_logFile s) (ls_open s), ls_next := Suc f, ls_logFile := Some f\<rparr>;
                          s = s\<lparr>ls_instance := Some \<lparr>sl_stderr = \<not> isDaemon, sl_file = f, sl_level = slog_level (lw_low w) level\<rparr>\<rparr>;
                          (fs, s) = Log w fs s LevelInfo ''Logger initialized''
                            [AnyString ''logPath'', AnyString (lw_pathText w logPath), AnyString ''pid'', AnyInt (lw_pid w),
                             AnyString ''daemon'', AnyBool isDaemon]
                      in (fs, s, None))))"

definition Logger_Close :: "log_state \<Rightarrow> log_state" where
  "Logger_Close s = s\<lparr>ls_open := close_handle (ls_logFile s) (ls_open s), ls_logFile := None\<rparr>"

section \<open>The methods\<close>

definition CaptureEvent where
  "CaptureEvent w fs s event attrs = Log w fs s LevelInfo ''[CAPTURE]'' ([AnyString ''event'', AnyString event] @ attrs)"

definition ReplayEvent where
  "ReplayEvent w fs s event attrs = Log w fs s LevelInfo ''[REPLAY]'' ([AnyString ''event'', AnyString event] @ attrs)"

definition DiffEvent where
  "DiffEvent w fs s event attrs = Log w fs s LevelInfo ''[DIFF]'' ([AnyString ''event'', AnyString event] @ attrs)"

definition DBHookEvent where
  "DBHookEvent w fs s event dbType attrs =
     Log w fs s LevelInfo ''[DBHOOK]'' ([AnyString ''event'', AnyString event, AnyString ''dbType'', AnyString dbType] @ attrs)"

definition SessionEvent where
  "SessionEvent w fs s event sessionID attrs =
     Log w fs s LevelInfo ''[SESSION]'' ([AnyString ''event'', AnyString event, AnyString ''session_id'', AnyString sessionID] @ attrs)"

definition Logger_Error where
  "Logger_Error w fs s msg err attrs = Log w fs s LevelError msg ([AnyString ''error'', AnyString err] @ attrs)"

definition Logger_Debug where
  "Logger_Debug w fs s msg attrs = Log w fs s LevelDebug msg attrs"

definition Logger_Info where
  "Logger_Info w fs s msg attrs = Log w fs s LevelInfo msg attrs"

definition Logger_Warn where
  "Logger_Warn w fs s msg attrs = Log w fs s LevelWarn msg attrs"

section \<open>Facts\<close>

text \<open>A logger whose instance writes to the file at \<open>p\<close>, open under the handle that \<^verbatim>\<open>Close\<close> closes.\<close>

definition logs_to :: "log_state \<Rightarrow> path \<Rightarrow> bool \<Rightarrow> log_level \<Rightarrow> bool" where
  "logs_to s p stderr level \<longleftrightarrow>
     (\<exists>h. ls_instance s = Some \<lparr>sl_stderr = stderr, sl_file = h, sl_level = level\<rparr> \<and> ls_logFile s = Some h \<and> map_of (ls_open s) h = Some p)"

lemma Log_to:
  assumes "logs_to s p stderr least" "map_of fs p = Some (File data)"
  shows "Log w fs s level msg args =
     (if log_rank level < log_rank least then (fs, s)
      else let line = lw_text w \<lparr>le_Level = level, le_Message = msg, le_Args = args\<rparr>
           in (put p (File (data @ line)) fs, if stderr then s\<lparr>ls_stderr := ls_stderr s @ line\<rparr> else s))"
  using assms by (auto simp: logs_to_def Log_def write_handle_def Let_def)

lemma Log_keeps: "logs_to s p stderr least \<Longrightarrow> Log w fs s level msg args = (fs', s') \<Longrightarrow> logs_to s' p stderr least"
  by (auto simp: logs_to_def Log_def Let_def split: if_splits)

lemma Log_file:
  assumes "logs_to s p stderr least" "map_of fs p = Some (File data)" "Log w fs s level msg args = (fs', s')"
  shows "\<exists>data'. map_of fs' p = Some (File data')"
  using assms(3) Log_to [OF assms(1,2), of w level msg args] assms(2) by (auto simp: Let_def split: if_splits)

lemma closed_writes_nothing: "logs_to s p stderr least \<Longrightarrow> fst (Log w fs (Logger_Close s) level msg args) = fs"
proof -
  assume l: "logs_to s p stderr least"
  have "map_of (filter (\<lambda>(j, p). j \<noteq> h) files) h = None" for h :: nat and files :: "(nat \<times> path) list"
    by (induction files) auto
  with l show ?thesis by (auto simp: logs_to_def Log_def Logger_Close_def close_handle_def write_handle_def Let_def)
qed

lemma AppendFile_file: "AppendFile fs p d = Inr fs' \<Longrightarrow> \<exists>data. map_of fs' p = Some (File data)"
  by (auto simp: AppendFile_def dest!: WriteFile_Inr split: option.splits node.splits)

lemma Logger_Init_to:
  assumes "Logger_Init w fs s logDir level [d] = (fs', s', None)"
  shows "logs_to s' (JoinPath logDir [''shadiff-'' @ lw_date w @ ''.log'']) (\<not> d) (slog_level (lw_low w) level)
     \<and> (\<exists>data. map_of fs' (JoinPath logDir [''shadiff-'' @ lw_date w @ ''.log'']) = Some (File data))"
proof -
  let ?p = "JoinPath logDir [''shadiff-'' @ lw_date w @ ''.log'']"
  obtain fs0 where mk: "MkdirAll fs [] logDir = Inr fs0"
    using assms by (cases "MkdirAll fs [] logDir") (simp_all add: Logger_Init_def Let_def)
  obtain fs1 where ap: "AppendFile fs0 ?p [] = Inr fs1"
    using assms mk by (cases "AppendFile fs0 ?p []") (simp_all add: Logger_Init_def Let_def)
  let ?s1 = "s\<lparr>ls_open := (ls_next s, ?p) # close_handle (ls_logFile s) (ls_open s), ls_next := Suc (ls_next s), ls_logFile := Some (ls_next s),
     ls_instance := Some \<lparr>sl_stderr = \<not> d, sl_file = ls_next s, sl_level = slog_level (lw_low w) level\<rparr>\<rparr>"
  have s1: "logs_to ?s1 ?p (\<not> d) (slog_level (lw_low w) level)" by (simp add: logs_to_def)
  obtain level' msg args where log: "Log w fs1 ?s1 level' msg args = (fs', s')"
    using assms mk ap by (simp add: Logger_Init_def Let_def split: prod.splits)
  show ?thesis using Log_keeps [OF s1 log] Log_file [OF s1 _ log] AppendFile_file [OF ap] by blast
qed

text \<open>The least level that is written, as the flags and the configuration say.\<close>

definition least_level :: "bool \<Rightarrow> bool \<Rightarrow> string \<Rightarrow> log_level" where
  "least_level quiet verbose level =
     (if quiet then LevelError else if verbose then LevelDebug
      else the (map_of [(''debug'', LevelDebug), (''info'', LevelInfo), (''warn'', LevelWarn), (''error'', LevelError)] level))"

lemma ToLower_levels:
  "ToLower low ''debug'' = ''debug''" "ToLower low ''warn'' = ''warn''" "ToLower low ''error'' = ''error''"
  by (simp_all add: ToLower_def is_ascii_def lower_char_def)

lemma slog_level_effective:
  assumes "config_wf low (rt_Config rt)"
  shows "slog_level low (effectiveLogLevel low quiet verbose rt) = least_level quiet verbose (ToLower low (lc_Level (cfg_Log (rt_Config rt))))"
  using assms by (auto simp: config_wf_def slog_level_def effectiveLogLevel_def least_level_def ToLower_levels ToLower_info)

section \<open>Properties\<close>

text \<open>
  C40. What is logged: with a validated configuration, a logger that a command has set up appends an
  entry to the log file of the day exactly if its level is at least the one that the flags and the
  configuration ask for, the very line also to the standard error unless in the background, and
  once it is closed it changes no file. With \<^verbatim>\<open>--quiet\<close> only errors are written.
\<close>

theorem logger_writes:
  assumes "config_wf low (rt_Config rt)" and "lw_low w = low"
    and "Logger_Init w fs s (rt_LogDir rt) (effectiveLogLevel low quiet verbose rt) [d] = (fs1, s1, None)"
    and p: "p = JoinPath (rt_LogDir rt) [''shadiff-'' @ lw_date w @ ''.log'']"
    and least: "least = least_level quiet verbose (ToLower low (lc_Level (cfg_Log (rt_Config rt))))"
    and line: "line = lw_text w \<lparr>le_Level = level, le_Message = msg, le_Args = args\<rparr>"
  shows "\<exists>data. map_of fs1 p = Some (File data)
     \<and> (if log_rank least \<le> log_rank level
        then Log w fs1 s1 level msg args = (put p (File (data @ line)) fs1, if d then s1 else s1\<lparr>ls_stderr := ls_stderr s1 @ line\<rparr>)
        else Log w fs1 s1 level msg args = (fs1, s1))
     \<and> fst (Log w fs1 (Logger_Close s1) level msg args) = fs1
     \<and> (quiet \<longrightarrow> (log_rank least \<le> log_rank level \<longleftrightarrow> level = LevelError))"
proof -
  have to: "logs_to s1 p (\<not> d) least" and "\<exists>data. map_of fs1 p = Some (File data)"
    using Logger_Init_to [OF assms(3)] slog_level_effective [OF assms(1)] by (simp_all add: p least assms(2))
  then obtain data where "map_of fs1 p = Some (File data)" by blast
  moreover have "quiet \<longrightarrow> (log_rank least \<le> log_rank level \<longleftrightarrow> level = LevelError)"
    by (cases level) (auto simp: least least_level_def)
  ultimately show ?thesis
    using Log_to [OF to, of fs1 data w level msg args] closed_writes_nothing [OF to] line by (auto simp: Let_def not_less)
qed

section \<open>Instances\<close>

definition demo_lw :: log_world where
  "demo_lw = \<lparr>lw_text = (\<lambda>e. le_Message e @ [CHR 0x0A]), lw_default = le_Message, lw_date = ''2024-01-01'', lw_pid = 7, lw_low = id,
     lw_pathText = concat\<rparr>"

definition demo_ls :: log_state where
  "demo_ls = \<lparr>ls_instance = None, ls_logFile = None, ls_open = [], ls_next = 0, ls_stderr = []\<rparr>"

theorem logger_writes_witness:
  "\<exists>fs1 s1 data. Logger_Init demo_lw demo_diff_fs demo_ls (rt_LogDir demo_rt) (effectiveLogLevel id True False demo_rt) [False] = (fs1, s1, None)
     \<and> Log demo_lw fs1 s1 LevelInfo ''hello'' [] = (fs1, s1)
     \<and> Log demo_lw fs1 s1 LevelError ''broken'' []
         = (put [''d'', ''logs'', ''shadiff-2024-01-01.log''] (File (data @ ''broken'' @ [CHR 0x0A])) fs1,
            s1\<lparr>ls_stderr := ls_stderr s1 @ ''broken'' @ [CHR 0x0A]\<rparr>)"
proof -
  have wf: "config_wf id (rt_Config demo_rt)" using DefaultConfig_valid [of id] by (simp add: Validate_iff demo_rt_def)
  have w: "lw_low demo_lw = id" by (simp add: demo_lw_def)
  have dir: "rt_LogDir demo_rt = [''d'', ''logs'']" by (simp add: demo_rt_def)
  have p: "[''d'', ''logs'', ''shadiff-2024-01-01.log''] = JoinPath (rt_LogDir demo_rt) [''shadiff-'' @ lw_date demo_lw @ ''.log'']"
    by (simp add: dir JoinPath_def demo_lw_def)
  have "\<exists>fs1 s1. Logger_Init demo_lw demo_diff_fs demo_ls (rt_LogDir demo_rt) (effectiveLogLevel id True False demo_rt) [False] = (fs1, s1, None)"
    by (simp add: Logger_Init_def Let_def dir demo_diff_fs_def AppendFile_def WriteFile_def parent_def JoinPath_def demo_lw_def case_prod_beta)
  then obtain fs1 s1 where init: "Logger_Init demo_lw demo_diff_fs demo_ls (rt_LogDir demo_rt) (effectiveLogLevel id True False demo_rt) [False] = (fs1, s1, None)"
    by blast
  note t = logger_writes [OF wf w init p refl refl]
  have l: "log_rank (least_level True False (ToLower id (lc_Level (cfg_Log (rt_Config demo_rt))))) = 8" by (simp add: least_level_def)
  from t [of LevelInfo "''hello''" "[]"] t [of LevelError "''broken''" "[]"] init l show ?thesis
    by (auto simp: demo_lw_def)
qed

end
