(* ===== verification/Spec2Isabelle.thy ===== *)
theory Spec2Isabelle
  imports Db_Hooks End_To_End Diff_Cmd Replay_Cmd Session_Cmd Doctor Process Command_Line Logger
begin

text \<open>
  A model of \<^emph>\<open>shadiff\<close>: the program records the HTTP traffic of a service together with the
  database operations that each request causes, replays the recorded requests against another
  service, and compares the two behaviours.

  \<^bold>\<open>How the parts interact.\<close> While a session is recorded, the capturing proxy
  (\<^verbatim>\<open>internal/capture/proxy.go\<close>) snapshots a request body, opens a scope of the recorder
  (\<^verbatim>\<open>recorder.go\<close>), forwards the request and closes the scope; the database proxies
  (\<^verbatim>\<open>internal/capture/dbhook\<close>) parse what the service sends to its databases and send the effects
  to the recorder, which attributes each one to a scope by its time and appends a record to the
  file store (\<^verbatim>\<open>internal/storage\<close>). Replaying (\<^verbatim>\<open>internal/replay\<close>) reads the records, sends the
  requests again with a pool of workers and appends replay records. The diff engine
  (\<^verbatim>\<open>internal/diff\<close>) pairs the two by sequence number and compares status, headers, JSON bodies
  and side effects under rules; reports count the results (\<^verbatim>\<open>internal/reporter\<close>).

  \<^bold>\<open>Theories.\<close> A theory has the definitions of its Go file, under their Go names where HOL leaves
  these free, in the order of the file, then the laws, then concrete instances.

  \<^item> \<^verbatim>\<open>Prelude\<close>: Go maps as lists of entries in any order of iteration, byte strings.
  \<^item> \<^verbatim>\<open>Go_Strings\<close>, \<^verbatim>\<open>Go_Unicode\<close>, \<^verbatim>\<open>Go_Float\<close>: what the program uses of \<^verbatim>\<open>strings\<close>,
    \<^verbatim>\<open>strconv\<close>, \<^verbatim>\<open>fmt\<close>, of UTF-8 and of \<^verbatim>\<open>float64\<close>.
  \<^item> \<^verbatim>\<open>Model\<close>: \<^verbatim>\<open>internal/model\<close> and \<^verbatim>\<open>internal/dbtype\<close>.
  \<^item> \<^verbatim>\<open>Json_Diff\<close> (\<^verbatim>\<open>diff/json.go\<close>): the comparator reports nothing exactly for equal values,
    where arrays may be taken as multisets.
  \<^item> \<^verbatim>\<open>Rules\<close> (\<^verbatim>\<open>diff/rules.go\<close>, \<^verbatim>\<open>rule_loader.go\<close>): compiled paths against a denotation of globs;
    what applying a rule set does.
  \<^item> \<^verbatim>\<open>Side_Effects\<close> (\<^verbatim>\<open>diff/db.go\<close>, \<^verbatim>\<open>mongo.go\<close>, \<^verbatim>\<open>redis.go\<close>, \<^verbatim>\<open>sideeffects.go\<close>): a comparer is an
    instance of the locale \<^verbatim>\<open>side_effect_comparer\<close>, a view of effects with equality of views.
  \<^item> \<^verbatim>\<open>Diff_Engine\<close> (\<^verbatim>\<open>diff/engine.go\<close>, \<^verbatim>\<open>reporter/summary.go\<close>): one comparison, a whole run over the
    store, the summaries.
  \<^item> \<^verbatim>\<open>File_System\<close>, \<^verbatim>\<open>Storage\<close> (\<^verbatim>\<open>storage/filestore.go\<close>): a file system as a finite map from paths
    to nodes, the store on it. The locale \<^verbatim>\<open>store_contract\<close> states that a concrete state refines
    an abstract one under an operation; sessions refine a finite map, record files a list.
  \<^item> \<^verbatim>\<open>Wire\<close>, \<^verbatim>\<open>Sql_Parsers\<close>, \<^verbatim>\<open>Redis_Parser\<close>, \<^verbatim>\<open>Mongo_Parser\<close> (\<^verbatim>\<open>capture/dbhook\<close>): the locale
    \<^verbatim>\<open>protocol_parser\<close> states that one message in front of the buffer is taken off and reported;
    from it follows that the effects are those of the messages, however the stream is cut.
  \<^item> \<^verbatim>\<open>Recorder\<close> (\<^verbatim>\<open>capture/recorder.go\<close>): each operation as a function, and the goroutines that
    share the recorder as a step relation with its invariant.
  \<^item> \<^verbatim>\<open>Capture_Proxy\<close> (\<^verbatim>\<open>capture/proxy.go\<close>): the handler from the request to the record.
  \<^item> \<^verbatim>\<open>Replay\<close> (\<^verbatim>\<open>internal/replay\<close>): requests, retries, the worker pool, a sequential run.
  \<^item> \<^verbatim>\<open>Db_Hooks\<close> (\<^verbatim>\<open>dbhook/hook.go\<close>, \<^verbatim>\<open>tcp_proxy.go\<close>): the goroutines of a database proxy as a step
    relation, for any parser; what flushing and stopping guarantee.
  \<^item> \<^verbatim>\<open>Html_Report\<close> (\<^verbatim>\<open>reporter/html.go\<close>): a page as pieces of markup and values; its tags do not
    depend on the recorded data.
  \<^item> \<^verbatim>\<open>Go_Duration\<close>, \<^verbatim>\<open>Config\<close> (\<^verbatim>\<open>internal/config\<close>), \<^verbatim>\<open>Pid_File\<close> (\<^verbatim>\<open>daemon/pidfile.go\<close>), \<^verbatim>\<open>Logger\<close>
    (\<^verbatim>\<open>internal/logger\<close>), \<^verbatim>\<open>Process\<close> (\<^verbatim>\<open>daemon/process_unix.go\<close>, \<^verbatim>\<open>process_windows.go\<close>): what the
    commands stand on.
  \<^item> \<^verbatim>\<open>Runtime\<close> (\<^verbatim>\<open>cmd/runtime.go\<close>, \<^verbatim>\<open>dbproxy.go\<close>), \<^verbatim>\<open>Record_Cmd\<close>, \<^verbatim>\<open>Record_Stop\<close>, \<^verbatim>\<open>Replay_Cmd\<close>,
    \<^verbatim>\<open>Diff_Cmd\<close>, \<^verbatim>\<open>Session_Cmd\<close>, \<^verbatim>\<open>Doctor\<close> (the files of \<^verbatim>\<open>cmd\<close>): each command as a function of its
    flags, the runtime, its world and the files.
  \<^item> \<^verbatim>\<open>Command_Line\<close> (\<^verbatim>\<open>main.go\<close>, \<^verbatim>\<open>cmd/root.go\<close>, \<^verbatim>\<open>version.go\<close>, the declarations of the commands): the
    commands with their flags, and how the child of a background recording reads its arguments.
  \<^item> \<^verbatim>\<open>End_To_End\<close>: what the proxy captures is what the replay sends, and a service that answers as the
    old one did is found to match.
  \<^item> This theory: what replaying and comparing do together, in the engines and from the command
    line, where a comparison is the gate of a migration.

  \<^bold>\<open>Errors and effects.\<close> A Go function that returns an error returns a sum, or the new state with
  an optional error; a panic is a value of its own. State is passed explicitly, the file system
  too. Where goroutines share state the model is an inductive relation between states, and the
  theorems hold for every interleaving. Loops are structural recursion or have a measure; the
  reads of a body and the attempts of a replay are bounded by the data. No fuel is used.

  \<^bold>\<open>Parameters.\<close> Code that is not in the repository is an argument of the definitions that use it:
  JSON encoding and decoding (\<^verbatim>\<open>json_codec\<close>, \<^verbatim>\<open>config_codec\<close>, \<^verbatim>\<open>unmarshal\<close>), the case tables of Unicode (\<^verbatim>\<open>up\<close>,
  \<^verbatim>\<open>low\<close>), the clock, new UUIDs, the reverse proxy, the HTTP client, \<^verbatim>\<open>url.Parse\<close> and the checks of
  \<^verbatim>\<open>http.NewRequest\<close>. A command takes them in one record, its world, together with what other
  processes do to the files and to each other while it waits. A theorem that relies on one of them says so: \<^verbatim>\<open>record_ok\<close>, for instance,
  states that a record decodes to itself and that its line is below the limit of the scanner.

  \<^bold>\<open>Not modelled.\<close> The calls of the logger in the other components, whose files are none of those
  that the store and the commands read; the bytes of the lines that a command prints, the lines
  themselves are modelled; the help texts of the commands; the parser of the command line framework,
  a parameter; waiting between replays, which changes no result; the examples.
\<close>

section \<open>Replaying and comparing\<close>

lemma ReadFile_frame:
  assumes "\<And>q. q \<noteq> base @ [sid, f] \<Longrightarrow> map_of fs' q = map_of fs q" "g \<noteq> f"
  shows "ReadFile fs' (base @ [sid, g]) = ReadFile fs (base @ [sid, g])"
  by (rule ReadFile_cong)
    (use assms in \<open>auto simp: strict_prefix_def prefix_def append_eq_append_conv2 append_eq_Cons_conv Cons_eq_append_conv\<close>)

lemma listRecords_frame:
  assumes "store_inv st fs" "plain_name sid" "g \<in> set store_files" "g \<noteq> f"
    "\<And>q. q \<noteq> store_baseDir st @ [sid, f] \<Longrightarrow> map_of fs' q = map_of fs q"
  shows "listRecords json st fs' sid g = listRecords json st fs sid g"
proof -
  have "JoinPath (store_baseDir st) [sid, g] = store_baseDir st @ [sid, g]"
    using store_path(2) [OF assms(1,2)] plain_store_file [OF assms(3)] by simp
  then show ?thesis using ReadFile_frame [OF assms(5,4)] by (simp add: listRecords_def)
qed

lemma Get_frame:
  assumes "store_inv st fs" "plain_name sid" "f \<noteq> ''session.json''"
    "\<And>q. q \<noteq> store_baseDir st @ [sid, f] \<Longrightarrow> map_of fs' q = map_of fs q"
  shows "Get json st fs' sid = Get json st fs sid"
  using ReadFile_frame [OF assms(4), where g = "''session.json''"] assms(3)
  by (simp add: Get_def loadSession_def session_json_path [OF assms(1,2)])

lemma save_replays_records:
  assumes "records_inv st sid ''replay-records.jsonl'' fs" "list_all (\<lambda>r. record_ok json (rp_Replayed r)) results"
  shows "ListRecords json st (save_replays json st fs sid results) sid = ListRecords json st fs sid"
  unfolding ListRecords_def
  by (rule listRecords_frame [where f = "''replay-records.jsonl''"])
    (use assms save_replays_spec [OF assms] in \<open>auto simp: records_inv_def store_files_def\<close>)

definition replays :: "Record \<Rightarrow> ReplayResult \<Rightarrow> bool" where
  "replays original result \<longleftrightarrow> rec_Sequence (rp_Replayed result) = rec_Sequence original
     \<and> (rp_Error result \<noteq> None \<longrightarrow> rec_Error (rp_Replayed result) \<noteq> '''')"

lemma replayOne_replays: "replays r (replayOne etext accepts fs wp w r)"
  using replayOne_error [of etext accepts fs wp w r] by (simp add: replays_def replayOne_fixed)

lemma executeSequential_replays:
  "length ws = length records \<Longrightarrow> list_all2 replays records (fst (executeSequentialWithSideEffects etext accepts fs e ws records))"
proof (induction records arbitrary: ws e)
  case (Cons r records)
  then obtain w arrivals ws' where ws: "ws = (w, arrivals) # ws'" "length ws' = length records" by (cases ws) auto
  show ?case using Cons.IH [OF ws(2)] replayOne_replays [of r etext accepts fs "re_pool e" w]
    by (simp add: ws Let_def case_prod_beta replays_def)
qed simp

lemma Execute_replays: "list_all2 replays records (Execute etext accepts fs wp w records)"
  by (auto simp: Execute_def list_all2_conv_all_nth replayOne_replays)

lemma Replay_Run_done:
  assumes "Replay_Run json etext accepts w fs e = (fs', e', Inr results)"
  obtains originals where "ListRecords json (re_store e) fs (re_sessionID e) = (originals, None)" "originals \<noteq> []"
    "fs' = save_replays json (re_store e) fs (re_sessionID e) results" "list_all2 replays originals results"
proof -
  obtain originals where o: "ListRecords json (re_store e) fs (re_sessionID e) = (originals, None)" "originals \<noteq> []"
    using assms by (auto simp: Replay_Run_def split: prod.splits option.splits if_splits)
  have "list_all2 replays originals
      (fst (executeSequentialWithSideEffects etext accepts fs e (map w [0 ..< length originals]) originals))"
    by (rule executeSequential_replays) simp
  moreover have "list_all2 replays originals (Execute etext accepts fs (re_pool e) (\<lambda>i. fst (w i)) originals)"
    by (rule Execute_replays)
  ultimately show thesis
    using that [OF o] assms o by (auto simp: Replay_Run_def Let_def case_prod_beta split: if_splits)
qed

lemma last_of_suffix:
  assumes "distinct (map rec_Sequence originals)" "map rec_Sequence new = map rec_Sequence originals" "i < length originals"
  shows "last (filter (\<lambda>r. rec_Sequence r = rec_Sequence (originals ! i)) (old @ new)) = new ! i
     \<and> filter (\<lambda>r. rec_Sequence r = rec_Sequence (originals ! i)) (old @ new) \<noteq> []"
proof -
  have len: "length new = length originals" using arg_cong [OF assms(2), of length] by simp
  have s: "rec_Sequence (new ! j) = rec_Sequence (originals ! j)" if "j < length originals" for j
    using arg_cong [OF assms(2), of "\<lambda>xs. xs ! j"] that len by simp
  have inj: "j = i" if "j < length originals" "rec_Sequence (originals ! j) = rec_Sequence (originals ! i)" for j
    using assms(1,3) that by (auto simp: distinct_conv_nth)
  let ?P = "\<lambda>r. rec_Sequence r = rec_Sequence (originals ! i)"
  have split: "take i new @ new ! i # drop (Suc i) new = new" using assms(3) len by (simp add: id_take_nth_drop [symmetric])
  have none: "filter ?P (drop (Suc i) new) = []"
  proof (intro filter_False ballI)
    fix r
    assume "r \<in> set (drop (Suc i) new)"
    then obtain j where "j < length new - Suc i" "r = new ! (Suc i + j)" by (auto simp: in_set_conv_nth)
    then have b: "Suc i + j < length originals" and r: "r = new ! (Suc i + j)" using len by simp_all
    show "rec_Sequence r \<noteq> rec_Sequence (originals ! i)"
    proof
      assume "rec_Sequence r = rec_Sequence (originals ! i)"
      then have "Suc i + j = i" using inj [OF b] s [OF b] r by simp
      then show False by simp
    qed
  qed
  have "filter ?P (take i new @ new ! i # drop (Suc i) new) = filter ?P (take i new) @ [new ! i]"
    using s [OF assms(3)] by (simp add: none)
  then show ?thesis unfolding split by simp
qed

text \<open>The comparison after a replay, whatever replays are stored before those of this run.\<close>

lemma diff_after_replay:
  assumes recs: "ListRecords json st fs (eng_sessionID de) = (originals, None)" "originals \<noteq> []"
    and seqs: "distinct (map rec_Sequence originals)"
    and stored: "ListReplayRecords json st fs (eng_sessionID de) = (old @ map rp_Replayed results, None)"
    and pairs: "list_all2 replays originals results"
  shows "\<exists>fs' diffs. Run up unmarshal json st de fs = (fs', Inr diffs) \<and> length diffs = length originals
     \<and> list_all (\<lambda>i. diffs ! i = compareRecords up unmarshal de (originals ! i) (rp_Replayed (results ! i))
          \<and> (if rp_Error (results ! i) \<noteq> None then \<not> res_Match (diffs ! i) else True)) [0 ..< length originals]"
proof -
  have len: "length results = length originals" using pairs by (simp add: list_all2_lengthD)
  have nth: "replays (originals ! i) (results ! i)" if "i < length originals" for i using pairs that by (rule list_all2_nthD)
  have seq: "map rec_Sequence (map rp_Replayed results) = map rec_Sequence originals"
    by (rule nth_equalityI) (use len nth in \<open>simp_all add: replays_def\<close>)
  define diffs where "diffs = map (compare_original up unmarshal de (replay_index Map.empty (old @ map rp_Replayed results))) originals"
  have ne: "old @ map rp_Replayed results \<noteq> []" using recs(2) len by auto
  have diff: "Run up unmarshal json st de fs = (fst (SaveResults json st fs (eng_sessionID de) diffs), Inr diffs)"
    using recs stored ne by (simp add: Run_def Let_def diffs_def)
  have pair: "diffs ! i = compareRecords up unmarshal de (originals ! i) (rp_Replayed (results ! i))" if i: "i < length originals" for i
    using last_of_suffix [OF seqs seq i, of old] i len
    by (auto simp: diffs_def compare_original_def replay_index_last split: list.splits)
  have failed: "\<not> res_Match (diffs ! i)" if i: "i < length originals" and "rp_Error (results ! i) \<noteq> None" for i
    using nth [OF i] that(2) by (simp add: pair [OF i] compareRecords_def replays_def)
  have "length diffs = length originals" by (simp add: diffs_def)
  with diff pair failed show ?thesis by (auto simp: list_all_iff)
qed

text \<open>
  C4. Replaying a session and then comparing it: whatever earlier runs have left, each recorded
  request is compared with its own replay of the run just made, however many workers made it; and a
  replay that failed is never a match.
\<close>

theorem replay_then_diff:
  assumes ch: "re_sideEffectCh e = None"
    and recs: "ListRecords json (re_store e) fs (re_sessionID e) = (originals, None)" "originals \<noteq> []"
    and seqs: "distinct (map rec_Sequence originals)"
    and inv: "records_inv (re_store e) (re_sessionID e) ''replay-records.jsonl'' fs"
    and results: "results = Execute etext accepts fs (re_pool e) (\<lambda>i. fst (w i)) originals"
    and ok: "list_all (\<lambda>r. record_ok json (rp_Replayed r)) results"
    and session: "eng_sessionID de = re_sessionID e"
  shows "\<exists>fs' fs'' diffs. Replay_Run json etext accepts w fs e = (fs', e, Inr results)
     \<and> Run up unmarshal json (re_store e) de fs' = (fs'', Inr diffs) \<and> length diffs = length originals
     \<and> list_all (\<lambda>i. diffs ! i = compareRecords up unmarshal de (originals ! i) (rp_Replayed (results ! i))
          \<and> (if rp_Error (results ! i) \<noteq> None then \<not> res_Match (diffs ! i) else True)) [0 ..< length originals]"
proof -
  let ?fs' = "save_replays json (re_store e) fs (re_sessionID e) results"
  have run: "Replay_Run json etext accepts w fs e = (?fs', e, Inr results)"
    using recs ch by (simp add: Replay_Run_def Let_def results)
  have "list_all2 replays originals results" by (simp add: results Execute_replays)
  moreover have "ListRecords json (re_store e) ?fs' (eng_sessionID de) = (originals, None)"
    using save_replays_records [OF inv ok] recs by (simp add: session)
  moreover obtain old where "ListReplayRecords json (re_store e) ?fs' (eng_sessionID de) = (old @ map rp_Replayed results, None)"
    using save_replays_spec [OF inv ok] session by auto
  ultimately show ?thesis using run diff_after_replay [of json "re_store e" ?fs' de originals old results up unmarshal] recs(2) seqs by blast
qed

lemma runReplay_done:
  assumes "runReplay w rt flags fs = (fs1, Inr s)"
  obtains fs0 st sid dbProxies timeout fsr e' results where
    "NewFileStore fs (rt_DataDir rt) = Inr (fs0, st)" "resolveSession (aw_json w) st fs0 (pg_Session flags) = Inr sid"
    "resolveReplayDBProxies (pg_DBProxyChanged flags) (pg_DBProxy flags) (rt_Config rt) = Inr dbProxies"
    "ParseDuration (rc_Timeout (cfg_Replay (rt_Config rt))) = Some timeout"
    "Replay_Run (aw_json w) (aw_etext w) (aw_accepts w) (aw_requests w) fs0 (replay_engine rt flags dbProxies st sid timeout) = (fsr, e', Inr results)"
    "fs1 = mark_replayed w st fsr sid (pg_Target flags)"
    "s = \<lparr>su_Total = length results, su_Succeeded = length results - count_errors results, su_Failed = count_errors results\<rparr>"
  using assms
  by (auto simp: runReplay_def Let_def split: sum.splits option.splits prod.splits if_splits)

lemma replay_engine_fields [simp]:
  "re_store (replay_engine rt flags dbProxies st sid timeout) = st"
  "re_sessionID (replay_engine rt flags dbProxies st sid timeout) = sid"
  by (simp_all add: replay_engine_def NewReplayEngine_def Let_def)

lemma mark_replayed_frame:
  assumes inv: "store_inv st fs" "plain_name sid" and get: "Get (aw_json w) st fs sid = Inr sess" "sess_ID sess = sid"
    and ok: "session_ok (aw_json w) (sess\<lparr>sess_Status := SessionReplayed, sess_Target := \<lparr>ep_BaseURL = target, ep_Headers = []\<rparr>, sess_UpdatedAt := aw_now w\<rparr>)"
  shows "store_inv st (mark_replayed w st fs sid target)"
    and "Get (aw_json w) st (mark_replayed w st fs sid target) sid
       = Inr (sess\<lparr>sess_Status := SessionReplayed, sess_Target := \<lparr>ep_BaseURL = target, ep_Headers = []\<rparr>, sess_UpdatedAt := aw_now w\<rparr>)"
    and "\<And>q. q \<noteq> store_baseDir st @ [sid, ''session.json''] \<Longrightarrow> map_of (mark_replayed w st fs sid target) q = map_of fs q"
proof -
  let ?s = "sess\<lparr>sess_Status := SessionReplayed, sess_Target := \<lparr>ep_BaseURL = target, ep_Headers = []\<rparr>\<rparr>"
  have dir: "map_of fs (store_baseDir st @ [sess_ID ?s]) = Some Dir" using Get_dir [OF inv get(1)] get(2) by simp
  obtain d where u: "Update (aw_json w) st (aw_now w) fs ?s
      = (put (store_baseDir st @ [sid, ''session.json'']) (File d) fs, ?s\<lparr>sess_UpdatedAt := aw_now w\<rparr>, None)"
    "unmarshalSession (aw_json w) d = Some (?s\<lparr>sess_UpdatedAt := aw_now w\<rparr>)"
    "store_inv st (put (store_baseDir st @ [sid, ''session.json'']) (File d) fs)"
    using Update_at [OF inv(1) _ dir, of "aw_json w" "aw_now w"] ok get(2) by auto
  then have m: "mark_replayed w st fs sid target = put (store_baseDir st @ [sid, ''session.json'']) (File d) fs"
    using get by (simp add: mark_replayed_def)
  show "store_inv st (mark_replayed w st fs sid target)" unfolding m by (rule u(3))
  show "Get (aw_json w) st (mark_replayed w st fs sid target) sid = Inr (?s\<lparr>sess_UpdatedAt := aw_now w\<rparr>)"
    by (rule Get_file [OF inv _ _ u(2)]) (use inv(1) in \<open>simp_all add: m store_inv_def\<close>)
  show "map_of (mark_replayed w st fs sid target) q = map_of fs q" if "q \<noteq> store_baseDir st @ [sid, ''session.json'']" for q
    using that by (simp add: m)
qed

definition marked :: "replay_cmd_world \<Rightarrow> string \<Rightarrow> Session \<Rightarrow> Session" where
  "marked w target sess =
     sess\<lparr>sess_Status := SessionReplayed, sess_Target := \<lparr>ep_BaseURL = target, ep_Headers = []\<rparr>, sess_UpdatedAt := aw_now w\<rparr>"

text \<open>What a replay from the command line leaves in the store.\<close>

lemma replay_leaves:
  assumes run: "Replay_Run (aw_json w) etext accepts reqs fs0 e = (fsr, e', Inr results)" "re_store e = st" "re_sessionID e = sid"
    and store: "records_inv st sid ''replay-records.jsonl'' fs0" "list_all (\<lambda>r. record_ok (aw_json w) (rp_Replayed r)) results"
    and session: "Get (aw_json w) st fs0 sid = Inr sess" "sess_ID sess = sid" "session_ok (aw_json w) (marked w target sess)"
    and fs1: "fs1 = mark_replayed w st fsr sid target"
  obtains originals old where "ListRecords (aw_json w) st fs0 sid = (originals, None)" "originals \<noteq> []"
    "list_all2 replays originals results" "store_inv st fs1" "Get (aw_json w) st fs1 sid = Inr (marked w target sess)"
    "ListRecords (aw_json w) st fs1 sid = (originals, None)"
    "ListReplayRecords (aw_json w) st fs1 sid = (old @ map rp_Replayed results, None)"
proof -
  let ?json = "aw_json w"
  obtain originals where o: "ListRecords ?json st fs0 sid = (originals, None)" "originals \<noteq> []"
    and fsr: "fsr = save_replays ?json st fs0 sid results" and pairs: "list_all2 replays originals results"
    using Replay_Run_done [OF run(1)] run(2,3) by auto
  have inv0: "store_inv st fs0" "plain_name sid" using store(1) by (simp_all add: records_inv_def)
  have saved: "records_inv st sid ''replay-records.jsonl'' fsr"
      "\<And>q. q \<noteq> store_baseDir st @ [sid, ''replay-records.jsonl''] \<Longrightarrow> map_of fsr q = map_of fs0 q"
    using save_replays_spec [OF store] by (simp_all add: fsr)
  have invr: "store_inv st fsr" using saved(1) by (simp add: records_inv_def)
  have getr: "Get ?json st fsr sid = Inr sess"
    using Get_frame [OF inv0, where f = "''replay-records.jsonl''" and fs' = fsr and json = ?json] saved(2) session(1) by simp
  note mark = mark_replayed_frame [OF invr inv0(2) getr session(2) session(3) [unfolded marked_def], folded fs1 marked_def]
  have recs: "ListRecords ?json st fs1 sid = (originals, None)"
    using listRecords_frame [OF invr inv0(2), where f = "''session.json''" and fs' = fs1 and g = "''records.jsonl''" and json = ?json]
      mark(3) save_replays_records [OF store] o(1)
    by (simp add: ListRecords_def fsr store_files_def)
  obtain old where "ListReplayRecords ?json st fsr sid = (old @ map rp_Replayed results, None)"
    using save_replays_spec [OF store] unfolding fsr by blast
  then have reps: "ListReplayRecords ?json st fs1 sid = (old @ map rp_Replayed results, None)"
    using listRecords_frame [OF invr inv0(2), where f = "''session.json''" and fs' = fs1 and g = "''replay-records.jsonl''" and json = ?json] mark(3)
    by (simp add: ListReplayRecords_def store_files_def)
  show thesis by (rule that [OF o pairs mark(1,2) recs reps])
qed

text \<open>
  C1. The gate of a migration: if replaying a session from the command line succeeds and comparing it
  right after succeeds under the policy \<^verbatim>\<open>diff\<close>, then the replay has no failures and every recorded
  request has been answered in this very run in a way that the rules let pass; whatever earlier
  replays have left in the store, and with database proxies as without.
\<close>

theorem migration_gate:
  assumes replay: "runReplay w rt rflags fs = (fs1, Inr s)"
    and diff: "runDiff cw rt dflags fs1 = (fs2, Some rep, None)" "ToLower (cw_low cw) (currentDiffFailOn dflags) = ''diff''"
    and same: "cw_json cw = aw_json w" "pg_Session rflags = sid" "dg_Session dflags = sid"
    and store: "NewFileStore fs (rt_DataDir rt) = Inr (fs0, st)" "records_inv st sid ''replay-records.jsonl'' fs0"
    and session: "Get (aw_json w) st fs0 sid = Inr sess" "sess_ID sess = sid"
      "session_ok (aw_json w) (marked w (pg_Target rflags) sess)"
    and originals: "ListRecords (aw_json w) st fs0 sid = (originals, None)" "distinct (map rec_Sequence originals)"
    and codec: "\<And>dbProxies timeout fsr e' results.
        resolveReplayDBProxies (pg_DBProxyChanged rflags) (pg_DBProxy rflags) (rt_Config rt) = Inr dbProxies \<Longrightarrow>
        ParseDuration (rc_Timeout (cfg_Replay (rt_Config rt))) = Some timeout \<Longrightarrow>
        Replay_Run (aw_json w) (aw_etext w) (aw_accepts w) (aw_requests w) fs0 (replay_engine rt rflags dbProxies st sid timeout)
          = (fsr, e', Inr results) \<Longrightarrow>
        list_all (\<lambda>r. record_ok (aw_json w) (rp_Replayed r)) results"
  shows "su_Total s = length originals \<and> su_Failed s = 0
     \<and> (\<exists>dbProxies timeout fsr e' results rules engine.
          Replay_Run (aw_json w) (aw_etext w) (aw_accepts w) (aw_requests w) fs0 (replay_engine rt rflags dbProxies st sid timeout)
            = (fsr, e', Inr results)
        \<and> diff_rules cw (rt_Config rt) dflags = Inr rules
        \<and> NewEngine (diff_engine_config (rt_Config rt) dflags sid rules) = Some engine
        \<and> list_all2 (\<lambda>original result. rp_Error result = None
             \<and> res_Match (compareRecords (cw_up cw) (cw_unmarshal cw) engine original (rp_Replayed result))) originals results)"
proof -
  let ?json = "aw_json w"
  from replay obtain fs0' st' sid' dbProxies timeout fsr e' results where
    r: "NewFileStore fs (rt_DataDir rt) = Inr (fs0', st')" "resolveSession ?json st' fs0' (pg_Session rflags) = Inr sid'"
      "resolveReplayDBProxies (pg_DBProxyChanged rflags) (pg_DBProxy rflags) (rt_Config rt) = Inr dbProxies"
      "ParseDuration (rc_Timeout (cfg_Replay (rt_Config rt))) = Some timeout"
      "Replay_Run ?json (aw_etext w) (aw_accepts w) (aw_requests w) fs0' (replay_engine rt rflags dbProxies st' sid' timeout) = (fsr, e', Inr results)"
      "fs1 = mark_replayed w st' fsr sid' (pg_Target rflags)"
      "s = \<lparr>su_Total = length results, su_Succeeded = length results - count_errors results, su_Failed = count_errors results\<rparr>"
    by (rule runReplay_done)
  have eq: "fs0' = fs0" "st' = st" "sid' = sid" using r(1,2) store(1) session same(2) by (auto simp: resolveSession_def)
  note run = r(5) [unfolded eq]
  have ok: "list_all (\<lambda>r. record_ok ?json (rp_Replayed r)) results" by (rule codec [OF r(3,4) run])
  have e: "re_store (replay_engine rt rflags dbProxies st sid timeout) = st"
    "re_sessionID (replay_engine rt rflags dbProxies st sid timeout) = sid" by simp_all
  obtain originals' old where o: "ListRecords ?json st fs0 sid = (originals', None)" "originals' \<noteq> []"
    and pairs': "list_all2 replays originals' results" and inv1: "store_inv st fs1"
    and get1: "Get ?json st fs1 sid = Inr (marked w (pg_Target rflags) sess)"
    and recs': "ListRecords ?json st fs1 sid = (originals', None)"
    and reps: "ListReplayRecords ?json st fs1 sid = (old @ map rp_Replayed results, None)"
    by (rule replay_leaves [OF run e store(2) ok session r(6) [unfolded eq]])
  have "originals' = originals" using o(1) originals(1) by simp
  then have ne: "originals \<noteq> []" and pairs: "list_all2 replays originals results"
    and recs: "ListRecords ?json st fs1 sid = (originals, None)" using o(2) pairs' recs' by simp_all
  from diff(1) obtain fs1' st1 sid1 rules engine fs3 diffs where
    d: "NewFileStore fs1 (rt_DataDir rt) = Inr (fs1', st1)" "resolveSession ?json st1 fs1' (dg_Session dflags) = Inr sid1"
      "diff_rules cw (rt_Config rt) dflags = Inr rules"
      "NewEngine (diff_engine_config (rt_Config rt) dflags sid1 rules) = Some engine"
      "Run (cw_up cw) (cw_unmarshal cw) ?json st1 engine fs1' = (fs3, Inr diffs)"
    and gate: "enforceDiffFailOn (cw_low cw) (currentDiffFailOn dflags) ((FormatDiffSummary diffs)\<lparr>sum_SessionID := sid1\<rparr>) = None"
    by (rule runDiff_done) (auto simp: same(1))
  have eq1: "fs1' = fs1" "st1 = st" "sid1 = sid"
    using d(1,2) NewFileStore_again [OF store(1) inv1] get1 session(2) same(3) by (auto simp: resolveSession_def marked_def)
  have match: "list_all res_Match diffs" using gate by (simp add: enforce_diff [OF diff(2)] DiffCount_zero)
  have eid: "eng_sessionID engine = sid" using NewEngine_fields [OF d(4)] by (simp add: diff_engine_config_def eq1)
  have len: "length results = length originals" using pairs by (simp add: list_all2_lengthD)
  obtain fs4 ds where ds: "Run (cw_up cw) (cw_unmarshal cw) ?json st engine fs1 = (fs4, Inr ds)" "length ds = length originals"
      "list_all (\<lambda>i. ds ! i = compareRecords (cw_up cw) (cw_unmarshal cw) engine (originals ! i) (rp_Replayed (results ! i))
          \<and> (if rp_Error (results ! i) \<noteq> None then \<not> res_Match (ds ! i) else True)) [0 ..< length originals]"
    using diff_after_replay [of ?json st fs1 engine originals old results "cw_up cw" "cw_unmarshal cw"] recs ne originals(2) reps pairs
    unfolding eid by blast
  have "ds = diffs" using d(5) ds(1) by (simp add: eq1)
  with ds match have all: "list_all2 (\<lambda>original result. rp_Error result = None
       \<and> res_Match (compareRecords (cw_up cw) (cw_unmarshal cw) engine original (rp_Replayed result))) originals results"
    by (auto simp: list_all2_conv_all_nth len list_all_iff all_set_conv_all_nth split: if_splits)
  have "list_all (\<lambda>r. rp_Error r = None) results" using all len by (auto simp: list_all2_conv_all_nth list_all_length)
  then have "count_errors results = 0" by (simp add: count_errors_filter list_all_iff)
  with all len d(3,4) run show ?thesis unfolding r(7) eq1 by simp blast
qed

section \<open>Instances\<close>

text \<open>A service that answers as recorded; the codec tells the recorded request, its replay and the marked session apart.\<close>

definition gate_rw :: replay_world where
  "gate_rw =
     \<lparr>rw_started = 5, rw_finished = 8, rw_duration = 3, rw_uuid = ''89abcdef-01'',
      rw_do = \<lambda>i req. Inr \<lparr>rs_StatusCode = 200, rs_Header = [], rs_Body = Inr []\<rparr>\<rparr>"

definition gate_engine :: ReplayEngine where
  "gate_engine = replay_engine demo_rt demo_pflags [] demo_diff_store ''s1'' 30000000000"

definition gate_result :: ReplayResult where
  "gate_result = replayOne (\<lambda>e. ''e'') (\<lambda>m u. True) demo_diff_fs (re_pool gate_engine) gate_rw demo_record"

definition gate_marked :: Session where
  "gate_marked = demo_session\<lparr>sess_Status := SessionReplayed, sess_Target := \<lparr>ep_BaseURL = ''http://t'', ep_Headers = []\<rparr>, sess_UpdatedAt := 9\<rparr>"

definition gate_json :: json_codec where
  "gate_json = demo_json\<lparr>marshalSession := \<lambda>s. Some ''p'', unmarshalSession := \<lambda>d. Some (if d = ''p'' then gate_marked else demo_session),
     marshalRecord := \<lambda>r. Some ''p'', unmarshalRecord := \<lambda>d. Some (if d = ''p'' then rp_Replayed gate_result else demo_record)\<rparr>"

definition gate_aw :: replay_cmd_world where
  "gate_aw = demo_aw\<lparr>aw_json := gate_json, aw_requests := \<lambda>i. (gate_rw, [])\<rparr>"

definition gate_cw :: cmd_world where
  "gate_cw = (demo_cw [])\<lparr>cw_json := gate_json\<rparr>"

lemma gate_result_ok: "rp_Error gate_result = None"
  "rec_Response (rp_Replayed gate_result) = \<lparr>resp_StatusCode = 200, resp_Headers = [], resp_Body = [], resp_BodyLen = 0\<rparr>"
  "rec_SideEffects (rp_Replayed gate_result) = []" "rec_Error (rp_Replayed gate_result) = ''''"
  by (simp_all add: gate_result_def replayOne_def Let_def buildReplayRequest_def demo_record_def TransformWithBody_def gate_rw_def
      do_request_def replayed_record_def gate_engine_def replay_engine_def NewReplayEngine_def NewWorkerPool_def demo_rt_def demo_pflags_def
      DefaultConfig_def effectiveInt_def)

lemma gate_simps:
  "aw_json gate_aw = gate_json" "aw_etext gate_aw = (\<lambda>e. ''e'')" "aw_accepts gate_aw = (\<lambda>m u. True)" "aw_requests gate_aw = (\<lambda>i. (gate_rw, []))"
  "aw_logger gate_aw" "aw_now gate_aw = 9" "cw_json gate_cw = gate_json" "cw_low gate_cw = id" "cw_up gate_cw = id"
  "cw_unmarshal gate_cw = (\<lambda>b. None)" "cw_logger gate_cw" "cw_render gate_cw = (\<lambda>r. Some [])"
  by (simp_all add: gate_aw_def gate_cw_def demo_aw_def demo_cw_def)

lemma gate_matches:
  assumes "NewEngine (diff_engine_config DefaultConfig demo_dflags ''s1'' []) = Some e"
  shows "res_Match (compareRecords id (\<lambda>b. None) e demo_record (rp_Replayed gate_result))"
proof -
  have "raw_differences id (\<lambda>b. None) e demo_record (rp_Replayed gate_result) = []"
    by (simp add: raw_differences_def gate_result_ok demo_record_def compareHeaders_def) code_simp
  then show ?thesis
    using Apply_ignored [OF NewEngine_fields(1) [OF assms], of "[]"] by (simp add: compareRecords_def gate_result_ok all_ignored_iff)
qed

lemma gate_run:
  "Replay_Run gate_json (\<lambda>e. ''e'') (\<lambda>m u. True) (\<lambda>i. (gate_rw, [])) demo_diff_fs gate_engine
     = (save_replays gate_json demo_diff_store demo_diff_fs ''s1'' [gate_result], gate_engine, Inr [gate_result])"
proof -
  have "ListRecords gate_json demo_diff_store demo_diff_fs ''s1'' = ([demo_record], None)"
    by (rule demo_diff_lists) (simp add: gate_json_def)
  moreover have "re_store gate_engine = demo_diff_store" "re_sessionID gate_engine = ''s1''" "re_sideEffectCh gate_engine = None"
    by (simp_all add: gate_engine_def) (simp add: replay_engine_def NewReplayEngine_def Let_def)
  ultimately show ?thesis by (simp add: Replay_Run_def Execute_def gate_result_def)
qed

lemma gate_timeout: "ParseDuration (rc_Timeout (cfg_Replay DefaultConfig)) = Some 30000000000"
proof -
  have "Itoa 30 @ ''s'' = ''30s''" by (simp add: Itoa_def nat_str.simps digit_char_def char_of_def bit_0)
  with ParseDuration_s [of 30] show ?thesis by (simp add: DefaultConfig_def)
qed

lemma gate_flags:
  "resolveReplayDBProxies (pg_DBProxyChanged demo_pflags) (pg_DBProxy demo_pflags) DefaultConfig = Inr []"
  "effectiveInt (pg_ConcurrencyChanged demo_pflags) (pg_Concurrency demo_pflags) (rc_Concurrency (cfg_Replay DefaultConfig)) = 1"
  "replay_delay demo_pflags (cfg_Replay DefaultConfig) = Inr 0" "pg_Session demo_pflags = ''s1''" "pg_Target demo_pflags = ''http://t''"
  "dg_Session demo_dflags = ''s1''" "dg_OutputFile demo_dflags = ''''" "currentDiffOutput demo_dflags = ''json''"
  "currentDiffFailOn demo_dflags = ''diff''" "diff_rules gate_cw DefaultConfig demo_dflags = Inr []"
  "rt_DataDir demo_rt = [''d'']" "rt_Config demo_rt = DefaultConfig"
  by (simp_all add: resolveReplayDBProxies_def effectiveInt_def replay_delay_def demo_pflags_def DefaultConfig_def demo_dflags_def
      currentDiffOutput_def currentDiffFailOn_def diff_rules_def RulesFromConfig_def effectiveString_def demo_rt_def)

theorem migration_gate_witness:
  "\<exists>fs1 s fs2 rep. runReplay gate_aw demo_rt demo_pflags demo_diff_fs = (fs1, Inr s)
     \<and> runDiff gate_cw demo_rt demo_dflags fs1 = (fs2, Some rep, None) \<and> su_Total s = 1 \<and> su_Failed s = 0"
proof -
  have get: "Get gate_json demo_diff_store demo_diff_fs ''s1'' = Inr demo_session"
    by (rule demo_diff_get) (simp add: gate_json_def)
  have id: "sess_ID demo_session = ''s1''" by (simp add: demo_session_def)
  have lists: "ListRecords gate_json demo_diff_store demo_diff_fs ''s1'' = ([demo_record], None)"
    by (rule demo_diff_lists) (simp add: gate_json_def)
  have m: "marked gate_aw ''http://t'' demo_session = gate_marked" by (simp add: marked_def gate_marked_def gate_simps)
  have ok: "session_ok gate_json (marked gate_aw ''http://t'' demo_session)"
    unfolding m by (simp add: session_ok_def gate_json_def gate_marked_def demo_session_def plain_name_def)
  have inv: "records_inv demo_diff_store ''s1'' ''replay-records.jsonl'' demo_diff_fs"
    using demo_diff_inv
    by (simp add: records_inv_def plain_name_def store_files_def demo_diff_store_def demo_diff_fs_def lines_ok_def scan_limit_def)
  have rok: "list_all (\<lambda>r. record_ok gate_json (rp_Replayed r)) [gate_result]"
    by (simp add: record_ok_def gate_json_def dropCR_def scan_limit_def)
  define fsr where "fsr = save_replays gate_json demo_diff_store demo_diff_fs ''s1'' [gate_result]"
  define fs1 where "fs1 = mark_replayed gate_aw demo_diff_store fsr ''s1'' ''http://t''"
  define s where "s = \<lparr>su_Total = length [gate_result], su_Succeeded = length [gate_result] - count_errors [gate_result],
     su_Failed = count_errors [gate_result]\<rparr>"
  have resolve: "resolveSession gate_json demo_diff_store demo_diff_fs ''s1'' = Inr ''s1''" by (simp add: resolveSession_def get id)
  note run = gate_run [folded fsr_def]
  have replay: "runReplay gate_aw demo_rt demo_pflags demo_diff_fs = (fs1, Inr s)"
    unfolding runReplay_def Let_def gate_flags gate_simps
    using run by (simp add: gate_simps(5) demo_diff_open resolve gate_timeout gate_flags gate_engine_def fs1_def s_def)
  have e: "re_store gate_engine = demo_diff_store" "re_sessionID gate_engine = ''s1''" by (simp_all add: gate_engine_def)
  obtain originals old where l: "ListRecords gate_json demo_diff_store demo_diff_fs ''s1'' = (originals, None)" "list_all2 replays originals [gate_result]"
      "store_inv demo_diff_store fs1" "Get gate_json demo_diff_store fs1 ''s1'' = Inr gate_marked"
      "ListRecords gate_json demo_diff_store fs1 ''s1'' = (originals, None)"
      "ListReplayRecords gate_json demo_diff_store fs1 ''s1'' = (old @ map rp_Replayed [gate_result], None)"
    by (rule replay_leaves [of gate_aw, unfolded gate_simps, OF run e inv rok get id ok fs1_def, unfolded m])
  have o: "originals = [demo_record]" using l(1) lists by simp
  obtain de where de: "NewEngine (diff_engine_config DefaultConfig demo_dflags ''s1'' []) = Some de"
    using NewEngine_Some [of "diff_engine_config DefaultConfig demo_dflags ''s1'' []"] by blast
  have sid: "eng_sessionID de = ''s1''" using NewEngine_fields [OF de] by (simp add: diff_engine_config_def)
  obtain fs2 diffs where d: "Run id (\<lambda>b. None) gate_json demo_diff_store de fs1 = (fs2, Inr diffs)" "length diffs = 1"
      "diffs ! 0 = compareRecords id (\<lambda>b. None) de demo_record (rp_Replayed gate_result)"
    using diff_after_replay [of gate_json demo_diff_store fs1 de "[demo_record]" old "[gate_result]" id "\<lambda>b. None"] l(2,5,6)
    unfolding sid o by auto
  then have "list_all res_Match diffs" using gate_matches [OF de] by (cases diffs) auto
  then have "sum_DiffCount (FormatDiffSummary diffs) = 0" by (simp add: DiffCount_zero)
  moreover have "resolveSession gate_json demo_diff_store fs1 ''s1'' = Inr ''s1''"
    by (simp add: resolveSession_def l(4)) (simp add: gate_marked_def id)
  ultimately have "runDiff gate_cw demo_rt demo_dflags fs1
      = (fs2, Some (Generate JSONReporter diffs ((FormatDiffSummary diffs)\<lparr>sum_SessionID := ''s1''\<rparr>)), None)"
    using de d(1)
    by (simp add: runDiff_def gate_flags gate_simps NewFileStore_again [OF demo_diff_open l(3)] validateDiffOutput_def validateDiffFailOn_def
        demo_lower create_output_def write_output_def writeDiffResults_def enforceDiffFailOn_def)
  then obtain rep where diff: "runDiff gate_cw demo_rt demo_dflags fs1 = (fs2, Some rep, None)" by blast
  have pol: "ToLower (cw_low gate_cw) (currentDiffFailOn demo_dflags) = ''diff''" by (simp add: gate_flags gate_simps demo_lower)
  have codec: "list_all (\<lambda>r. record_ok (aw_json gate_aw) (rp_Replayed r)) results"
    if "resolveReplayDBProxies (pg_DBProxyChanged demo_pflags) (pg_DBProxy demo_pflags) (rt_Config demo_rt) = Inr dbProxies"
      "ParseDuration (rc_Timeout (cfg_Replay (rt_Config demo_rt))) = Some timeout"
      "Replay_Run (aw_json gate_aw) (aw_etext gate_aw) (aw_accepts gate_aw) (aw_requests gate_aw) demo_diff_fs
         (replay_engine demo_rt demo_pflags dbProxies demo_diff_store ''s1'' timeout) = (fsr', e', Inr results)"
    for dbProxies timeout fsr' e' results
    using that run rok by (simp add: gate_flags gate_simps gate_timeout gate_engine_def)
  have "su_Total s = length [demo_record] \<and> su_Failed s = 0"
    using migration_gate [OF replay diff pol _ gate_flags(4,6) demo_diff_open [folded gate_flags(11)] inv _ id _ _ _ codec]
      get lists ok by (simp add: gate_simps gate_flags)
  then show ?thesis using replay diff by auto
qed

definition pipe_engine :: ReplayEngine where
  "pipe_engine = NewReplayEngine demo_store ''s1'' ''http://t'' 0 0 1 None"

definition pipe_replayed :: ReplayResult where
  "pipe_replayed = replayOne (\<lambda>e. ''e'') (\<lambda>m u. True) demo_replay_fs (re_pool pipe_engine) demo_rw demo_record"

definition pipe_json :: json_codec where
  "pipe_json = demo_json\<lparr>marshalRecord := \<lambda>r. Some ''p'',
     unmarshalRecord := \<lambda>d. if d = ''p'' then Some (rp_Replayed pipe_replayed) else Some demo_record\<rparr>"

lemma pipe_records: "ListRecords pipe_json demo_store demo_replay_fs ''s1'' = ([demo_record], None)"
proof -
  have inv: "records_inv demo_store ''s1'' ''records.jsonl'' demo_replay_fs"
    using demo_replay_inv by (simp add: records_inv_def demo_store_def demo_replay_fs_def demo_fs_def store_files_def lines_ok_def scan_limit_def)
  have "listRecords pipe_json demo_store demo_replay_fs ''s1'' ''records.jsonl'' = (decode_lines pipe_json (map dropCR [''o'']), None)"
    by (rule listRecords_unlines [OF inv]) (simp_all add: demo_store_def demo_replay_fs_def demo_fs_def scan_limit_def)
  then show ?thesis by (simp add: ListRecords_def pipe_json_def dropCR_def)
qed

theorem replay_then_diff_witness:
  "\<exists>de fs' fs'' diffs. NewEngine demo_cfg = Some de
     \<and> Replay_Run pipe_json (\<lambda>e. ''e'') (\<lambda>m u. True) (\<lambda>i. (demo_rw, [])) demo_replay_fs pipe_engine = (fs', pipe_engine, Inr [pipe_replayed])
     \<and> Run id (\<lambda>b. None) pipe_json demo_store de fs' = (fs'', Inr diffs) \<and> length diffs = 1"
proof -
  obtain de where de: "NewEngine demo_cfg = Some de" "eng_sessionID de = ''s1''" by (rule demo_engine)
  have e: "re_store pipe_engine = demo_store" "re_sessionID pipe_engine = ''s1''" "re_sideEffectCh pipe_engine = None"
    by (simp_all add: pipe_engine_def NewReplayEngine_def)
  have results: "[pipe_replayed] = Execute (\<lambda>e. ''e'') (\<lambda>m u. True) demo_replay_fs (re_pool pipe_engine) (\<lambda>i. fst (demo_rw, [])) [demo_record]"
    by (simp add: Execute_def pipe_replayed_def)
  have ok: "list_all (\<lambda>r. record_ok pipe_json (rp_Replayed r)) [pipe_replayed]"
    by (simp add: record_ok_def pipe_json_def dropCR_def scan_limit_def)
  show ?thesis
    using replay_then_diff [where e = pipe_engine and w = "\<lambda>i. (demo_rw, [])" and originals = "[demo_record]"
        and up = id and unmarshal = "\<lambda>b. None" and de = de,
        unfolded e, OF refl pipe_records _ _ demo_replay_inv results ok de(2)] de(1)
    by auto
qed

end
